(* ===== verification/Prelude.thy ===== *)
theory Prelude
  imports Main "HOL-Library.Word" "HOL-Library.Multiset" "HOL-Library.AList" "HOL-Library.Sublist"
begin

text \<open>
  Shared vocabulary of the development: the machine types of the Go sources, the two ways a Go
  call can end (returning, possibly with an error value, or panicking), and the generic lemmas on
  lists and words that the component theories use.

  Go strings and byte slices are both sequences of bytes, hence \<open>bytes = char list\<close>
  (an Isabelle \<^typ>\<open>char\<close> is one byte). Unsigned and signed Go integers of a fixed width are
  words of that width; a signed one is read with \<^const>\<open>sint\<close>. Go's \<open>int\<close> (64 bits on the
  supported platforms) is an \<^typ>\<open>int\<close> with the wrap-around written out by \<open>int64\<close>.
\<close>

section \<open>Machine types\<close>

type_synonym bytes = "char list"
type_synonym uint16 = "16 word"
type_synonym uint32 = "32 word"
type_synonym int32 = "32 word"
type_synonym uint64 = "64 word"

text \<open>A mathematical integer reduced to the range of a 64-bit two's complement \<open>int\<close>.\<close>

definition int64 :: "int \<Rightarrow> int" where
  "int64 x = (x + 2 ^ 63) mod 2 ^ 64 - 2 ^ 63"

section \<open>How a Go call ends\<close>

text \<open>
  A panic that nobody recovers from terminates the whole process, so it is an outcome of its own
  (\<open>Panic\<close>), while an error that a function returns is an ordinary value: a function with Go
  type \<open>func(...) (T, error)\<close> that may also panic has result type \<open>(error + 'a) exec\<close>.
\<close>

datatype panic = MakeSliceLen | SliceBounds | IndexRange

datatype 'a exec = Ret 'a | Panic panic

primrec returns :: "'a exec \<Rightarrow> bool" where
  "returns (Ret _) = True"
| "returns (Panic _) = False"

primrec map_exec_result :: "('a \<Rightarrow> 'b) \<Rightarrow> 'a exec \<Rightarrow> 'b exec" where
  "map_exec_result f (Ret x) = Ret (f x)"
| "map_exec_result f (Panic p) = Panic p"

named_theorems go_defs \<open>definitions of the Go library primitives, unfolded together\<close>
named_theorems line_clean \<open>facts about strings that stay on one line of a line protocol\<close>

section \<open>Generic lemmas\<close>

lemma int64_id [simp]: "- (2 ^ 63) \<le> x \<Longrightarrow> x < 2 ^ 63 \<Longrightarrow> int64 x = x"
  by (simp add: int64_def mod_pos_pos_trivial)

lemma int64_range: "- (2 ^ 63) \<le> int64 x \<and> int64 x < 2 ^ 63"
proof -
  have "0 \<le> (x + 2 ^ 63) mod 2 ^ 64" and "(x + 2 ^ 63) mod 2 ^ 64 < 2 ^ 64"
    by simp_all
  then show ?thesis by (simp add: int64_def)
qed

lemma takeWhile_neq_append_delim [simp]:
  "c \<notin> set xs \<Longrightarrow> takeWhile (\<lambda>x. x \<noteq> c) (xs @ c # ys) = xs"
  by (induction xs) auto

lemma dropWhile_neq_append_delim [simp]:
  "c \<notin> set xs \<Longrightarrow> dropWhile (\<lambda>x. x \<noteq> c) (xs @ c # ys) = c # ys"
  by (induction xs) auto

lemma takeWhile_neq_notin: "c \<notin> set (takeWhile (\<lambda>x. x \<noteq> c) xs)"
  by (auto dest: set_takeWhileD)

lemma split_at_delim:
  assumes "c \<in> set xs"
  obtains ys zs where "xs = ys @ c # zs" and "c \<notin> set ys"
  using assms by (metis split_list_first)

lemma find_SomeD: "find P xs = Some x \<Longrightarrow> x \<in> set xs \<and> P x"
  by (induction xs) (auto split: if_splits)

lemma find_append:
  "find P (xs @ ys) = (case find P xs of None \<Rightarrow> find P ys | Some x \<Rightarrow> Some x)"
  by (induction xs) auto

lemma find_split:
  assumes "find P xs = Some x"
  obtains ys zs where "xs = ys @ x # zs" and "P x" and "\<forall>y \<in> set ys. \<not> P y"
proof -
  have "\<exists>ys zs. xs = ys @ x # zs \<and> P x \<and> (\<forall>y \<in> set ys. \<not> P y)"
    using assms
  proof (induction xs)
    case (Cons y xs)
    show ?case
    proof (cases "P y")
      case True
      with Cons.prems show ?thesis by - (rule exI [of _ "[]"], auto)
    next
      case False
      with Cons obtain ys zs where "xs = ys @ x # zs" "P x" "\<forall>y \<in> set ys. \<not> P y" by auto
      with False show ?thesis by - (rule exI [of _ "y # ys"], auto)
    qed
  qed simp
  with that show ?thesis by blast
qed

lemma returns_iff: "returns m \<longleftrightarrow> (\<exists>x. m = Ret x)"
  by (cases m) auto

lemma sum_list_words_append: "sum_list (xs @ ys) = sum_list xs + (sum_list ys :: 'a::len word)"
  by simp

end
