(* ===== verification/Utf8.thy ===== *)
theory Utf8
  imports Prelude
begin

text \<open>
  The UTF-8 view of a Go string: what \<open>for _, r := range s\<close>, \<open>[]rune(s)\<close> and
  \<open>utf8.DecodeRuneInString\<close> read, and what \<open>utf8.AppendRune\<close> writes. A rune is a code point
  (a \<^typ>\<open>nat\<close>). An ill-formed sequence decodes to U+FFFD and consumes one byte.
\<close>

type_synonym rune = nat

definition RuneError :: rune where
  "RuneError = 0xFFFD"

abbreviation byte_val :: "char \<Rightarrow> nat" where
  "byte_val c \<equiv> of_char c"

text \<open>Length of the sequence a leading byte announces, and the range of its second byte.\<close>

definition utf8_lead :: "nat \<Rightarrow> (nat \<times> nat \<times> nat) option" where
  "utf8_lead b =
     (if b < 0xC2 then None
      else if b < 0xE0 then Some (2, 0x80, 0xBF)
      else if b = 0xE0 then Some (3, 0xA0, 0xBF)
      else if b = 0xED then Some (3, 0x80, 0x9F)
      else if b < 0xF0 then Some (3, 0x80, 0xBF)
      else if b = 0xF0 then Some (4, 0x90, 0xBF)
      else if b < 0xF4 then Some (4, 0x80, 0xBF)
      else if b = 0xF4 then Some (4, 0x80, 0x8F)
      else None)"

definition continuation :: "nat \<Rightarrow> bool" where
  "continuation b \<longleftrightarrow> 0x80 \<le> b \<and> b \<le> 0xBF"

text \<open>The decoder on the byte values that follow the leading byte \<open>b0\<close>.\<close>

definition decode_tail :: "nat \<Rightarrow> nat list \<Rightarrow> rune \<times> nat" where
  "decode_tail b0 t =
     (if b0 < 0x80 then (b0, 1)
      else case utf8_lead b0 of
        None \<Rightarrow> (RuneError, 1)
      | Some (sz, lo, hi) \<Rightarrow>
          (case t of
             [] \<Rightarrow> (RuneError, 1)
           | b1 # t1 \<Rightarrow>
               if \<not> (lo \<le> b1 \<and> b1 \<le> hi) then (RuneError, 1)
               else if sz = 2 then ((b0 - 0xC0) * 0x40 + (b1 - 0x80), 2)
               else (case t1 of
                  [] \<Rightarrow> (RuneError, 1)
                | b2 # t2 \<Rightarrow>
                    if \<not> continuation b2 then (RuneError, 1)
                    else if sz = 3
                    then ((b0 - 0xE0) * 0x1000 + (b1 - 0x80) * 0x40 + (b2 - 0x80), 3)
                    else (case t2 of
                       [] \<Rightarrow> (RuneError, 1)
                     | b3 # _ \<Rightarrow>
                         if \<not> continuation b3 then (RuneError, 1)
                         else ((b0 - 0xF0) * 0x40000 + (b1 - 0x80) * 0x1000
                                 + (b2 - 0x80) * 0x40 + (b3 - 0x80), 4)))))"

definition DecodeRune :: "bytes \<Rightarrow> rune \<times> nat" where
  "DecodeRune s =
     (case s of [] \<Rightarrow> (RuneError, 0) | c # t \<Rightarrow> decode_tail (byte_val c) (map byte_val (take 3 t)))"

lemma decode_tail_width: "0 < snd (decode_tail b t)"
  by (auto simp: decode_tail_def utf8_lead_def split: option.splits list.splits)

lemma DecodeRune_width: "s \<noteq> [] \<Longrightarrow> 0 < snd (DecodeRune s)"
  by (auto simp: DecodeRune_def decode_tail_width split: list.splits)

text \<open>The runes of a string, as \<open>range\<close> enumerates them.\<close>

function runes :: "bytes \<Rightarrow> rune list" where
  "runes s = (if s = [] then []
              else fst (DecodeRune s) # runes (drop (snd (DecodeRune s)) s))"
  by pat_completeness auto
termination runes
proof (relation "measure length")
  fix s :: bytes
  assume "s \<noteq> []"
  with DecodeRune_width [OF this] show "(drop (snd (DecodeRune s)) s, s) \<in> measure length"
    by simp
qed simp

declare runes.simps [simp del]

text \<open>Encoding a rune; surrogates and values past U+10FFFF become U+FFFD.\<close>

definition encode_rune_vals :: "rune \<Rightarrow> nat list" where
  "encode_rune_vals r0 =
     (let r = (if r0 > 0x10FFFF \<or> (0xD800 \<le> r0 \<and> r0 \<le> 0xDFFF) then RuneError else r0) in
      if r < 0x80 then [r]
      else if r < 0x800 then [0xC0 + r div 0x40, 0x80 + r mod 0x40]
      else if r < 0x10000
      then [0xE0 + r div 0x1000, 0x80 + r div 0x40 mod 0x40, 0x80 + r mod 0x40]
      else [0xF0 + r div 0x40000, 0x80 + r div 0x1000 mod 0x40,
            0x80 + r div 0x40 mod 0x40, 0x80 + r mod 0x40])"

definition encode_rune :: "rune \<Rightarrow> bytes" where
  "encode_rune r = map char_of (encode_rune_vals r)"

text \<open>\<open>strings.Map\<close> with a mapping that never returns a negative rune.\<close>

definition strings_Map :: "(rune \<Rightarrow> rune) \<Rightarrow> bytes \<Rightarrow> bytes" where
  "strings_Map f s = concat (map (encode_rune \<circ> f) (runes s))"

section \<open>ASCII strings\<close>

definition ascii :: "bytes \<Rightarrow> bool" where
  "ascii s \<longleftrightarrow> (\<forall>c \<in> set s. byte_val c < 0x80)"

lemma ascii_simps [simp]:
  "ascii []"
  "ascii (c # s) \<longleftrightarrow> byte_val c < 0x80 \<and> ascii s"
  "ascii (s @ t) \<longleftrightarrow> ascii s \<and> ascii t"
  by (auto simp: ascii_def)

lemma DecodeRune_ascii: "byte_val c < 0x80 \<Longrightarrow> DecodeRune (c # s) = (byte_val c, 1)"
  by (simp add: DecodeRune_def decode_tail_def)

lemma runes_ascii_Cons: "byte_val c < 0x80 \<Longrightarrow> runes (c # s) = byte_val c # runes s"
  by (subst runes.simps) (simp add: DecodeRune_ascii)

lemma runes_Nil [simp]: "runes [] = []"
  by (subst runes.simps) simp

lemma runes_ascii: "ascii s \<Longrightarrow> runes s = map byte_val s"
  by (induction s) (auto simp: runes_ascii_Cons)

section \<open>Line feeds survive decoding and encoding\<close>

text \<open>
  A rune below 0x80 only ever stands for the byte of that value, both ways. This is what keeps a
  one-line string on one line under a rune-wise mapping.
\<close>

lemma fst_decode_tail_small: "fst (decode_tail b t) < 0x80 \<Longrightarrow> b < 0x80 \<and> fst (decode_tail b t) = b"
  by (auto simp: decode_tail_def utf8_lead_def RuneError_def continuation_def
      split: if_splits option.splits list.splits)

lemma runes_small: "r \<in> set (runes s) \<Longrightarrow> r < 0x80 \<Longrightarrow> char_of r \<in> set s"
proof (induction s rule: runes.induct)
  case (1 s)
  show ?case
  proof (cases s)
    case Nil
    with "1.prems" show ?thesis by simp
  next
    case (Cons c t)
    then have rs: "runes s = fst (DecodeRune s) # runes (drop (snd (DecodeRune s)) s)"
      by (subst runes.simps) simp
    show ?thesis
    proof (cases "r = fst (DecodeRune s)")
      case True
      with Cons "1.prems"(2) have "r = byte_val c"
        using fst_decode_tail_small by (auto simp: DecodeRune_def)
      with Cons show ?thesis by simp
    next
      case False
      with "1.prems" rs Cons have "char_of r \<in> set (drop (snd (DecodeRune s)) s)"
        using "1.IH" by auto
      then show ?thesis by (rule in_set_dropD)
    qed
  qed
qed

lemma encode_rune_vals_small: "b \<in> set (encode_rune_vals r) \<Longrightarrow> b < 0x80 \<Longrightarrow> b = r"
  by (auto simp: encode_rune_vals_def RuneError_def Let_def split: if_splits)

lemma encode_rune_vals_bound: "b \<in> set (encode_rune_vals r) \<Longrightarrow> b < 256"
  by (auto simp: encode_rune_vals_def RuneError_def Let_def less_mult_imp_div_less split: if_splits)

lemma encode_rune_small: "c \<in> set (encode_rune r) \<Longrightarrow> byte_val c < 0x80 \<Longrightarrow> byte_val c = r"
  using encode_rune_vals_small encode_rune_vals_bound
  by (fastforce simp: encode_rune_def)

lemma strings_Map_avoids:
  assumes "c \<notin> set s" and "byte_val c < 0x80"
    and "\<And>r. f r = byte_val c \<Longrightarrow> r = byte_val c"
  shows "c \<notin> set (strings_Map f s)"
proof
  assume "c \<in> set (strings_Map f s)"
  then obtain r where r: "r \<in> set (runes s)" and "c \<in> set (encode_rune (f r))"
    by (auto simp: strings_Map_def)
  with assms(2) have "byte_val c = f r" by (blast dest: encode_rune_small)
  with assms(3) have "r = byte_val c" by simp
  with r assms(2) have "char_of (byte_val c :: nat) \<in> set s" using runes_small by blast
  with assms(1) show False by simp
qed

section \<open>Decoding inverts encoding\<close>

definition valid_rune :: "rune \<Rightarrow> bool" where
  "valid_rune r \<longleftrightarrow> r \<le> 0x10FFFF \<and> \<not> (0xD800 \<le> r \<and> r \<le> 0xDFFF)"

lemma map_byte_val_encode_rune [simp]: "map byte_val (encode_rune r) = encode_rune_vals r"
  using encode_rune_vals_bound [of _ r]
  by (auto simp: encode_rune_def intro!: map_idI)

lemma decode_one: "b < 0x80 \<Longrightarrow> decode_tail b t = (b, 1)"
  by (simp add: decode_tail_def)

lemma decode_two:
  assumes "0x80 \<le> r" and "r < 0x800"
  shows "decode_tail (0xC0 + r div 0x40) ((0x80 + r mod 0x40) # t) = (r, 2)"
proof -
  have "2 \<le> r div 0x40" and "r div 0x40 < 0x20"
    using assms by (auto simp: less_mult_imp_div_less div_le_mono [of "0x80" r "0x40", simplified])
  then have "utf8_lead (0xC0 + r div 0x40) = Some (2, 0x80, 0xBF)"
    by (simp add: utf8_lead_def)
  moreover have "r mod 0x40 < 0x40" by simp
  ultimately show ?thesis by (simp add: decode_tail_def)
qed

lemma base64_digits3:
  obtains a b c :: nat where "r = a * 0x1000 + b * 0x40 + c" and "b < 0x40" and "c < 0x40"
    and "r div 0x1000 = a" and "r div 0x40 mod 0x40 = b" and "r mod 0x40 = c"
proof -
  have q: "r div 0x1000 = r div 0x40 div 0x40"
    by (simp add: div_mult2_eq [of r 64 64, simplified])
  have "r = r div 0x40 * 0x40 + r mod 0x40"
    and "r div 0x40 = r div 0x40 div 0x40 * 0x40 + r div 0x40 mod 0x40"
    by simp_all
  then have "r = r div 0x1000 * 0x1000 + r div 0x40 mod 0x40 * 0x40 + r mod 0x40"
    unfolding q by linarith
  then show ?thesis by (rule that) simp_all
qed

lemma decode_three:
  assumes "0x800 \<le> r" and "r < 0x10000" and "\<not> (0xD800 \<le> r \<and> r \<le> 0xDFFF)"
  shows "decode_tail (0xE0 + r div 0x1000)
           ((0x80 + r div 0x40 mod 0x40) # (0x80 + r mod 0x40) # t) = (r, 3)"
proof -
  obtain a b c where r: "r = a * 0x1000 + b * 0x40 + c" and b: "b < 0x40" and c: "c < 0x40"
    and eqs: "r div 0x1000 = a" "r div 0x40 mod 0x40 = b" "r mod 0x40 = c"
    by (rule base64_digits3)
  have a: "a < 0x10" and lo: "a = 0 \<Longrightarrow> 0x20 \<le> b" and hi: "a = 0xD \<Longrightarrow> b < 0x20"
    using assms r b c by auto
  show ?thesis
    unfolding eqs using a lo hi b c r
    by (auto simp: decode_tail_def utf8_lead_def continuation_def)
qed

lemma decode_four:
  assumes "0x10000 \<le> r" and "r \<le> 0x10FFFF"
  shows "decode_tail (0xF0 + r div 0x40000)
           ((0x80 + r div 0x1000 mod 0x40) # (0x80 + r div 0x40 mod 0x40)
             # (0x80 + r mod 0x40) # t) = (r, 4)"
proof -
  obtain q b c where r: "r = q * 0x1000 + b * 0x40 + c" and b: "b < 0x40" and c: "c < 0x40"
    and eqs: "r div 0x1000 = q" "r div 0x40 mod 0x40 = b" "r mod 0x40 = c"
    by (rule base64_digits3)
  define a where "a = q mod 0x40"
  define d where "d = q div 0x40"
  have q: "q = d * 0x40 + a" and al: "a < 0x40" by (simp_all add: a_def d_def)
  have dv: "r div 0x40000 = d"
    using eqs(1) by (simp add: d_def div_mult2_eq [of r 4096 64, simplified])
  have d: "d < 5" and lo: "d \<noteq> 0 \<or> 0x10 \<le> a" and hi: "d < 4 \<or> a < 0x10"
    using assms r q b c al by auto
  show ?thesis
    unfolding dv eqs a_def [symmetric] using d lo hi al b c r q
    by (auto simp: decode_tail_def utf8_lead_def continuation_def)
qed

lemma decode_encode_vals:
  assumes "valid_rune r" and "encode_rune_vals r = b # bs"
  shows "decode_tail b (bs @ t) = (r, Suc (length bs))"
  using assms decode_two [of r t] decode_three [of r t] decode_four [of r t]
  by (auto simp: encode_rune_vals_def valid_rune_def decode_one Let_def
      split: if_splits)

lemma encode_rune_vals_length: "encode_rune_vals r \<noteq> [] \<and> length (encode_rune_vals r) \<le> 4"
  by (auto simp: encode_rune_vals_def Let_def)

lemma DecodeRune_encode:
  assumes "valid_rune r"
  shows "DecodeRune (encode_rune r @ s) = (r, length (encode_rune r))"
proof -
  obtain b bs where vs: "encode_rune_vals r = b # bs"
    using encode_rune_vals_length by (metis neq_Nil_conv)
  then have "length bs \<le> 3"
    using encode_rune_vals_length [of r] by simp
  have e: "encode_rune r = char_of b # map char_of bs"
    and mv: "byte_val (char_of b :: char) # map byte_val (map char_of bs) = b # bs"
    using vs map_byte_val_encode_rune [of r] by (simp_all add: encode_rune_def)
  show ?thesis
    using decode_encode_vals [OF assms vs, of "map byte_val (take (3 - length bs) s)"] mv
      \<open>length bs \<le> 3\<close>
    by (simp add: e DecodeRune_def)
qed

lemma runes_encode: "valid_rune r \<Longrightarrow> runes (encode_rune r @ s) = r # runes s"
  using encode_rune_vals_length [of r]
  by (subst runes.simps) (simp add: DecodeRune_encode, simp add: encode_rune_def)

text \<open>Decoding the concatenated encodings of valid runes gives those runes back.\<close>

lemma runes_concat_encode:
  "list_all valid_rune rs \<Longrightarrow> runes (concat (map encode_rune rs)) = rs"
  by (induction rs) (auto simp: runes_encode)

end
