(* ===== verification/GoStrings.thy ===== *)
theory GoStrings
  imports Utf8
begin

text \<open>
  The functions of Go's \<open>strings\<close> and \<open>strconv\<close> packages that the sources call, on byte
  strings: trimming, prefixes, joining, case mapping, white space, and decimal numbers.

  Upper and lower casing of a rune outside ASCII goes through Go's Unicode tables. These are data
  of the Go release the program is built with, so they are a parameter \<open>U\<close> of every definition
  that folds case.
\<close>

section \<open>Prefixes, trimming, joining\<close>

abbreviation CR :: char where "CR \<equiv> CHR 0x0D"
abbreviation LF :: char where "LF \<equiv> CHR 0x0A"
abbreviation CRLF :: bytes where "CRLF \<equiv> [CR, LF]"

definition HasPrefix :: "bytes \<Rightarrow> bytes \<Rightarrow> bool" where
  "HasPrefix s p \<longleftrightarrow> take (length p) s = p"

definition HasSuffix :: "bytes \<Rightarrow> bytes \<Rightarrow> bool" where
  "HasSuffix s p \<longleftrightarrow> length p \<le> length s \<and> drop (length s - length p) s = p"

definition TrimPrefix :: "bytes \<Rightarrow> bytes \<Rightarrow> bytes" where
  "TrimPrefix s p = (if HasPrefix s p then drop (length p) s else s)"

definition TrimRight :: "bytes \<Rightarrow> bytes \<Rightarrow> bytes" where
  "TrimRight s cutset = rev (dropWhile (\<lambda>c. c \<in> set cutset) (rev s))"

fun Join :: "bytes list \<Rightarrow> bytes \<Rightarrow> bytes" where
  "Join [] sep = []"
| "Join [s] sep = s"
| "Join (s # t # ss) sep = s @ sep @ Join (t # ss) sep"

fun Contains :: "bytes \<Rightarrow> bytes \<Rightarrow> bool" where
  "Contains [] sub = (sub = [])"
| "Contains (c # s) sub = (HasPrefix (c # s) sub \<or> Contains s sub)"

section \<open>White space\<close>

text \<open>
  The runes for which \<open>unicode.IsSpace\<close> holds. Their encodings start with a byte that is not a
  continuation byte, so a string starts (ends) with a space rune exactly when it has one of these
  encodings as a prefix (suffix).
\<close>

definition space_runes :: "rune list" where
  "space_runes = [9, 10, 11, 12, 13, 32, 0x85, 0xA0, 0x1680] @ [0x2000..<0x200B]
     @ [0x2028, 0x2029, 0x202F, 0x205F, 0x3000]"

definition space_seqs :: "bytes list" where
  "space_seqs = map encode_rune space_runes"

lemma space_seqs_nonempty: "p \<in> set space_seqs \<Longrightarrow> 0 < length p"
  using encode_rune_vals_length by (auto simp: space_seqs_def encode_rune_def)

function trim_space_left :: "bytes \<Rightarrow> bytes" where
  "trim_space_left s =
     (case find (\<lambda>p. HasPrefix s p) space_seqs of
        None \<Rightarrow> s
      | Some p \<Rightarrow> trim_space_left (drop (length p) s))"
  by pat_completeness auto
termination trim_space_left
proof (relation "measure length")
  fix s p
  assume *: "find (\<lambda>p. HasPrefix s p) space_seqs = Some p"
  then have "0 < length p" and "HasPrefix s p"
    by (auto dest!: find_SomeD space_seqs_nonempty)
  then show "(drop (length p) s, s) \<in> measure length"
    by (cases s) (auto simp: HasPrefix_def)
qed simp

function trim_space_right :: "bytes \<Rightarrow> bytes" where
  "trim_space_right s =
     (case find (\<lambda>p. HasSuffix s p) space_seqs of
        None \<Rightarrow> s
      | Some p \<Rightarrow> trim_space_right (take (length s - length p) s))"
  by pat_completeness auto
termination trim_space_right
proof (relation "measure length")
  fix s p
  assume *: "find (\<lambda>p. HasSuffix s p) space_seqs = Some p"
  then have "0 < length p" and "HasSuffix s p"
    by (auto dest!: find_SomeD space_seqs_nonempty)
  then have "length s - length p < length s"
    by (cases s) (simp_all add: HasSuffix_def)
  then show "(take (length s - length p) s, s) \<in> measure length"
    by simp
qed simp

declare trim_space_left.simps [simp del] trim_space_right.simps [simp del]

definition TrimSpace :: "bytes \<Rightarrow> bytes" where
  "TrimSpace s = trim_space_right (trim_space_left s)"

text \<open>\<open>strings.Fields\<close>: \<open>cur\<close> is the field being collected.\<close>

function fields_from :: "bytes \<Rightarrow> bytes \<Rightarrow> bytes list" where
  "fields_from cur s =
     (if s = [] then (if cur = [] then [] else [cur])
      else case find (\<lambda>p. HasPrefix s p) space_seqs of
        None \<Rightarrow> fields_from (cur @ [hd s]) (tl s)
      | Some p \<Rightarrow> (if cur = [] then [] else [cur]) @ fields_from [] (drop (length p) s))"
  by pat_completeness auto
termination fields_from
proof (relation "measure (\<lambda>(_, s). length s)")
  fix cur s p
  assume *: "s \<noteq> []" "find (\<lambda>p. HasPrefix s p) space_seqs = Some p"
  then have "0 < length p"
    by (auto dest!: find_SomeD space_seqs_nonempty)
  with *(1) show "(([], drop (length p) s), (cur, s)) \<in> measure (\<lambda>(_, s). length s)"
    by (cases s) auto
qed auto

declare fields_from.simps [simp del]

definition Fields :: "bytes \<Rightarrow> bytes list" where
  "Fields s = fields_from [] s"

section \<open>Letter case\<close>

record unicode_tables =
  upper_tab :: "rune \<Rightarrow> rune"
  lower_tab :: "rune \<Rightarrow> rune"

definition unicode_ToUpper :: "unicode_tables \<Rightarrow> rune \<Rightarrow> rune" where
  "unicode_ToUpper U r = (if r < 0x80 then (if 97 \<le> r \<and> r \<le> 122 then r - 32 else r)
                          else upper_tab U r)"

definition unicode_ToLower :: "unicode_tables \<Rightarrow> rune \<Rightarrow> rune" where
  "unicode_ToLower U r = (if r < 0x80 then (if 65 \<le> r \<and> r \<le> 90 then r + 32 else r)
                          else lower_tab U r)"

definition ascii_upper :: "char \<Rightarrow> char" where
  "ascii_upper c = (if 97 \<le> byte_val c \<and> byte_val c \<le> 122 then char_of (byte_val c - 32) else c)"

definition ascii_lower :: "char \<Rightarrow> char" where
  "ascii_lower c = (if 65 \<le> byte_val c \<and> byte_val c \<le> 90 then char_of (byte_val c + 32) else c)"

definition strings_ToUpper :: "unicode_tables \<Rightarrow> bytes \<Rightarrow> bytes" where
  "strings_ToUpper U s = (if ascii s then map ascii_upper s else strings_Map (unicode_ToUpper U) s)"

definition strings_ToLower :: "unicode_tables \<Rightarrow> bytes \<Rightarrow> bytes" where
  "strings_ToLower U s = (if ascii s then map ascii_lower s else strings_Map (unicode_ToLower U) s)"

text \<open>
  What is assumed of the tables where a property needs it: no rune outside ASCII is the upper or
  lower case of a line feed or carriage return.
\<close>

definition tables_keep_lines :: "unicode_tables \<Rightarrow> bool" where
  "tables_keep_lines U \<longleftrightarrow>
     (\<forall>r \<ge> 0x80. upper_tab U r \<notin> {10, 13} \<and> lower_tab U r \<notin> {10, 13})"

definition ascii_tables :: unicode_tables where
  "ascii_tables = \<lparr>upper_tab = id, lower_tab = id\<rparr>"

section \<open>Decimal numbers\<close>

definition digit_char :: "nat \<Rightarrow> char" where
  "digit_char d = char_of (48 + d)"

fun itoa_nat :: "nat \<Rightarrow> bytes" where
  "itoa_nat n = (if n < 10 then [digit_char n] else itoa_nat (n div 10) @ [digit_char (n mod 10)])"

declare itoa_nat.simps [simp del]

definition Itoa :: "int \<Rightarrow> bytes" where
  "Itoa i = (if i < 0 then CHR ''-'' # itoa_nat (nat (- i)) else itoa_nat (nat i))"

definition digit_val :: "char \<Rightarrow> nat option" where
  "digit_val c = (if 48 \<le> byte_val c \<and> byte_val c \<le> 57 then Some (byte_val c - 48) else None)"

fun dec_val :: "nat \<Rightarrow> bytes \<Rightarrow> nat option" where
  "dec_val a [] = Some a"
| "dec_val a (c # s) = (case digit_val c of None \<Rightarrow> None | Some d \<Rightarrow> dec_val (10 * a + d) s)"

definition digits_val :: "bytes \<Rightarrow> nat option" where
  "digits_val s = (if s = [] then None else dec_val 0 s)"

text \<open>
  \<open>strconv.Atoi\<close>: an optional sign, at least one digit, nothing else, and a value in the range of
  a 64-bit \<open>int\<close>. The two error kinds (syntax, range) are one \<^const>\<open>None\<close>: no caller tells them
  apart.
\<close>

definition Atoi :: "bytes \<Rightarrow> int option" where
  "Atoi s =
     (case s of
        [] \<Rightarrow> None
      | c # t \<Rightarrow>
          (case digits_val (if c = CHR ''-'' \<or> c = CHR ''+'' then t else s) of
             None \<Rightarrow> None
           | Some n \<Rightarrow>
               if c = CHR ''-'' then (if n \<le> 2 ^ 63 then Some (- int n) else None)
               else (if n < 2 ^ 63 then Some (int n) else None)))"

section \<open>Lemmas: trimming and joining\<close>

lemma HasPrefix_append [simp]: "HasPrefix (p @ s) p"
  by (simp add: HasPrefix_def)

lemma HasPrefix_iff: "HasPrefix s p \<longleftrightarrow> (\<exists>t. s = p @ t)"
  unfolding HasPrefix_def by (metis append_eq_conv_conj append_take_drop_id)

lemma TrimPrefix_append [simp]: "TrimPrefix (p @ s) p = s"
  by (simp add: TrimPrefix_def)

lemma TrimRight_snoc_cut: "c \<in> set cs \<Longrightarrow> TrimRight (s @ [c]) cs = TrimRight s cs"
  by (simp add: TrimRight_def)

lemma TrimRight_snoc_keep: "c \<notin> set cs \<Longrightarrow> TrimRight (s @ [c]) cs = s @ [c]"
  by (simp add: TrimRight_def)

lemma TrimRight_Nil [simp]: "TrimRight [] cs = []"
  by (simp add: TrimRight_def)

lemma TrimRight_id: "s = [] \<or> last s \<notin> set cs \<Longrightarrow> TrimRight s cs = s"
  by (cases s rule: rev_cases) (auto simp: TrimRight_snoc_keep)

lemma TrimRight_last: "TrimRight s cs \<noteq> [] \<Longrightarrow> last (TrimRight s cs) \<notin> set cs"
  by (induction s rule: rev_induct) (auto simp: TrimRight_def)

lemma TrimRight_prefix: "\<exists>t. s = TrimRight s cs @ t \<and> set t \<subseteq> set cs"
proof (intro exI conjI)
  let ?P = "\<lambda>c. c \<in> set cs"
  have "rev (takeWhile ?P (rev s) @ dropWhile ?P (rev s)) = s" by simp
  then show "s = TrimRight s cs @ rev (takeWhile ?P (rev s))"
    by (simp only: rev_append TrimRight_def)
  show "set (rev (takeWhile ?P (rev s))) \<subseteq> set cs"
    by (auto dest: set_takeWhileD)
qed

lemma set_TrimRight: "set (TrimRight s cs) \<subseteq> set s"
  using TrimRight_prefix [of s cs] by (metis Un_iff set_append subsetI)

lemma set_Join: "set (Join ss sep) \<subseteq> \<Union> (set ` set ss) \<union> set sep"
  by (induction ss sep rule: Join.induct) auto

section \<open>Lemmas: strings that stay on one line\<close>

text \<open>
  A line of the wire protocol ends at the first line feed, and the reader then drops trailing
  carriage returns. A string comes back unchanged from a line exactly when it has no line feed and
  does not end in a carriage return.
\<close>

definition one_line :: "bytes \<Rightarrow> bool" where
  "one_line s \<longleftrightarrow> LF \<notin> set s \<and> (s = [] \<or> last s \<noteq> CR)"

lemma one_line_Nil [line_clean]: "one_line []"
  by (simp add: one_line_def)

lemma one_line_append [line_clean]:
  "LF \<notin> set s \<Longrightarrow> one_line t \<Longrightarrow> t \<noteq> [] \<Longrightarrow> one_line (s @ t)"
  by (simp add: one_line_def)

lemma one_line_Cons [line_clean]: "c \<noteq> LF \<Longrightarrow> c \<noteq> CR \<Longrightarrow> one_line s \<Longrightarrow> one_line (c # s)"
  by (auto simp: one_line_def)

lemma TrimRight_one_line: "one_line s \<Longrightarrow> TrimRight (s @ CRLF) CRLF = s"
proof -
  assume "one_line s"
  then have "s = [] \<or> last s \<notin> set CRLF"
    by (auto simp: one_line_def dest: last_in_set)
  then have "TrimRight s CRLF = s" by (rule TrimRight_id)
  moreover have "TrimRight (s @ CRLF) CRLF = TrimRight s CRLF"
    using TrimRight_snoc_cut [of LF CRLF "s @ [CR]"] TrimRight_snoc_cut [of CR CRLF s] by simp
  ultimately show ?thesis by simp
qed

lemma one_line_TrimRight: "LF \<notin> set s \<Longrightarrow> one_line (TrimRight (s @ [LF]) CRLF)"
  using TrimRight_last [of s CRLF] set_TrimRight [of s CRLF]
  by (auto simp: one_line_def TrimRight_snoc_cut)

section \<open>Lemmas: letter case\<close>

lemma byte_val_LF: "byte_val c = 10 \<longleftrightarrow> c = LF"
  using of_char_eq_iff [of c LF, where 'a = nat] by simp

lemma ascii_lower_LF: "ascii_lower c = LF \<longleftrightarrow> c = LF"
  unfolding byte_val_LF [symmetric] by (auto simp: ascii_lower_def)

lemma strings_ToLower_LF:
  assumes "tables_keep_lines U" and "LF \<notin> set s"
  shows "LF \<notin> set (strings_ToLower U s)"
proof (cases "ascii s")
  case True
  with assms(2) show ?thesis by (auto simp: strings_ToLower_def ascii_lower_LF dest: sym)
next
  case False
  have "LF \<notin> set (strings_Map (unicode_ToLower U) s)"
    using assms(2)
  proof (rule strings_Map_avoids)
    show "byte_val LF < 0x80" by simp
    fix r
    assume "unicode_ToLower U r = byte_val LF"
    then show "r = byte_val LF"
      using assms(1) by (fastforce simp: unicode_ToLower_def tables_keep_lines_def split: if_splits)
  qed
  with False show ?thesis by (simp add: strings_ToLower_def)
qed

lemma tables_keep_lines_ascii_tables: "tables_keep_lines ascii_tables"
  by (simp add: tables_keep_lines_def ascii_tables_def)

section \<open>Lemmas: decimal numbers\<close>

lemma digit_val_digit_char: "d < 10 \<Longrightarrow> digit_val (digit_char d) = Some d"
  by (simp add: digit_val_def digit_char_def)

lemma itoa_nat_nonempty: "itoa_nat n \<noteq> []"
  by (subst itoa_nat.simps) simp

lemma itoa_nat_digits: "c \<in> set (itoa_nat n) \<Longrightarrow> \<exists>d < 10. c = digit_char d"
proof (induction n rule: itoa_nat.induct)
  case (1 n)
  show ?case
  proof (cases "n < 10")
    case True
    with "1.prems" show ?thesis by (subst (asm) itoa_nat.simps) auto
  next
    case False
    with "1.prems" have "c \<in> set (itoa_nat (n div 10)) \<or> c = digit_char (n mod 10)"
      by (subst (asm) itoa_nat.simps) auto
    with False "1.IH" show ?thesis
      by (metis mod_less_divisor zero_less_numeral)
  qed
qed

lemma dec_val_append: "dec_val a (s @ t) = (case dec_val a s of None \<Rightarrow> None | Some b \<Rightarrow> dec_val b t)"
  by (induction s arbitrary: a) (auto split: option.splits)

lemma dec_val_itoa_nat: "dec_val 0 (itoa_nat n) = Some n"
proof (induction n rule: itoa_nat.induct)
  case (1 n)
  show ?case
  proof (cases "n < 10")
    case True
    then show ?thesis by (subst itoa_nat.simps) (simp add: digit_val_digit_char)
  next
    case False
    with "1.IH" show ?thesis
      by (subst itoa_nat.simps) (simp add: dec_val_append digit_val_digit_char)
  qed
qed

lemma digit_char_neq:
  assumes "d < 10"
  shows "digit_char d \<noteq> CHR ''-''" "digit_char d \<noteq> CHR ''+''" "digit_char d \<noteq> LF" "digit_char d \<noteq> CR"
  using digit_val_digit_char [OF assms] by (auto simp: digit_val_def)

lemma Atoi_itoa_nat: "n < 2 ^ 63 \<Longrightarrow> Atoi (itoa_nat n) = Some (int n)"
proof -
  assume n: "n < 2 ^ 63"
  obtain c t where ct: "itoa_nat n = c # t" using itoa_nat_nonempty by (metis neq_Nil_conv)
  then obtain d where "d < 10" and "c = digit_char d" using itoa_nat_digits [of c n] by auto
  then have "c \<noteq> CHR ''-''" and "c \<noteq> CHR ''+''" by (simp_all add: digit_char_neq)
  with ct n dec_val_itoa_nat [of n] show ?thesis
    by (simp add: Atoi_def digits_val_def)
qed

lemma one_line_itoa_nat [line_clean]: "one_line (itoa_nat n)"
proof -
  have "\<forall>c \<in> set (itoa_nat n). c \<noteq> LF \<and> c \<noteq> CR"
    using itoa_nat_digits digit_char_neq by metis
  then show ?thesis by (auto simp: one_line_def dest: last_in_set)
qed

lemma Atoi_range: "Atoi s = Some n \<Longrightarrow> - (2 ^ 63) \<le> n \<and> n < 2 ^ 63"
  by (auto simp: Atoi_def split: list.splits option.splits if_splits)

section \<open>Lemmas: white space and substrings\<close>

definition space_bytes :: "char set" where
  "space_bytes = \<Union> (set ` set space_seqs)"

lemma fields_from_Nil: "fields_from cur s = [] \<Longrightarrow> cur = [] \<and> set s \<subseteq> space_bytes"
proof (induction cur s rule: fields_from.induct)
  case (1 cur s)
  show ?case
  proof (cases "s = []")
    case True
    with "1.prems" show ?thesis by (subst (asm) fields_from.simps) (simp split: if_splits)
  next
    case False
    show ?thesis
    proof (cases "find (\<lambda>p. HasPrefix s p) space_seqs")
      case None
      with False "1.prems" have "fields_from (cur @ [hd s]) (tl s) = []"
        by (subst (asm) fields_from.simps) simp
      with "1.IH"(1) [OF False None] show ?thesis by simp
    next
      case (Some p)
      with False "1.prems" have "cur = []" and "fields_from [] (drop (length p) s) = []"
        by (subst (asm) fields_from.simps, simp split: if_splits)+
      with "1.IH"(2) [OF False Some] have rest: "set (drop (length p) s) \<subseteq> space_bytes" by simp
      from Some have "p \<in> set space_seqs" and "HasPrefix s p" by (auto dest: find_SomeD)
      then have "s = p @ drop (length p) s" and "set p \<subseteq> space_bytes"
        by (auto simp: HasPrefix_iff space_bytes_def)
      with rest \<open>cur = []\<close> show ?thesis by (metis Un_subset_iff set_append)
    qed
  qed
qed

lemma Contains_set: "Contains s sub \<Longrightarrow> set sub \<subseteq> set s"
proof (induction s)
  case (Cons c s)
  then show ?case by (auto simp: HasPrefix_iff dest!: arg_cong [of _ _ set])
qed simp

lemma Fields_Contains: "Contains s sub \<Longrightarrow> \<not> set sub \<subseteq> space_bytes \<Longrightarrow> Fields s \<noteq> []"
  using fields_from_Nil [of "[]" s] Contains_set [of s sub] by (auto simp: Fields_def)

lemma fields_from_trimmed: "fields_from [] s = [] \<Longrightarrow> trim_space_left s = []"
proof (induction s rule: trim_space_left.induct)
  case (1 s)
  show ?case
  proof (cases "find (\<lambda>p. HasPrefix s p) space_seqs")
    case None
    have "s = []"
    proof (rule ccontr)
      assume "s \<noteq> []"
      with None "1.prems" have "fields_from [hd s] (tl s) = []"
        by (subst (asm) fields_from.simps) simp
      then show False using fields_from_Nil by blast
    qed
    then show ?thesis using None by (simp add: trim_space_left.simps [of "[]"])
  next
    case (Some p)
    then have "s \<noteq> []" by (auto dest!: find_SomeD space_seqs_nonempty simp: HasPrefix_iff)
    with Some "1.prems" have "fields_from [] (drop (length p) s) = []"
      by (subst (asm) fields_from.simps) simp
    with "1.IH" Some show ?thesis by (simp add: trim_space_left.simps [of s])
  qed
qed

lemma trim_space_left_start: "find (\<lambda>p. HasPrefix (trim_space_left s) p) space_seqs = None"
proof (induction s rule: trim_space_left.induct)
  case (1 s)
  then show ?case
    by (cases "find (\<lambda>p. HasPrefix s p) space_seqs") (simp_all add: trim_space_left.simps [of s])
qed

lemma trim_space_right_prefix: "\<exists>t. s = trim_space_right s @ t"
proof (induction s rule: trim_space_right.induct)
  case (1 s)
  show ?case
  proof (cases "find (\<lambda>p. HasSuffix s p) space_seqs")
    case None
    then show ?thesis by (simp add: trim_space_right.simps [of s])
  next
    case (Some p)
    with "1.IH" obtain t where "take (length s - length p) s = trim_space_right s @ t"
      by (auto simp: trim_space_right.simps [of s])
    then show ?thesis by (metis append.assoc append_take_drop_id)
  qed
qed

lemma Fields_TrimSpace:
  assumes "TrimSpace s \<noteq> []"
  shows "Fields (TrimSpace s) \<noteq> []"
proof
  obtain t where t: "trim_space_left s = TrimSpace s @ t"
    using trim_space_right_prefix [of "trim_space_left s"] by (auto simp: TrimSpace_def)
  have "\<not> HasPrefix (TrimSpace s) p" if "p \<in> set space_seqs" for p
    using trim_space_left_start [of s] that unfolding t find_None_iff by (auto simp: HasPrefix_iff)
  then have "find (\<lambda>p. HasPrefix (TrimSpace s) p) space_seqs = None" by (auto simp: find_None_iff)
  then have "trim_space_left (TrimSpace s) = TrimSpace s" by (simp add: trim_space_left.simps [of "TrimSpace s"])
  moreover assume "Fields (TrimSpace s) = []"
  then have "trim_space_left (TrimSpace s) = []" unfolding Fields_def by (rule fields_from_trimmed)
  ultimately show False using assms by simp
qed

text \<open>Strings of printable ASCII characters other than the space are not changed or split.\<close>

definition graphic :: "bytes \<Rightarrow> bool" where
  "graphic s \<longleftrightarrow> list_all (\<lambda>c. 32 < byte_val c \<and> byte_val c < 128) s"

lemma space_bytes_small:
  assumes "c \<in> space_bytes" and "byte_val c < 128"
  shows "byte_val c \<le> 32"
proof -
  obtain r where r: "r \<in> set space_runes" and "c \<in> set (encode_rune r)"
    using assms(1) by (auto simp: space_bytes_def space_seqs_def)
  then have "byte_val c = r" using assms(2) by (intro encode_rune_small) simp_all
  moreover have "r < 128 \<Longrightarrow> r \<le> 32" using r by (auto simp: space_runes_def)
  ultimately show ?thesis using assms(2) by simp
qed

lemma graphic_no_space: "graphic s \<Longrightarrow> c \<in> set s \<Longrightarrow> c \<notin> space_bytes"
  using space_bytes_small by (fastforce simp: graphic_def list_all_iff)

lemma graphic_find:
  assumes "graphic s"
  shows "find (\<lambda>p. HasPrefix s p) space_seqs = None" and "find (\<lambda>p. HasSuffix s p) space_seqs = None"
proof -
  have "\<not> set p \<subseteq> set s" if p: "p \<in> set space_seqs" for p
  proof
    assume "set p \<subseteq> set s"
    moreover have "hd p \<in> set p" using space_seqs_nonempty [OF p] by simp
    ultimately show False using graphic_no_space [OF assms] p by (auto simp: space_bytes_def)
  qed
  moreover have "HasPrefix s p \<Longrightarrow> set p \<subseteq> set s" "HasSuffix s p \<Longrightarrow> set p \<subseteq> set s" for p
    by (auto simp: HasPrefix_iff HasSuffix_def) (metis in_set_dropD)
  ultimately show "find (\<lambda>p. HasPrefix s p) space_seqs = None" "find (\<lambda>p. HasSuffix s p) space_seqs = None"
    unfolding find_None_iff by blast+
qed

lemma TrimSpace_id:
  "find (\<lambda>p. HasPrefix s p) space_seqs = None \<Longrightarrow> find (\<lambda>p. HasSuffix s p) space_seqs = None \<Longrightarrow> TrimSpace s = s"
  by (simp add: TrimSpace_def trim_space_left.simps [of s] trim_space_right.simps [of s])

lemma TrimSpace_ends:
  assumes "s \<noteq> []" and "hd s \<notin> space_bytes" and "last s \<notin> space_bytes"
  shows "TrimSpace s = s"
proof (rule TrimSpace_id)
  have "\<not> HasPrefix s p \<and> \<not> HasSuffix s p" if p: "p \<in> set space_seqs" for p
  proof -
    have "p \<noteq> []" using space_seqs_nonempty [OF p] by simp
    then have ends: "hd p \<in> space_bytes" "last p \<in> space_bytes" using p unfolding space_bytes_def by (auto intro!: bexI [of _ p])
    have "hd p = hd s" if "HasPrefix s p" using that \<open>p \<noteq> []\<close> by (auto simp: HasPrefix_iff)
    moreover have "last p = last s" if "HasSuffix s p"
    proof -
      obtain n where "p = drop n s" using \<open>HasSuffix s p\<close> unfolding HasSuffix_def by metis
      with \<open>p \<noteq> []\<close> show ?thesis by simp
    qed
    ultimately show ?thesis using ends assms(2,3) by auto
  qed
  then show "find (\<lambda>p. HasPrefix s p) space_seqs = None" "find (\<lambda>p. HasSuffix s p) space_seqs = None"
    unfolding find_None_iff by blast+
qed

lemma TrimSpace_graphic: "graphic s \<Longrightarrow> TrimSpace s = s"
  by (intro TrimSpace_id graphic_find)

lemma fields_from_graphic: "graphic s \<Longrightarrow> cur @ s \<noteq> [] \<Longrightarrow> fields_from cur s = [cur @ s]"
proof (induction s arbitrary: cur)
  case Nil
  then show ?case by (simp add: fields_from.simps)
next
  case (Cons c s)
  then have "fields_from (cur @ [c]) s = [(cur @ [c]) @ s]" by (simp add: graphic_def)
  then show ?case using graphic_find(1) [OF Cons.prems(1)] by (simp add: fields_from.simps [of cur])
qed

lemma Fields_graphic: "graphic s \<Longrightarrow> s \<noteq> [] \<Longrightarrow> Fields s = [s]"
  by (simp add: Fields_def fields_from_graphic)

text \<open>A string of spaces only is trimmed to nothing.\<close>

definition blank :: "bytes \<Rightarrow> bool" where
  "blank s \<longleftrightarrow> set s \<subseteq> {CHR '' ''}"

lemma encode_rune_32: "encode_rune 32 = '' ''"
  by (simp add: encode_rune_def encode_rune_vals_def char_of_def bit_Suc_0_iff)

lemma space_in_seqs: "'' '' \<in> set space_seqs"
proof -
  have "32 \<in> set space_runes" by (simp add: space_runes_def)
  then show ?thesis using encode_rune_32 unfolding space_seqs_def set_map by (metis image_eqI)
qed

lemma trim_space_left_blank: "blank s \<Longrightarrow> trim_space_left s = []"
proof (induction s rule: trim_space_left.induct)
  case (1 s)
  show ?case
  proof (cases s)
    case Nil
    then show ?thesis using graphic_find(1) [of "[]"] by (simp add: trim_space_left.simps [of "[]"] graphic_def)
  next
    case (Cons c t)
    have "HasPrefix s '' ''" using Cons "1.prems" by (simp add: HasPrefix_def blank_def)
    then obtain p where p: "find (\<lambda>p. HasPrefix s p) space_seqs = Some p"
      using space_in_seqs by (cases "find (\<lambda>p. HasPrefix s p) space_seqs") (auto simp: find_None_iff)
    moreover have "blank (drop (length p) s)" using "1.prems" by (auto simp: blank_def dest: in_set_dropD)
    ultimately show ?thesis using "1.IH" by (simp add: trim_space_left.simps [of s])
  qed
qed

lemma TrimSpace_blank: "blank s \<Longrightarrow> TrimSpace s = []"
  using TrimSpace_graphic [of "[]"] trim_space_left_blank [of "[]"]
  by (simp add: TrimSpace_def trim_space_left_blank blank_def graphic_def)

lemma TrimRight_blank_iff: "TrimRight s '' '' = [] \<longleftrightarrow> blank s"
  by (auto simp: TrimRight_def blank_def)

lemma space_seqs_space: "p \<in> set space_seqs \<Longrightarrow> CHR '' '' \<in> set p \<Longrightarrow> p = '' ''"
proof -
  assume "p \<in> set space_seqs" and c: "CHR '' '' \<in> set p"
  then obtain r where p: "p = encode_rune r" by (auto simp: space_seqs_def)
  with c have "r = 32" using encode_rune_small [of "CHR '' ''" r] by simp
  then show "p = '' ''" by (simp add: p encode_rune_32)
qed

lemma trim_space_right_space: "trim_space_right (s @ '' '') = trim_space_right s"
proof -
  have "HasSuffix (s @ '' '') '' ''" by (simp add: HasSuffix_def)
  then obtain p where p: "find (\<lambda>p. HasSuffix (s @ '' '') p) space_seqs = Some p"
    using space_in_seqs by (cases "find (\<lambda>p. HasSuffix (s @ '' '') p) space_seqs") (auto simp: find_None_iff)
  then have "p \<in> set space_seqs" and "HasSuffix (s @ '' '') p" by (auto dest: find_SomeD)
  moreover from this have "CHR '' '' \<in> set p"
    using space_seqs_nonempty [of p] by (cases p rule: rev_cases) (auto simp: HasSuffix_def)
  ultimately have "p = '' ''" using space_seqs_space by blast
  with p show ?thesis by (simp add: trim_space_right.simps [of "s @ '' ''"])
qed

lemma trim_space_left_graphic:
  assumes "graphic s" and "s \<noteq> []"
  shows "trim_space_left (s @ t) = s @ t"
proof -
  have hd: "hd s \<notin> space_bytes" using assms graphic_no_space by simp
  have "\<not> HasPrefix (s @ t) p" if p: "p \<in> set space_seqs" for p
  proof
    assume "HasPrefix (s @ t) p"
    then have "hd p = hd s" using space_seqs_nonempty [OF p] assms(2) by (cases p; cases s) (auto simp: HasPrefix_def)
    moreover have "hd p \<in> space_bytes"
      using p space_seqs_nonempty [OF p] hd_in_set [of p] unfolding space_bytes_def by blast
    ultimately show False using hd by simp
  qed
  then show ?thesis
    by (subst trim_space_left.simps) (auto simp: find_None_iff split: option.splits dest: find_SomeD)
qed

lemma TrimSpace_padded:
  assumes "graphic s" and "s \<noteq> []" and "blank t"
  shows "TrimSpace (s @ t) = s"
proof -
  have "trim_space_right (s @ t) = s"
    using assms(3)
  proof (induction t rule: rev_induct)
    case Nil
    then show ?case using graphic_find(2) [OF assms(1)] by (simp add: trim_space_right.simps [of s])
  next
    case (snoc c t)
    then show ?case using trim_space_right_space [of "s @ t"] by (simp add: blank_def)
  qed
  then show ?thesis using trim_space_left_graphic [OF assms(1,2)] by (simp add: TrimSpace_def)
qed

lemma graphic_last: "graphic s \<Longrightarrow> s \<noteq> [] \<Longrightarrow> last s \<noteq> CHR '' ''"
  by (cases s rule: rev_cases) (auto simp: graphic_def)

lemma TrimRight_padded:
  assumes "s = [] \<or> last s \<noteq> CHR '' ''" and "blank t"
  shows "TrimRight (s @ t) '' '' = s"
  using assms(2)
proof (induction t rule: rev_induct)
  case Nil
  then show ?case using TrimRight_id [of s "'' ''"] assms(1) by auto
next
  case (snoc c t)
  then show ?case using TrimRight_snoc_cut [of c "'' ''" "s @ t"] by (simp add: blank_def)
qed

end
