(* ===== verification/GoIO.thy ===== *)
theory GoIO
  imports GoStrings
begin

text \<open>
  Buffered reading as the decoder uses it. A \<open>bufio.Reader\<close> over a byte slice or a connection is
  described by the bytes its source will still deliver and the error the source reports after them
  (\<open>EOF\<close> for a byte slice or a peer that closed cleanly). How the bytes are cut into reads cannot
  be observed through \<open>ReadString\<close> and \<open>io.ReadFull\<close>, so it is not part of the state.

  Allocation: \<open>make([]T, n)\<close> panics when \<open>n\<close> is negative or the slice would exceed the largest
  object of the runtime (\<open>2\<^sup>4\<^sup>8\<close> bytes on 64-bit Linux). Running out of memory below that bound
  is not modelled.
\<close>

datatype io_error = EOF | UnexpectedEOF | ReadError

record reader =
  pending :: bytes
  rd_err :: io_error

definition bytes_reader :: "bytes \<Rightarrow> reader" where
  "bytes_reader b = \<lparr>pending = b, rd_err = EOF\<rparr>"

definition ReadString :: "char \<Rightarrow> reader \<Rightarrow> bytes \<times> io_error option \<times> reader" where
  "ReadString delim r =
     (if delim \<in> set (pending r)
      then (takeWhile (\<lambda>c. c \<noteq> delim) (pending r) @ [delim], None,
            r\<lparr>pending := tl (dropWhile (\<lambda>c. c \<noteq> delim) (pending r))\<rparr>)
      else (pending r, Some (rd_err r), r\<lparr>pending := []\<rparr>))"

definition ReadFull :: "nat \<Rightarrow> reader \<Rightarrow> io_error + (bytes \<times> reader)" where
  "ReadFull n r =
     (if n \<le> length (pending r)
      then Inr (take n (pending r), r\<lparr>pending := drop n (pending r)\<rparr>)
      else if pending r \<noteq> [] \<and> rd_err r = EOF then Inl UnexpectedEOF
      else Inl (rd_err r))"

definition maxAlloc :: int where
  "maxAlloc = 2 ^ 48"

definition make_ok :: "int \<Rightarrow> int \<Rightarrow> bool" where
  "make_ok elem_size n \<longleftrightarrow> 0 \<le> n \<and> elem_size * n \<le> maxAlloc"

section \<open>More input behind what is read\<close>

definition feed :: "reader \<Rightarrow> bytes \<Rightarrow> reader" where
  "feed r t = r\<lparr>pending := pending r @ t\<rparr>"

lemma feed_simps [simp]:
  "pending (feed r t) = pending r @ t"
  "rd_err (feed r t) = rd_err r"
  "feed r [] = r"
  "feed (feed r s) t = feed r (s @ t)"
  "feed (r\<lparr>pending := p\<rparr>) t = r\<lparr>pending := p @ t\<rparr>"
  by (simp_all add: feed_def)

lemma reader_eqI: "pending r = pending r' \<Longrightarrow> rd_err r = rd_err r' \<Longrightarrow> r = (r' :: reader)"
  by (cases r, cases r') simp

lemma bytes_reader_simps [simp]:
  "pending (bytes_reader b) = b"
  "rd_err (bytes_reader b) = EOF"
  "feed (bytes_reader b) t = bytes_reader (b @ t)"
  "(bytes_reader b)\<lparr>pending := p\<rparr> = bytes_reader p"
  by (simp_all add: bytes_reader_def feed_def)

lemma ReadString_feed:
  "ReadString c r = (s, None, r') \<Longrightarrow> ReadString c (feed r t) = (s, None, feed r' t)"
  by (auto simp: ReadString_def elim!: split_at_delim split: if_splits)

lemma ReadString_length:
  "ReadString c r = (s, None, r') \<Longrightarrow> length (pending r') < length (pending r)"
  by (auto simp: ReadString_def elim!: split_at_delim split: if_splits)

lemma ReadString_line:
  "c \<notin> set s \<Longrightarrow> pending r = s @ c # t \<Longrightarrow> ReadString c r = (s @ [c], None, r\<lparr>pending := t\<rparr>)"
  by (simp add: ReadString_def)

lemma ReadString_split:
  "ReadString c r = (s, None, r') \<Longrightarrow> pending r = s @ pending r' \<and> rd_err r' = rd_err r"
  by (auto simp: ReadString_def elim!: split_at_delim split: if_splits)

lemma ReadFull_feed: "ReadFull n r = Inr (s, r') \<Longrightarrow> ReadFull n (feed r t) = Inr (s, feed r' t)"
  by (auto simp: ReadFull_def split: if_splits)

lemma ReadFull_length: "ReadFull n r = Inr (s, r') \<Longrightarrow> length (pending r') + n = length (pending r)"
  by (auto simp: ReadFull_def split: if_splits)

lemma ReadFull_split:
  "ReadFull n r = Inr (s, r') \<Longrightarrow> pending r = s @ pending r' \<and> length s = n \<and> rd_err r' = rd_err r"
  by (auto simp: ReadFull_def split: if_splits)

lemma ReadFull_append:
  "length s = n \<Longrightarrow> pending r = s @ t \<Longrightarrow> ReadFull n r = Inr (s, r\<lparr>pending := t\<rparr>)"
  by (simp add: ReadFull_def)

end
