(* ===== verification/Resp.thy ===== *)
theory Resp
  imports GoIO
begin

text \<open>
  \<open>internal/decoder/resp.go\<close>: the RESP2 value type, its parser, the reply encoders, and the
  pairing of captured commands with captured replies.
\<close>

section \<open>Values and errors\<close>

datatype RESPValue = RESPValue (Kind: char) (Str: bytes) (Arr: "RESPValue list") (Null: bool)

datatype resp_error =
    IOErr io_error
  | EmptyRESPLine
  | BadBulkLength bytes
  | BadArrayLength bytes
  | UnrecognizedType char
  | ExpectedArray char

text \<open>\<open>RESPValue.String\<close>: rendering in the style of redis-cli.\<close>

fun resp_String :: "RESPValue \<Rightarrow> bytes" where
  "resp_String (RESPValue k s arr null) =
     (if k = CHR ''-'' then ''(error) '' @ s
      else if k = CHR '':'' then ''(integer) '' @ s
      else if k = CHR ''$'' \<or> k = CHR ''+'' then (if null then ''(nil)'' else s)
      else if k = CHR ''*'' then
        (if null then ''(nil)'' else ''['' @ Join (map resp_String arr) '', '' @ '']'')
      else s)"

section \<open>Parsing\<close>

definition readLine :: "reader \<Rightarrow> io_error + (bytes \<times> reader)" where
  "readLine r =
     (case ReadString LF r of
        (line, Some e, r') \<Rightarrow> Inl e
      | (line, None, r') \<Rightarrow> Inr (TrimRight line CRLF, r'))"

lemma readLine_length: "readLine r = Inr (line, r') \<Longrightarrow> length (pending r') < length (pending r)"
  by (auto simp: readLine_def ReadString_length split: prod.splits option.splits)

text \<open>
  \<open>parseRESPValue\<close> and the loop of its array case (\<open>parseElems n\<close>: \<open>n\<close> elements still to
  read). A RESPValue occupies 56 bytes, which bounds the array length \<open>make\<close> accepts.
\<close>

definition resp_value_size :: int where
  "resp_value_size = 56"

function parseRESPValue :: "reader \<Rightarrow> (resp_error + (RESPValue \<times> reader)) exec"
  and parseElems :: "nat \<Rightarrow> reader \<Rightarrow> (resp_error + (RESPValue list \<times> reader)) exec" where
  "parseRESPValue r =
     (case readLine r of
        Inl e \<Rightarrow> Ret (Inl (IOErr e))
      | Inr (line, r1) \<Rightarrow>
         (case line of
            [] \<Rightarrow> Ret (Inl EmptyRESPLine)
          | kind # rest \<Rightarrow>
             if kind = CHR ''+'' \<or> kind = CHR ''-'' \<or> kind = CHR '':'' then
               Ret (Inr (RESPValue kind rest [] False, r1))
             else if kind = CHR ''$'' then
               (case Atoi rest of
                  None \<Rightarrow> Ret (Inl (BadBulkLength rest))
                | Some n \<Rightarrow>
                   if n < 0 then Ret (Inr (RESPValue (CHR ''$'') [] [] True, r1))
                   else if \<not> make_ok 1 (int64 (n + 2)) then Panic MakeSliceLen
                   else (case ReadFull (nat (n + 2)) r1 of
                           Inl e \<Rightarrow> Ret (Inl (IOErr e))
                         | Inr (buf, r2) \<Rightarrow>
                             Ret (Inr (RESPValue (CHR ''$'') (take (nat n) buf) [] False, r2))))
             else if kind = CHR ''*'' then
               (case Atoi rest of
                  None \<Rightarrow> Ret (Inl (BadArrayLength rest))
                | Some n \<Rightarrow>
                   if n < 0 then Ret (Inr (RESPValue (CHR ''*'') [] [] True, r1))
                   else if \<not> make_ok resp_value_size n then Panic MakeSliceLen
                   else (case parseElems (nat n) r1 of
                           Panic p \<Rightarrow> Panic p
                         | Ret (Inl e) \<Rightarrow> Ret (Inl e)
                         | Ret (Inr (arr, r2)) \<Rightarrow>
                             Ret (Inr (RESPValue (CHR ''*'') [] arr False, r2))))
             else Ret (Inl (UnrecognizedType kind))))"
| "parseElems 0 r = Ret (Inr ([], r))"
| "parseElems (Suc n) r =
     (case parseRESPValue r of
        Panic p \<Rightarrow> Panic p
      | Ret (Inl e) \<Rightarrow> Ret (Inl e)
      | Ret (Inr (elem, r1)) \<Rightarrow>
         (case parseElems n r1 of
            Panic p \<Rightarrow> Panic p
          | Ret (Inl e) \<Rightarrow> Ret (Inl e)
          | Ret (Inr (elems, r2)) \<Rightarrow> Ret (Inr (elem # elems, r2))))"
  by pat_completeness auto

text \<open>Every parsed value uses up at least its first line; this is what ends the recursion.\<close>

lemma parse_dom_length:
  "parseRESPValue_parseElems_dom (Inl r) \<Longrightarrow>
     parseRESPValue r = Ret (Inr (v, r')) \<Longrightarrow> length (pending r') < length (pending r)"
  "parseRESPValue_parseElems_dom (Inr (n, r)) \<Longrightarrow>
     parseElems n r = Ret (Inr (vs, r')) \<Longrightarrow> length (pending r') \<le> length (pending r)"
proof (induction r and n r arbitrary: v r' and vs r' rule: parseRESPValue_parseElems.pinduct)
  case (1 r)
  from "1.prems" "1.hyps" obtain line r1 where rl: "readLine r = Inr (line, r1)"
    by (auto simp: parseRESPValue.psimps split: sum.splits)
  have "length (pending r') \<le> length (pending r1)"
    using "1.prems" "1.hyps" "1.IH" [OF rl refl]
    by (fastforce simp: parseRESPValue.psimps rl dest!: ReadFull_length
        split: sum.splits list.splits if_splits option.splits exec.splits)
  with readLine_length [OF rl] show ?case by simp
next
  case (2 r)
  then show ?case by (simp add: parseElems.psimps)
next
  case (3 n r)
  from "3.prems" "3.hyps" obtain e r1 es where p: "parseRESPValue r = Ret (Inr (e, r1))"
    and q: "parseElems n r1 = Ret (Inr (es, r'))"
    by (auto simp: parseElems.psimps split: sum.splits exec.splits)
  from "3.IH"(1) [OF p] "3.IH"(2) [OF p refl refl q] show ?case by simp
qed

lemma parse_total: "All parseRESPValue_parseElems_dom"
  by (relation "measures [\<lambda>x. length (pending (case x of Inl r \<Rightarrow> r | Inr (_, r) \<Rightarrow> r)),
        \<lambda>x. case x of Inl _ \<Rightarrow> 0 | Inr _ \<Rightarrow> 1]")
    (auto dest: readLine_length parse_dom_length)

termination parseRESPValue
  by (rule parse_total)

lemma parse_length:
  "parseRESPValue r = Ret (Inr (v, r')) \<Longrightarrow> length (pending r') < length (pending r)"
  "parseElems n r = Ret (Inr (vs, r')) \<Longrightarrow> length (pending r') \<le> length (pending r)"
  by (simp_all add: parse_dom_length parse_total [THEN spec])

declare parseRESPValue.simps [simp del]

text \<open>\<open>ReadCommand\<close>: one client command, its arguments as strings.\<close>

definition ReadCommand :: "reader \<Rightarrow> (resp_error + (bytes list \<times> reader)) exec" where
  "ReadCommand r =
     (case parseRESPValue r of
        Panic p \<Rightarrow> Panic p
      | Ret (Inl e) \<Rightarrow> Ret (Inl e)
      | Ret (Inr (v, r')) \<Rightarrow>
          if Kind v \<noteq> CHR ''*'' then Ret (Inl (ExpectedArray (Kind v)))
          else Ret (Inr (map Str (Arr v), r')))"

text \<open>The loop of \<open>ParseRESPStream\<close>: values up to the first error, which ends the loop.\<close>

function parseLoop :: "reader \<Rightarrow> RESPValue list exec" where
  "parseLoop r =
     (case parseRESPValue r of
        Panic p \<Rightarrow> Panic p
      | Ret (Inl e) \<Rightarrow> Ret []
      | Ret (Inr (v, r')) \<Rightarrow>
          (case parseLoop r' of Panic p \<Rightarrow> Panic p | Ret vs \<Rightarrow> Ret (v # vs)))"
  by pat_completeness auto

termination parseLoop
  by (relation "measure (\<lambda>r. length (pending r))") (auto dest: parse_length)

declare parseLoop.simps [simp del]

definition ParseRESPStream :: "bytes \<Rightarrow> (RESPValue list \<times> bool) exec" where
  "ParseRESPStream buf = map_exec_result (\<lambda>vs. (vs, vs \<noteq> [])) (parseLoop (bytes_reader buf))"

section \<open>Encoding replies\<close>

definition EncodeSimpleString :: "bytes \<Rightarrow> bytes" where
  "EncodeSimpleString s = ''+'' @ s @ CRLF"

definition EncodeError :: "bytes \<Rightarrow> bytes" where
  "EncodeError s = ''-'' @ s @ CRLF"

definition EncodeInteger :: "bytes \<Rightarrow> bytes" where
  "EncodeInteger n = '':'' @ n @ CRLF"

definition EncodeNullBulk :: bytes where
  "EncodeNullBulk = ''$-1'' @ CRLF"

definition EncodeBulkString :: "bytes \<Rightarrow> bytes" where
  "EncodeBulkString s = ''$'' @ Itoa (int (length s)) @ CRLF @ s @ CRLF"

definition EncodeReply :: "bytes \<Rightarrow> bytes" where
  "EncodeReply display =
     (if display = ''(nil)'' then EncodeNullBulk
      else if HasPrefix display ''(error) '' then EncodeError (TrimPrefix display ''(error) '')
      else if HasPrefix display ''(integer) '' then EncodeInteger (TrimPrefix display ''(integer) '')
      else EncodeSimpleString display)"

section \<open>Commands and their replies\<close>

definition adminCommands :: "bytes list" where
  "adminCommands = [''HELLO'', ''CLIENT'', ''AUTH'', ''SELECT'', ''PING'']"

definition IsAdminCommand :: "unicode_tables \<Rightarrow> bytes \<Rightarrow> bool" where
  "IsAdminCommand U name \<longleftrightarrow> strings_ToUpper U name \<in> set adminCommands"

record RedisCall =
  Command :: "bytes list"
  Reply :: bytes

text \<open>
  The second loop of \<open>TryRESP\<close>, at index \<open>i\<close> of the commands: administrative and empty commands
  are skipped but still count as a position of the reply stream.
\<close>

fun pairCalls :: "unicode_tables \<Rightarrow> RESPValue list \<Rightarrow> nat \<Rightarrow> bytes list list \<Rightarrow> RedisCall list" where
  "pairCalls U reps i [] = []"
| "pairCalls U reps i (cmd # cmds) =
     (if cmd = [] \<or> IsAdminCommand U (hd cmd) then pairCalls U reps (Suc i) cmds
      else \<lparr>Command = cmd,
            Reply = (if i < length reps then resp_String (reps ! i) else ''?'')\<rparr>
           # pairCalls U reps (Suc i) cmds)"

definition TryRESP :: "unicode_tables \<Rightarrow> bytes \<Rightarrow> bytes \<Rightarrow> (RedisCall list \<times> bool) exec" where
  "TryRESP U cmdBuf replyBuf =
     (case ParseRESPStream cmdBuf of
        Panic p \<Rightarrow> Panic p
      | Ret (cmdValues, parsedAny) \<Rightarrow>
          if \<not> parsedAny then Ret ([], False)
          else (case ParseRESPStream replyBuf of
                  Panic p \<Rightarrow> Panic p
                | Ret (replyValues, _) \<Rightarrow>
                    if \<exists>v \<in> set cmdValues. Kind v \<noteq> CHR ''*'' then Ret ([], False)
                    else (let calls = pairCalls U replyValues 0 (map (\<lambda>v. map Str (Arr v)) cmdValues)
                          in Ret (calls, calls \<noteq> []))))"

section \<open>Reading is independent of what follows\<close>

lemma readLine_feed: "readLine r = Inr (line, r') \<Longrightarrow> readLine (feed r t) = Inr (line, feed r' t)"
  by (auto simp: readLine_def ReadString_feed split: prod.splits option.splits)

lemma parse_feed:
  "parseRESPValue r = Ret (Inr (v, r')) \<Longrightarrow> parseRESPValue (feed r t) = Ret (Inr (v, feed r' t))"
  "parseElems n r = Ret (Inr (vs, r')) \<Longrightarrow> parseElems n (feed r t) = Ret (Inr (vs, feed r' t))"
proof (induction r and n r arbitrary: v r' and vs r' rule: parseRESPValue_parseElems.induct)
  case (1 r)
  then obtain line r1 where rl: "readLine r = Inr (line, r1)"
    by (auto simp: parseRESPValue.simps [of r] split: sum.splits)
  with "1.prems" "1.IH" [OF rl refl] show ?case
    by (auto simp: parseRESPValue.simps [of r] parseRESPValue.simps [of "feed r t"] readLine_feed
        ReadFull_feed split: sum.splits list.splits if_splits option.splits exec.splits)
next
  case (2 r)
  then show ?case by simp
next
  case (3 n r)
  then show ?case by (fastforce split: sum.splits exec.splits)
qed

lemma parse_panic_cases:
  assumes "parseRESPValue r = Panic k"
  obtains (bulk) rest r1 n where "readLine r = Inr (CHR ''$'' # rest, r1)" "Atoi rest = Some n"
      "\<not> n < 0" "\<not> make_ok 1 (int64 (n + 2))" "k = MakeSliceLen"
    | (array) rest r1 n where "readLine r = Inr (CHR ''*'' # rest, r1)" "Atoi rest = Some n"
      "\<not> n < 0" "\<not> make_ok resp_value_size n" "k = MakeSliceLen"
    | (elems) rest r1 n where "readLine r = Inr (CHR ''*'' # rest, r1)" "Atoi rest = Some n"
      "\<not> n < 0" "make_ok resp_value_size n" "parseElems (nat n) r1 = Panic k"
  using assms
  by (subst (asm) parseRESPValue.simps)
    (auto split: sum.splits list.splits if_splits option.splits exec.splits)

lemma parse_feed_panic:
  "parseRESPValue r = Panic k \<Longrightarrow> parseRESPValue (feed r t) = Panic k"
  "parseElems n r = Panic k \<Longrightarrow> parseElems n (feed r t) = Panic k"
proof (induction r and n r rule: parseRESPValue_parseElems.induct)
  case (1 r)
  from "1.prems" show ?case
  proof (cases rule: parse_panic_cases)
    case (elems rest r1 n)
    then have "parseElems (nat n) (feed r1 t) = Panic k"
      by (intro "1.IH" [OF elems(1) refl refl]) simp_all
    with elems readLine_feed [OF elems(1), of t] show ?thesis
      by (simp add: parseRESPValue.simps [of "feed r t"])
  qed (simp_all add: parseRESPValue.simps [of "feed r t"] readLine_feed)
next
  case (2 r)
  then show ?case by simp
next
  case (3 n r)
  show ?case
  proof (cases "parseRESPValue r = Panic k")
    case True
    with "3.IH"(1) show ?thesis by simp
  next
    case False
    with "3.prems" obtain e r1 where p: "parseRESPValue r = Ret (Inr (e, r1))"
      and "parseElems n r1 = Panic k"
      by (auto split: sum.splits exec.splits)
    then have "parseElems n (feed r1 t) = Panic k" by (intro "3.IH"(2) [OF p refl refl])
    with parse_feed(1) [OF p, of t] show ?thesis by simp
  qed
qed

section \<open>The values the parser returns\<close>

text \<open>
  Well-formed values: the text of a one-line value stays on its line, only bulk strings and arrays
  can be null, only arrays have elements, and lengths are within what \<open>make\<close> allocates.
\<close>

fun resp_wf :: "RESPValue \<Rightarrow> bool" where
  "resp_wf (RESPValue k s arr null) =
     (if k = CHR ''+'' \<or> k = CHR ''-'' \<or> k = CHR '':'' then one_line s \<and> arr = [] \<and> \<not> null
      else if k = CHR ''$'' then
        arr = [] \<and> (if null then s = [] else int (length s) + 2 \<le> maxAlloc)
      else if k = CHR ''*'' then
        s = [] \<and> (if null then arr = []
                  else resp_value_size * int (length arr) \<le> maxAlloc \<and> list_all resp_wf arr)
      else False)"

lemma readLine_one_line: "readLine r = Inr (line, r') \<Longrightarrow> one_line line"
  using takeWhile_neq_notin [of LF "pending r"]
  by (auto simp: readLine_def ReadString_def one_line_TrimRight split: prod.splits option.splits if_splits)

lemma one_line_tl: "one_line (c # s) \<Longrightarrow> one_line s"
  by (auto simp: one_line_def split: if_splits)

lemma make_ok_bulk:
  assumes "0 \<le> n" and "n < 2 ^ 63" and "make_ok 1 (int64 (n + 2))"
  shows "n + 2 \<le> maxAlloc"
proof (cases "n + 2 < 2 ^ 63")
  case True
  with assms(1) have "int64 (n + 2) = n + 2" by simp
  with assms(3) show ?thesis by (simp add: make_ok_def)
next
  case False
  have "(n + 2 + 2 ^ 63) mod 2 ^ 64 = (n + 2 + 2 ^ 63 - 2 ^ 64) mod 2 ^ 64"
    by (rule minus_mod_self2 [symmetric])
  also have "\<dots> = n + 2 + 2 ^ 63 - 2 ^ 64"
    using False assms(2) by (intro mod_pos_pos_trivial) auto
  finally have "(n + 2 + 2 ^ 63) mod 2 ^ 64 = n + 2 - 2 ^ 63" by simp
  with assms(2) have "int64 (n + 2) < 0" by (simp add: int64_def)
  with assms(3) show ?thesis by (simp add: make_ok_def)
qed

lemma parseElems_length: "parseElems n r = Ret (Inr (vs, r')) \<Longrightarrow> length vs = n"
  by (induction n arbitrary: r vs r') (auto split: exec.splits sum.splits)

lemma bulk_size:
  assumes "Atoi rest = Some n" and "\<not> n < 0" and "make_ok 1 (int64 (n + 2))"
  shows "int (min (length buf) (nat n)) + 2 \<le> maxAlloc"
  using make_ok_bulk [of n] Atoi_range [OF assms(1)] assms(2,3) by simp

lemma array_size:
  assumes "parseElems (nat n) r = Ret (Inr (vs, r'))" and "\<not> n < 0"
  shows "resp_value_size * int (length vs) = resp_value_size * n"
  using parseElems_length [OF assms(1)] assms(2) by simp

lemma parse_wf:
  "parseRESPValue r = Ret (Inr (v, r')) \<Longrightarrow> resp_wf v"
  "parseElems n r = Ret (Inr (vs, r')) \<Longrightarrow> list_all resp_wf vs"
proof (induction r and n r arbitrary: v r' and vs r' rule: parseRESPValue_parseElems.induct)
  case (1 r)
  then obtain line r1 where rl: "readLine r = Inr (line, r1)"
    by (auto simp: parseRESPValue.simps [of r] split: sum.splits)
  with "1.prems" "1.IH" [OF rl refl] readLine_one_line [OF rl] show ?case
    by (auto simp: parseRESPValue.simps [of r] make_ok_def [of resp_value_size]
        array_size bulk_size dest: one_line_tl
        split: sum.splits list.splits if_splits option.splits exec.splits)
next
  case (2 r)
  then show ?case by simp
next
  case (3 n r)
  then show ?case by (fastforce split: sum.splits exec.splits)
qed

section \<open>A value depends only on the bytes it uses up\<close>

definition used :: "reader \<Rightarrow> bytes \<Rightarrow> reader \<Rightarrow> bool" where
  "used r c r' \<longleftrightarrow> pending r = c @ pending r' \<and> rd_err r' = rd_err r"

lemma used_trans: "used r c r1 \<Longrightarrow> used r1 d r2 \<Longrightarrow> used r (c @ d) r2"
  by (simp add: used_def)

lemma used_update: "used r c r' \<Longrightarrow> r'\<lparr>pending := t\<rparr> = r\<lparr>pending := t\<rparr>"
  by (simp add: used_def reader_eqI)

lemma readLine_used:
  assumes "readLine r = Inr (line, r')"
  obtains c where "used r c r'" and "\<And>t. readLine (r\<lparr>pending := c @ t\<rparr>) = Inr (line, r\<lparr>pending := t\<rparr>)"
proof -
  from assms have "LF \<in> set (pending r)"
    by (auto simp: readLine_def ReadString_def split: if_splits)
  then obtain s u where p: "pending r = s @ LF # u" and s: "LF \<notin> set s"
    by (rule split_at_delim)
  from s have rd: "ReadString LF (r\<lparr>pending := (s @ [LF]) @ t\<rparr>) = (s @ [LF], None, r\<lparr>pending := t\<rparr>)" for t
    using ReadString_line [of LF s "r\<lparr>pending := (s @ [LF]) @ t\<rparr>" t] by simp
  have "r\<lparr>pending := (s @ [LF]) @ u\<rparr> = r" by (rule reader_eqI) (simp_all add: p)
  with rd [of u] have "ReadString LF r = (s @ [LF], None, r\<lparr>pending := u\<rparr>)" by simp
  with assms rd p show ?thesis
    by (intro that [of "s @ [LF]"]) (auto simp: readLine_def used_def)
qed

lemma ReadFull_used:
  assumes "ReadFull n r = Inr (buf, r')"
  shows "used r buf r'" and "ReadFull n (r\<lparr>pending := buf @ t\<rparr>) = Inr (buf, r\<lparr>pending := t\<rparr>)"
  using ReadFull_split [OF assms] by (auto simp: used_def ReadFull_def)

text \<open>The values that end with their first line.\<close>

definition line_value :: "bytes \<Rightarrow> RESPValue option" where
  "line_value line =
     (case line of
        [] \<Rightarrow> None
      | k # rest \<Rightarrow>
          if k = CHR ''+'' \<or> k = CHR ''-'' \<or> k = CHR '':'' then Some (RESPValue k rest [] False)
          else if k = CHR ''$'' \<or> k = CHR ''*'' then
            (case Atoi rest of
               None \<Rightarrow> None
             | Some n \<Rightarrow> if n < 0 then Some (RESPValue k [] [] True) else None)
          else None)"

lemma parse_line_value:
  "readLine r = Inr (line, r') \<Longrightarrow> line_value line = Some v \<Longrightarrow> parseRESPValue r = Ret (Inr (v, r'))"
  by (simp add: line_value_def parseRESPValue.simps [of r]
      split: list.split_asm option.split_asm if_split_asm) (elim disjE; simp)+

lemma parse_value_cases:
  assumes "parseRESPValue r = Ret (Inr (v, r'))"
  obtains (plain) line where "readLine r = Inr (line, r')" "line_value line = Some v"
    | (bulk) rest r1 n buf where "readLine r = Inr (CHR ''$'' # rest, r1)" "Atoi rest = Some n"
      "\<not> n < 0" "make_ok 1 (int64 (n + 2))" "ReadFull (nat (n + 2)) r1 = Inr (buf, r')"
      "v = RESPValue (CHR ''$'') (take (nat n) buf) [] False"
    | (array) rest r1 n arr where "readLine r = Inr (CHR ''*'' # rest, r1)" "Atoi rest = Some n"
      "\<not> n < 0" "make_ok resp_value_size n" "parseElems (nat n) r1 = Ret (Inr (arr, r'))"
      "v = RESPValue (CHR ''*'') [] arr False"
  using assms
  by (subst (asm) parseRESPValue.simps)
    (auto simp: line_value_def split: sum.splits list.splits if_splits option.splits exec.splits)

lemma parse_used:
  "parseRESPValue r = Ret (Inr (v, r')) \<Longrightarrow>
     \<exists>c. used r c r' \<and> (\<forall>t. parseRESPValue (r\<lparr>pending := c @ t\<rparr>) = Ret (Inr (v, r\<lparr>pending := t\<rparr>)))"
  "parseElems n r = Ret (Inr (vs, r')) \<Longrightarrow>
     \<exists>c. used r c r' \<and> (\<forall>t. parseElems n (r\<lparr>pending := c @ t\<rparr>) = Ret (Inr (vs, r\<lparr>pending := t\<rparr>)))"
proof (induction r and n r arbitrary: v r' and vs r' rule: parseRESPValue_parseElems.induct)
  case (1 r)
  from "1.prems" show ?case
  proof (cases rule: parse_value_cases)
    case (plain line)
    obtain c where c: "used r c r'"
      and line: "\<And>t. readLine (r\<lparr>pending := c @ t\<rparr>) = Inr (line, r\<lparr>pending := t\<rparr>)"
      by (rule readLine_used [OF plain(1)]) iprover
    from c parse_line_value [OF line plain(2)] show ?thesis by blast
  next
    case (bulk rest r1 n buf)
    obtain c where c: "used r c r1" and line: "\<And>t. readLine (r\<lparr>pending := c @ t\<rparr>) =
        Inr (CHR ''$'' # rest, r\<lparr>pending := t\<rparr>)" by (rule readLine_used [OF bulk(1)]) iprover
    have "parseRESPValue (r\<lparr>pending := (c @ buf) @ t\<rparr>) = Ret (Inr (v, r\<lparr>pending := t\<rparr>))" for t
      using bulk ReadFull_used(2) [OF bulk(5), of t] line [of "buf @ t"]
      by (simp add: parseRESPValue.simps [of "r\<lparr>pending := c @ buf @ t\<rparr>"] used_update [OF c])
    with used_trans [OF c ReadFull_used(1) [OF bulk(5)]] show ?thesis by blast
  next
    case (array rest r1 n arr)
    obtain c where c: "used r c r1" and line: "\<And>t. readLine (r\<lparr>pending := c @ t\<rparr>) =
        Inr (CHR ''*'' # rest, r\<lparr>pending := t\<rparr>)" by (rule readLine_used [OF array(1)]) iprover
    from array obtain d where d: "used r1 d r'"
      and el: "\<And>t. parseElems (nat n) (r1\<lparr>pending := d @ t\<rparr>) = Ret (Inr (arr, r1\<lparr>pending := t\<rparr>))"
      using "1.IH" [OF array(1) refl refl] by fastforce
    have "parseRESPValue (r\<lparr>pending := (c @ d) @ t\<rparr>) = Ret (Inr (v, r\<lparr>pending := t\<rparr>))" for t
      using array el [of t] line [of "d @ t"]
      by (simp add: parseRESPValue.simps [of "r\<lparr>pending := c @ d @ t\<rparr>"] used_update [OF c])
    with used_trans [OF c d] show ?thesis by blast
  qed
next
  case (2 r)
  then show ?case by (auto simp: used_def)
next
  case (3 n r)
  from "3.prems" obtain e r1 es where p: "parseRESPValue r = Ret (Inr (e, r1))"
    and q: "parseElems n r1 = Ret (Inr (es, r'))" and vs: "vs = e # es"
    by (auto split: sum.splits exec.splits)
  from "3.IH"(1) [OF p] obtain c where c: "used r c r1"
    and pc: "\<And>t. parseRESPValue (r\<lparr>pending := c @ t\<rparr>) = Ret (Inr (e, r\<lparr>pending := t\<rparr>))" by blast
  from "3.IH"(2) [OF p refl refl q] obtain d where d: "used r1 d r'"
    and qd: "\<And>t. parseElems n (r1\<lparr>pending := d @ t\<rparr>) = Ret (Inr (es, r1\<lparr>pending := t\<rparr>))" by blast
  have "parseElems (Suc n) (r\<lparr>pending := (c @ d) @ t\<rparr>) = Ret (Inr (vs, r\<lparr>pending := t\<rparr>))" for t
    using pc [of "d @ t"] qd [of t] by (simp add: vs used_update [OF c])
  with used_trans [OF c d] show ?case by blast
qed

end
