(* ===== verification/Wire.thy ===== *)
theory Wire
  imports Resp
begin

text \<open>
  The RESP2 wire format as a reference: an encoder for values and for client commands, built from
  the reply encoders of \<open>resp.go\<close>, and the contract between an encoder and a decoder that reads
  from a stream (locale \<open>wire_codec\<close>). The parser and \<open>ReadCommand\<close> are shown to meet it, so what
  follows from the contract (unique decoding, failure on every cut-off encoding, decoding of
  concatenations) holds for both.
\<close>

section \<open>Reference encoder\<close>

definition array_header :: "nat \<Rightarrow> bytes" where
  "array_header n = ''*'' @ Itoa (int n) @ CRLF"

fun encode_value :: "RESPValue \<Rightarrow> bytes" where
  "encode_value (RESPValue k s arr null) =
     (if k = CHR ''+'' then EncodeSimpleString s
      else if k = CHR ''-'' then EncodeError s
      else if k = CHR '':'' then EncodeInteger s
      else if k = CHR ''$'' then (if null then EncodeNullBulk else EncodeBulkString s)
      else (if null then ''*-1'' @ CRLF
            else array_header (length arr) @ concat (map encode_value arr)))"

definition bulk_value :: "bytes \<Rightarrow> RESPValue" where
  "bulk_value s = RESPValue (CHR ''$'') s [] False"

definition command_value :: "bytes list \<Rightarrow> RESPValue" where
  "command_value cmd = RESPValue (CHR ''*'') [] (map bulk_value cmd) False"

text \<open>What a client sends for a command: an array of bulk strings.\<close>

definition encode_command :: "bytes list \<Rightarrow> bytes" where
  "encode_command cmd = array_header (length cmd) @ concat (map EncodeBulkString cmd)"

definition command_ok :: "bytes list \<Rightarrow> bool" where
  "command_ok cmd \<longleftrightarrow> resp_wf (command_value cmd)"

section \<open>Encoders and stream decoders\<close>

locale wire_codec =
  fixes enc :: "'a \<Rightarrow> bytes"
    and dec :: "reader \<Rightarrow> ('e + ('a \<times> reader)) exec"
    and ok :: "'a \<Rightarrow> bool"
  assumes dec_enc: "ok x \<Longrightarrow> pending r = enc x @ t \<Longrightarrow> dec r = Ret (Inr (x, r\<lparr>pending := t\<rparr>))"
    and dec_feed: "dec r = Ret (Inr (x, r')) \<Longrightarrow> dec (feed r t) = Ret (Inr (x, feed r' t))"
    and dec_feed_panic: "dec r = Panic k \<Longrightarrow> dec (feed r t) = Panic k"
    and dec_shrinks: "dec r = Ret (Inr (x, r')) \<Longrightarrow> length (pending r') < length (pending r)"
begin

lemma enc_nonempty: "ok x \<Longrightarrow> enc x \<noteq> []"
  using dec_shrinks [OF dec_enc [of x "bytes_reader (enc x)" "[]"]] by auto

lemma prefix_free:
  assumes "ok x" and "ok y" and eq: "enc x @ s = enc y @ t"
  shows "x = y \<and> s = t"
proof -
  let ?r = "bytes_reader (enc x @ s)"
  have "dec ?r = Ret (Inr (x, ?r\<lparr>pending := s\<rparr>))"
    by (rule dec_enc [OF assms(1)]) simp
  moreover have "dec ?r = Ret (Inr (y, ?r\<lparr>pending := t\<rparr>))"
    by (rule dec_enc [OF assms(2)]) (simp add: eq)
  ultimately show ?thesis by (auto simp: bytes_reader_def)
qed

lemma cut_off:
  assumes "ok x" and cut: "enc x = p @ q" and "q \<noteq> []" and p: "pending r = p"
  shows "\<exists>e. dec r = Ret (Inl e)"
proof -
  have whole: "dec (feed r q) = Ret (Inr (x, (feed r q)\<lparr>pending := []\<rparr>))"
    by (rule dec_enc [OF assms(1)]) (simp add: p cut)
  show ?thesis
  proof (cases "dec r")
    case (Panic k)
    with dec_feed_panic [OF this, of q] whole show ?thesis by simp
  next
    case (Ret res)
    show ?thesis
    proof (cases res)
      case (Inr yr)
      obtain y r' where "yr = (y, r')" by (cases yr)
      with Ret Inr have "dec (feed r q) = Ret (Inr (y, feed r' q))" by (simp add: dec_feed)
      with whole have "(feed r q)\<lparr>pending := []\<rparr> = feed r' q" by simp
      then have "pending ((feed r q)\<lparr>pending := []\<rparr>) = pending (feed r' q)" by (rule arg_cong)
      with assms(3) show ?thesis by simp
    qed (simp add: Ret)
  qed
qed

end

text \<open>A decoder in a loop that stops at the first error, keeping what it has.\<close>

locale wire_stream = wire_codec +
  fixes loop :: "reader \<Rightarrow> 'a list exec"
  assumes loop_eq: "loop r =
    (case dec r of
       Panic k \<Rightarrow> Panic k
     | Ret (Inl e) \<Rightarrow> Ret []
     | Ret (Inr (x, r')) \<Rightarrow> (case loop r' of Panic k \<Rightarrow> Panic k | Ret xs \<Rightarrow> Ret (x # xs)))"
begin

lemma loop_error: "dec r = Ret (Inl e) \<Longrightarrow> loop r = Ret []"
  by (simp add: loop_eq [of r])

lemma loop_concat:
  assumes "list_all ok xs" and "dec (r\<lparr>pending := p\<rparr>) = Ret (Inl e)"
    and "pending r = concat (map enc xs) @ p"
  shows "loop r = Ret xs"
  using assms
proof (induction xs arbitrary: r)
  case Nil
  then have "r\<lparr>pending := p\<rparr> = r" by (simp add: reader_eqI)
  with Nil show ?case by (simp add: loop_error)
next
  case (Cons x xs)
  let ?r' = "r\<lparr>pending := concat (map enc xs) @ p\<rparr>"
  have "dec r = Ret (Inr (x, ?r'))"
    by (rule dec_enc) (use Cons.prems in simp_all)
  moreover have "loop ?r' = Ret xs"
    by (rule Cons.IH) (use Cons.prems in simp_all)
  ultimately show ?case by (simp add: loop_eq [of r])
qed

lemma loop_cut_off:
  assumes "list_all ok xs" and "ok x" and "enc x = p @ q" and "q \<noteq> []"
    and "pending r = concat (map enc xs) @ p"
  shows "loop r = Ret xs"
proof -
  obtain e where "dec (r\<lparr>pending := p\<rparr>) = Ret (Inl e)"
    using cut_off [OF assms(2-4), of "r\<lparr>pending := p\<rparr>"] by auto
  then show ?thesis using assms(1,5) by (intro loop_concat)
qed

end

section \<open>The parser inverts the encoder\<close>

lemma readLine_line:
  assumes "one_line s" and "pending r = s @ CRLF @ t"
  shows "readLine r = Inr (s, r\<lparr>pending := t\<rparr>)"
proof -
  have "LF \<notin> set (s @ [CR])" using assms(1) by (simp add: one_line_def)
  then have "ReadString LF r = ((s @ [CR]) @ [LF], None, r\<lparr>pending := t\<rparr>)"
    by (rule ReadString_line) (simp add: assms(2))
  with TrimRight_one_line [OF assms(1)] show ?thesis by (simp add: readLine_def)
qed

lemma Itoa_length: "Itoa (int n) = itoa_nat n"
  by (simp add: Itoa_def)

lemma parse_one_line:
  assumes "k = CHR ''+'' \<or> k = CHR ''-'' \<or> k = CHR '':''" and "one_line s"
    and "pending r = k # s @ CRLF @ t"
  shows "parseRESPValue r = Ret (Inr (RESPValue k s [] False, r\<lparr>pending := t\<rparr>))"
proof -
  have "readLine r = Inr (k # s, r\<lparr>pending := t\<rparr>)"
    by (rule readLine_line) (use assms in \<open>auto intro: line_clean\<close>)
  with assms(1) show ?thesis by (auto simp: parseRESPValue.simps [of r])
qed

lemma parse_bulk:
  assumes "int (length s) + 2 \<le> maxAlloc" and p: "pending r = EncodeBulkString s @ t"
  shows "parseRESPValue r = Ret (Inr (RESPValue (CHR ''$'') s [] False, r\<lparr>pending := t\<rparr>))"
proof -
  let ?n = "int (length s)" and ?r1 = "r\<lparr>pending := s @ CRLF @ t\<rparr>"
  have "readLine r = Inr (CHR ''$'' # itoa_nat (length s), ?r1)"
    by (rule readLine_line) (auto simp: p EncodeBulkString_def Itoa_length intro: line_clean)
  moreover have "length s < 2 ^ 63" and small: "int64 (?n + 2) = ?n + 2"
    using assms(1) by (simp_all add: maxAlloc_def)
  then have "Atoi (itoa_nat (length s)) = Some ?n" by (simp add: Atoi_itoa_nat)
  moreover have "make_ok 1 (int64 (?n + 2))"
    unfolding small using assms(1) by (simp add: make_ok_def)
  moreover have "ReadFull (nat (?n + 2)) ?r1 = Inr (s @ CRLF, ?r1\<lparr>pending := t\<rparr>)"
    by (rule ReadFull_append) simp_all
  ultimately show ?thesis by (simp add: parseRESPValue.simps [of r])
qed

lemma parse_null:
  assumes "k = CHR ''$'' \<or> k = CHR ''*''" and "pending r = k # ''-1'' @ CRLF @ t"
  shows "parseRESPValue r = Ret (Inr (RESPValue k [] [] True, r\<lparr>pending := t\<rparr>))"
proof -
  have "readLine r = Inr (k # ''-1'', r\<lparr>pending := t\<rparr>)"
    by (rule readLine_line) (use assms in \<open>auto simp: one_line_def\<close>)
  moreover have "Atoi ''-1'' = Some (-1)"
    by (simp add: Atoi_def digits_val_def digit_val_def)
  ultimately show ?thesis using assms(1) by (auto simp: parseRESPValue.simps [of r])
qed

lemma parse_array:
  assumes "resp_value_size * int n \<le> maxAlloc" and p: "pending r = array_header n @ u"
    and elems: "parseElems n (r\<lparr>pending := u\<rparr>) = Ret (Inr (arr, r'))"
  shows "parseRESPValue r = Ret (Inr (RESPValue (CHR ''*'') [] arr False, r'))"
proof -
  have "readLine r = Inr (CHR ''*'' # itoa_nat n, r\<lparr>pending := u\<rparr>)"
    by (rule readLine_line) (auto simp: p array_header_def Itoa_length intro: line_clean)
  moreover have "n < 2 ^ 63" using assms(1) by (simp add: maxAlloc_def resp_value_size_def)
  then have "Atoi (itoa_nat n) = Some (int n)" by (rule Atoi_itoa_nat)
  moreover have "make_ok resp_value_size (int n)" using assms(1) by (simp add: make_ok_def)
  ultimately show ?thesis using elems by (simp add: parseRESPValue.simps [of r])
qed

lemma parse_encode:
  "resp_wf v \<Longrightarrow> pending r = encode_value v @ t \<Longrightarrow>
     parseRESPValue r = Ret (Inr (v, r\<lparr>pending := t\<rparr>))"
proof (induction v arbitrary: r t rule: encode_value.induct)
  case (1 k s arr null)
  have elems: "parseElems (length vs) r' = Ret (Inr (vs, r'\<lparr>pending := t'\<rparr>))"
    if "set vs \<subseteq> set arr" and "list_all resp_wf vs"
      and "pending r' = concat (map encode_value vs) @ t'"
      and "k = CHR ''*''" and "\<not> null" for vs r' t'
    using that
  proof (induction vs arbitrary: r')
    case Nil
    then show ?case by (simp add: reader_eqI)
  next
    case (Cons v vs)
    have "parseRESPValue r' = Ret (Inr (v, r'\<lparr>pending := concat (map encode_value vs) @ t'\<rparr>))"
      using Cons.prems by (intro "1.IH") auto
    with Cons show ?case by simp
  qed
  show ?case
  proof (cases "k = CHR ''*'' \<and> \<not> null")
    case True
    with "1.prems" have "list_all resp_wf arr" and "s = []"
      and "resp_value_size * int (length arr) \<le> maxAlloc" by auto
    with True "1.prems"(2) elems [of arr "r\<lparr>pending := concat (map encode_value arr) @ t\<rparr>" t]
    show ?thesis by (auto intro: parse_array)
  next
    case False
    with "1.prems" show ?thesis
      by (auto simp: EncodeSimpleString_def EncodeError_def EncodeInteger_def EncodeNullBulk_def
          intro: parse_one_line parse_bulk parse_null split: if_splits)
  qed
qed

interpretation resp_values: wire_stream encode_value parseRESPValue resp_wf parseLoop
proof unfold_locales
  show "\<And>x r t. resp_wf x \<Longrightarrow> pending r = encode_value x @ t \<Longrightarrow>
      parseRESPValue r = Ret (Inr (x, r\<lparr>pending := t\<rparr>))"
    by (rule parse_encode)
  show "\<And>r x r' t. parseRESPValue r = Ret (Inr (x, r')) \<Longrightarrow>
      parseRESPValue (feed r t) = Ret (Inr (x, feed r' t))"
    by (rule parse_feed)
  show "\<And>r k t. parseRESPValue r = Panic k \<Longrightarrow> parseRESPValue (feed r t) = Panic k"
    by (rule parse_feed_panic)
  show "\<And>r x r'. parseRESPValue r = Ret (Inr (x, r')) \<Longrightarrow>
      length (pending r') < length (pending r)"
    by (rule parse_length)
qed (rule parseLoop.simps)

section \<open>Commands\<close>

lemma encode_command_value: "encode_command cmd = encode_value (command_value cmd)"
  by (simp add: encode_command_def command_value_def bulk_value_def comp_def)

lemma Str_command_value: "map Str (Arr (command_value cmd)) = cmd"
  by (simp add: command_value_def bulk_value_def comp_def)

lemma Kind_command_value [simp]: "Kind (command_value cmd) = CHR ''*''"
  by (simp add: command_value_def)

lemma ReadCommand_Ret:
  "ReadCommand r = Ret (Inr (cmd, r')) \<longleftrightarrow>
     (\<exists>v. parseRESPValue r = Ret (Inr (v, r')) \<and> Kind v = CHR ''*'' \<and> map Str (Arr v) = cmd)"
  by (auto simp: ReadCommand_def split: exec.splits sum.splits)

lemma ReadCommand_Panic: "ReadCommand r = Panic k \<longleftrightarrow> parseRESPValue r = Panic k"
  by (auto simp: ReadCommand_def split: exec.splits sum.splits)

interpretation commands: wire_codec encode_command ReadCommand command_ok
proof unfold_locales
  fix cmd :: "bytes list" and r :: reader and t
  assume "command_ok cmd" and "pending r = encode_command cmd @ t"
  then have "parseRESPValue r = Ret (Inr (command_value cmd, r\<lparr>pending := t\<rparr>))"
    by (intro parse_encode) (simp_all add: command_ok_def encode_command_value)
  then show "ReadCommand r = Ret (Inr (cmd, r\<lparr>pending := t\<rparr>))"
    using Str_command_value by (auto simp: ReadCommand_Ret)
qed (auto simp: ReadCommand_Ret ReadCommand_Panic parse_feed parse_feed_panic parse_length)

lemma parseLoop_commands:
  assumes "list_all command_ok cmds" and "pending r = concat (map encode_command cmds) @ p"
    and "parseRESPValue (r\<lparr>pending := p\<rparr>) = Ret (Inl e)"
  shows "parseLoop r = Ret (map command_value cmds)"
proof (rule resp_values.loop_concat [OF _ assms(3)])
  show "list_all resp_wf (map command_value cmds)"
    using assms(1) by (simp add: list_all_iff command_ok_def)
  show "pending r = concat (map encode_value (map command_value cmds)) @ p"
    using assms(2) by (simp add: encode_command_value [abs_def] comp_def)
qed

lemma parse_empty: "parseRESPValue (r\<lparr>pending := []\<rparr>) = Ret (Inl (IOErr (rd_err r)))"
  by (simp add: parseRESPValue.simps readLine_def ReadString_def)

section \<open>Pairing commands with replies\<close>

text \<open>
  The reference: every command that is neither empty nor administrative, in order, with the reply
  at the same position of the reply stream, or \<open>?\<close> when the replies are fewer.
\<close>

definition data_command :: "unicode_tables \<Rightarrow> bytes list \<Rightarrow> bool" where
  "data_command U cmd \<longleftrightarrow> cmd \<noteq> [] \<and> \<not> IsAdminCommand U (hd cmd)"

definition reply_at :: "RESPValue list \<Rightarrow> nat \<Rightarrow> bytes" where
  "reply_at reps i = (if i < length reps then resp_String (reps ! i) else ''?'')"

definition expected_calls :: "unicode_tables \<Rightarrow> bytes list list \<Rightarrow> RESPValue list \<Rightarrow> RedisCall list" where
  "expected_calls U cmds reps =
     map (\<lambda>i. \<lparr>Command = cmds ! i, Reply = reply_at reps i\<rparr>)
       (filter (\<lambda>i. data_command U (cmds ! i)) [0..<length cmds])"

lemma upt_shift: "map (\<lambda>i. f (Suc i)) (filter (\<lambda>i. P (Suc i)) [m..<n]) = map f (filter P [Suc m..<Suc n])"
  by (induction n) auto

lemma pairCalls_upt:
  "pairCalls U reps j cmds =
     map (\<lambda>i. \<lparr>Command = cmds ! i, Reply = reply_at reps (j + i)\<rparr>)
       (filter (\<lambda>i. data_command U (cmds ! i)) [0..<length cmds])"
proof (induction cmds arbitrary: j)
  case Nil
  then show ?case by simp
next
  case (Cons cmd cmds)
  let ?f = "\<lambda>i. \<lparr>Command = (cmd # cmds) ! i, Reply = reply_at reps (j + i)\<rparr>"
  let ?P = "\<lambda>i. data_command U ((cmd # cmds) ! i)"
  have "pairCalls U reps (Suc j) cmds = map ?f (filter ?P [1..<Suc (length cmds)])"
    using Cons.IH [of "Suc j"] upt_shift [of ?f ?P 0 "length cmds"] by simp
  moreover have "[0..<length (cmd # cmds)] = 0 # [1..<Suc (length cmds)]"
    by (subst upt_conv_Cons) simp_all
  ultimately show ?case by (simp add: data_command_def reply_at_def)
qed

lemma parseLoop_values:
  assumes "list_all resp_wf vs" and "parseRESPValue (bytes_reader p) = Ret (Inl e)"
  shows "ParseRESPStream (concat (map encode_value vs) @ p) = Ret (vs, vs \<noteq> [])"
proof -
  let ?r = "bytes_reader (concat (map encode_value vs) @ p)"
  from assms(2) have "parseRESPValue (?r\<lparr>pending := p\<rparr>) = Ret (Inl e)" by simp
  then have "parseLoop ?r = Ret vs" by (rule resp_values.loop_concat [OF assms(1)]) simp
  then show ?thesis by (simp add: ParseRESPStream_def)
qed

lemma bytes_reader_empty_error: "parseRESPValue (bytes_reader []) = Ret (Inl (IOErr EOF))"
  using parse_empty [of "bytes_reader []"] by (simp add: bytes_reader_def)

lemma TryRESP_encoded:
  assumes "list_all command_ok cmds" and "cmds \<noteq> []" and "list_all resp_wf reps"
    and "parseRESPValue (bytes_reader p) = Ret (Inl e)" and "parseRESPValue (bytes_reader q) = Ret (Inl e')"
  shows "TryRESP U (concat (map encode_command cmds) @ p) (concat (map encode_value reps) @ q) =
    Ret (expected_calls U cmds reps, expected_calls U cmds reps \<noteq> [])"
proof -
  have "list_all resp_wf (map command_value cmds)"
    using assms(1) by (simp add: list_all_iff command_ok_def)
  from parseLoop_values [OF this assms(4)]
  have "ParseRESPStream (concat (map encode_command cmds) @ p) = Ret (map command_value cmds, True)"
    using assms(2) by (simp add: encode_command_value [abs_def] comp_def)
  moreover have "map (\<lambda>v. map Str (Arr v)) (map command_value cmds) = cmds"
    by (simp add: Str_command_value map_idI)
  ultimately show ?thesis
    using parseLoop_values [OF assms(3,5)]
    by (auto simp: TryRESP_def Let_def pairCalls_upt expected_calls_def)
qed

section \<open>Lengths that cannot be allocated\<close>

lemma parse_length_panic:
  assumes "k = CHR ''$'' \<or> k = CHR ''*''" and "readLine r = Inr (k # rest, r1)"
    and "Atoi rest = Some (int n)" and "\<not> make_ok 1 (int64 (int n + 2))"
    and "\<not> make_ok resp_value_size (int n)"
  shows "parseRESPValue r = Panic MakeSliceLen"
  using assms by (auto simp: parseRESPValue.simps [of r])

lemma resp_too_long:
  assumes "n < 2 ^ 63" and "maxAlloc < int n" and "k = CHR ''$'' \<or> k = CHR ''*''"
  shows "parseRESPValue (bytes_reader (k # itoa_nat n @ CRLF @ t)) = Panic MakeSliceLen"
proof -
  let ?r = "bytes_reader (k # itoa_nat n @ CRLF @ t)"
  have "readLine ?r = Inr (k # itoa_nat n, ?r\<lparr>pending := t\<rparr>)"
    by (rule readLine_line) (use assms(3) in \<open>auto intro: line_clean\<close>)
  moreover have "Atoi (itoa_nat n) = Some (int n)" using assms(1) by (rule Atoi_itoa_nat)
  moreover have "\<not> make_ok 1 (int64 (int n + 2))"
  proof
    assume "make_ok 1 (int64 (int n + 2))"
    with make_ok_bulk [of "int n"] assms(1,2) show False by simp
  qed
  moreover have "\<not> make_ok resp_value_size (int n)"
    using assms(2) by (simp add: make_ok_def resp_value_size_def)
  ultimately show ?thesis by (rule parse_length_panic [OF assms(3)])
qed

lemma ParseRESPStream_panic:
  "parseRESPValue (bytes_reader buf) = Panic p \<Longrightarrow> ParseRESPStream buf = Panic p"
  by (simp add: ParseRESPStream_def parseLoop.simps)

end
