(* ===== verification/RespSpec.thy ===== *)
theory RespSpec
  imports Wire
begin

text \<open>
  What the RESP decoder of \<open>internal/decoder/resp.go\<close> guarantees: it inverts the wire format, it
  tolerates a cut-off capture, it pairs commands with replies by position, and which recorded
  replies that are sent back are read as captured. The last section states what happens to replies
  with line breaks and to impossible lengths.
\<close>

section \<open>Recorded replies on their way back\<close>

text \<open>
  The texts that \<open>EncodeReply\<close> does not take as the text of a simple string, because a null, an
  error or an integer renders the same way.
\<close>

definition looks_special :: "bytes \<Rightarrow> bool" where
  "looks_special s \<longleftrightarrow> s = ''(nil)'' \<or> HasPrefix s ''(error) '' \<or> HasPrefix s ''(integer) ''"

text \<open>
  The replies of which \<open>EncodeReply\<close> restores the wire form from their rendering: errors, integers,
  null bulk strings, and status replies whose text is not that of one of the former.
\<close>

definition exact_reply :: "RESPValue \<Rightarrow> bool" where
  "exact_reply v \<longleftrightarrow>
     Kind v = CHR ''-'' \<or> Kind v = CHR '':'' \<or> (Kind v = CHR ''$'' \<and> Null v) \<or>
     (Kind v = CHR ''+'' \<and> \<not> looks_special (Str v))"

text \<open>
  A client that gets \<open>out\<close> reads \<open>v\<close> and stops right behind it, whatever follows.
\<close>

definition answers :: "bytes \<Rightarrow> RESPValue \<Rightarrow> bool" where
  "answers out v \<longleftrightarrow>
     (\<forall>r t. pending r = out @ t \<longrightarrow> parseRESPValue r = Ret (Inr (v, r\<lparr>pending := t\<rparr>)))"

lemma answers_reader: "answers out v \<Longrightarrow> parseRESPValue (bytes_reader out) = Ret (Inr (v, bytes_reader []))"
  unfolding answers_def by (metis append_Nil2 bytes_reader_simps(1,4))

lemma answers_wf: "answers out v \<Longrightarrow> resp_wf v"
  by (drule answers_reader) (rule parse_wf(1))

lemma answers_unique: "answers out v \<Longrightarrow> answers out w \<Longrightarrow> v = w"
  by (drule answers_reader)+ simp

lemma answers_one_line:
  "k = CHR ''+'' \<or> k = CHR ''-'' \<or> k = CHR '':'' \<Longrightarrow> one_line s \<Longrightarrow> answers (k # s @ CRLF) (RESPValue k s [] False)"
  by (auto simp: answers_def intro: parse_one_line)

lemma answers_null: "answers EncodeNullBulk (RESPValue (CHR ''$'') [] [] True)"
  by (auto simp: answers_def EncodeNullBulk_def intro: parse_null)

text \<open>The line behind a type byte, whatever its text: the first line feed ends it.\<close>

lemma parse_line_start:
  assumes "k = CHR ''+'' \<or> k = CHR ''-'' \<or> k = CHR '':''" and "LF \<notin> set s" and "pending r = k # s @ LF # t"
  shows "\<exists>s'. parseRESPValue r = Ret (Inr (RESPValue k s' [] False, r\<lparr>pending := t\<rparr>)) \<and> k # s' = TrimRight (k # s) CRLF"
proof -
  have "LF \<notin> set (k # s)" using assms(1,2) by auto
  then have "ReadString LF r = ((k # s) @ [LF], None, r\<lparr>pending := t\<rparr>)"
    by (rule ReadString_line) (simp add: assms(3))
  then have line: "readLine r = Inr (TrimRight (k # s) CRLF, r\<lparr>pending := t\<rparr>)"
    using TrimRight_snoc_cut [of LF CRLF "k # s"] by (simp add: readLine_def)
  have "TrimRight (k # s) CRLF \<noteq> []"
    using assms(1) by (auto simp: TrimRight_def dropWhile_eq_Nil_conv)
  then obtain s' where s': "TrimRight (k # s) CRLF = k # s'"
    using TrimRight_prefix [of "k # s" CRLF] by (cases "TrimRight (k # s) CRLF") auto
  with line assms(1) show ?thesis by (auto simp: parseRESPValue.simps [of r])
qed

text \<open>So what is written behind a type byte is one value exactly if it holds no line feed of its own.\<close>

lemma answers_line_iff:
  assumes k: "k = CHR ''+'' \<or> k = CHR ''-'' \<or> k = CHR '':''"
  shows "(\<exists>v. answers (k # s @ CRLF) v) \<longleftrightarrow> LF \<notin> set s"
proof
  assume "LF \<notin> set s"
  then have clean: "LF \<notin> set (s @ [CR])" by simp
  have "\<exists>s'. parseRESPValue r = Ret (Inr (RESPValue k s' [] False, r\<lparr>pending := t\<rparr>)) \<and>
      k # s' = TrimRight (k # s @ [CR]) CRLF" if "pending r = (k # s @ CRLF) @ t" for r t
    using parse_line_start [OF k clean, of r t] that by simp
  then have "answers (k # s @ CRLF) (RESPValue k (tl (TrimRight (k # s @ [CR]) CRLF)) [] False)"
    unfolding answers_def by (metis list.sel(3))
  then show "\<exists>v. answers (k # s @ CRLF) v" ..
next
  assume "\<exists>v. answers (k # s @ CRLF) v"
  then obtain v where "answers (k # s @ CRLF) v" ..
  then have all: "parseRESPValue (bytes_reader (k # s @ CRLF)) = Ret (Inr (v, bytes_reader []))" by (rule answers_reader)
  show "LF \<notin> set s"
  proof
    assume "LF \<in> set s"
    then obtain a b where s: "s = a @ LF # b" and "LF \<notin> set a" by (meson split_list_first)
    then obtain v' where "parseRESPValue (bytes_reader (k # s @ CRLF)) =
        Ret (Inr (v', (bytes_reader (k # s @ CRLF))\<lparr>pending := b @ CRLF\<rparr>))"
      using parse_line_start [OF k, of a "bytes_reader (k # s @ CRLF)" "b @ CRLF"] by auto
    with all show False by (simp add: bytes_reader_def)
  qed
qed

lemma EncodeReply_error: "EncodeReply (''(error) '' @ s) = EncodeError s"
  using TrimPrefix_append [of "''(error) ''" s] HasPrefix_append [of "''(error) ''" s]
  by (simp add: EncodeReply_def)

lemma EncodeReply_integer: "EncodeReply (''(integer) '' @ s) = EncodeInteger s"
  using TrimPrefix_append [of "''(integer) ''" s] HasPrefix_append [of "''(integer) ''" s]
  by (simp add: EncodeReply_def HasPrefix_def)

lemma EncodeReply_plain: "\<not> looks_special s \<Longrightarrow> EncodeReply s = EncodeSimpleString s"
  by (simp add: EncodeReply_def looks_special_def)

text \<open>The type byte that \<open>EncodeReply\<close> chooses.\<close>

lemma EncodeReply_kind:
  "\<exists>out. EncodeReply s = (if s = ''(nil)'' then CHR ''$'' else if HasPrefix s ''(error) '' then CHR ''-''
      else if HasPrefix s ''(integer) '' then CHR '':'' else CHR ''+'') # out"
  by (auto simp: EncodeReply_def EncodeNullBulk_def EncodeError_def EncodeInteger_def EncodeSimpleString_def)

lemma readLine_first:
  assumes "readLine r = Inr (c # rest, r')" and "pending r = k # p"
  shows "c = k"
proof -
  have "c # rest = TrimRight (takeWhile (\<lambda>c. c \<noteq> LF) (pending r) @ [LF]) CRLF"
    using assms(1) by (auto simp: readLine_def ReadString_def split: if_splits)
  also have "\<dots> = TrimRight (takeWhile (\<lambda>c. c \<noteq> LF) (pending r)) CRLF" by (rule TrimRight_snoc_cut) simp
  finally obtain u where "takeWhile (\<lambda>c. c \<noteq> LF) (pending r) = c # rest @ u"
    using TrimRight_prefix [of "takeWhile (\<lambda>c. c \<noteq> LF) (pending r)" CRLF] by (metis append_Cons)
  then show ?thesis using assms(2) by (simp split: if_splits)
qed

lemma parse_kind:
  assumes "parseRESPValue r = Ret (Inr (v, r'))" and "pending r = k # p"
  shows "Kind v = k"
proof -
  obtain line r1 where line: "readLine r = Inr (line, r1)"
    using assms(1) by (auto simp: parseRESPValue.simps [of r] split: sum.splits)
  obtain c rest where "line = c # rest"
    using assms(1) line by (cases line) (auto simp: parseRESPValue.simps [of r])
  with readLine_first [OF _ assms(2)] assms(1) line show ?thesis
    by (auto simp: parseRESPValue.simps [of r] split: if_splits option.splits exec.splits sum.splits)
qed

lemma EncodeReply_answers_kind:
  assumes "answers (EncodeReply s) v"
  shows "Kind v = (if s = ''(nil)'' then CHR ''$'' else if HasPrefix s ''(error) '' then CHR ''-''
      else if HasPrefix s ''(integer) '' then CHR '':'' else CHR ''+'')"
  using EncodeReply_kind [of s] parse_kind [OF answers_reader [OF assms]] by auto

text \<open>A reply is read back as it was captured exactly if its wire form can be told from its rendering.\<close>

lemma replayed_exactly:
  assumes "resp_wf v"
  shows "answers (EncodeReply (resp_String v)) v \<longleftrightarrow> exact_reply v"
proof -
  obtain k s arr null where v: "v = RESPValue k s arr null" by (cases v)
  consider (line) "k = CHR ''-'' \<or> k = CHR '':''" | (status) "k = CHR ''+''" | (null_bulk) "k = CHR ''$''" "null"
    | (bulk) "k = CHR ''$''" "\<not> null" | (array) "k = CHR ''*''"
    using assms by (auto simp: v split: if_splits)
  then show ?thesis
  proof cases
    case line
    then show ?thesis using assms answers_one_line [of k s]
      by (auto simp: v exact_reply_def EncodeReply_error [simplified] EncodeReply_integer [simplified] EncodeError_def EncodeInteger_def)
  next
    case status
    have "answers (EncodeReply s) v" if "\<not> looks_special s"
      using assms status answers_one_line [of k s] by (auto simp: v EncodeReply_plain [OF that] EncodeSimpleString_def)
    moreover have "\<not> looks_special s" if "answers (EncodeReply s) v"
      using EncodeReply_answers_kind [OF that] status by (auto simp: v looks_special_def split: if_splits)
    ultimately show ?thesis using assms status by (auto simp: v exact_reply_def)
  next
    case null_bulk
    then show ?thesis using assms answers_null by (simp add: v exact_reply_def EncodeReply_def)
  next
    case bulk
    have False if "answers (EncodeReply s) v"
    proof -
      have "s = ''(nil)''" using EncodeReply_answers_kind [OF that] bulk by (simp add: v split: if_splits)
      then have "answers EncodeNullBulk v" using that by (simp add: EncodeReply_def)
      from answers_unique [OF this answers_null] bulk show False by (simp add: v)
    qed
    with bulk show ?thesis by (auto simp: v exact_reply_def)
  next
    case array
    have "Kind v \<noteq> CHR ''*''" if "answers (EncodeReply (resp_String v)) v"
      using EncodeReply_answers_kind [OF that] by (simp only: split: if_splits) simp_all
    with array show ?thesis by (auto simp: v exact_reply_def simp del: resp_String.simps)
  qed
qed

text \<open>Every other single-line reply is read back as a status with the rendered text, a null array as a null.\<close>

lemma replayed_as_text:
  "one_line (resp_String v) \<Longrightarrow> \<not> looks_special (resp_String v) \<Longrightarrow>
     answers (EncodeReply (resp_String v)) (RESPValue (CHR ''+'') (resp_String v) [] False)"
  using answers_one_line [of "CHR ''+''" "resp_String v"] by (simp add: EncodeReply_plain EncodeSimpleString_def)

section \<open>Properties of the parser\<close>

text \<open>
  C9: From the wire encoding of any well-formed value, followed by anything, \<open>parseRESPValue\<close>
  returns exactly that value and leaves exactly what follows unread.
\<close>

theorem resp_parse_roundtrip:
  assumes "resp_wf v" and "pending r = encode_value v @ t"
  shows "parseRESPValue r = Ret (Inr (v, r\<lparr>pending := t\<rparr>))"
  using assms by (rule parse_encode)

theorem resp_parse_roundtrip_witness:
  "parseRESPValue (bytes_reader (encode_value (command_value [''set'', ''user:42'', ''Alice'']) @ ''+OK'')) =
     Ret (Inr (command_value [''set'', ''user:42'', ''Alice''], bytes_reader ''+OK''))"
proof -
  have "resp_wf (command_value [''set'', ''user:42'', ''Alice''])"
    by (simp add: command_value_def bulk_value_def maxAlloc_def resp_value_size_def)
  from resp_parse_roundtrip [OF this, of "bytes_reader (encode_value (command_value
      [''set'', ''user:42'', ''Alice'']) @ ''+OK'')" "''+OK''"]
  show ?thesis by simp
qed

text \<open>
  Whatever bytes it reads, the value that \<open>parseRESPValue\<close> returns is well formed, and it is
  determined by the non-empty run of bytes used up: with any other bytes behind that run the
  parser returns the same value and leaves those bytes. So the replay proxy can answer a command
  without waiting for more input.
\<close>

theorem resp_parse_local:
  assumes "parseRESPValue r = Ret (Inr (v, r'))"
  shows "resp_wf v \<and>
    (\<exists>c. c \<noteq> [] \<and> pending r = c @ pending r' \<and>
       (\<forall>t. parseRESPValue (r\<lparr>pending := c @ t\<rparr>) = Ret (Inr (v, r\<lparr>pending := t\<rparr>))))"
proof -
  obtain c where "used r c r'"
    and c: "\<And>t. parseRESPValue (r\<lparr>pending := c @ t\<rparr>) = Ret (Inr (v, r\<lparr>pending := t\<rparr>))"
    using parse_used(1) [OF assms] by blast
  then have p: "pending r = c @ pending r'" by (simp add: used_def)
  moreover have "c \<noteq> []" using parse_length(1) [OF assms] p by auto
  ultimately show ?thesis using parse_wf(1) [OF assms] c by blast
qed

lemma parse_OK_bare_LF:
  "parseRESPValue (bytes_reader (''+OK'' @ [LF] @ ''+x'')) =
     Ret (Inr (RESPValue (CHR ''+'') ''OK'' [] False, bytes_reader ''+x''))"
  by (simp add: parseRESPValue.simps readLine_def ReadString_def TrimRight_def)

theorem resp_parse_local_witness:
  "resp_wf (RESPValue (CHR ''+'') ''OK'' [] False) \<and>
    (\<exists>c. c \<noteq> [] \<and> ''+OK'' @ [LF] @ ''+x'' = c @ ''+x'' \<and>
       (\<forall>t. parseRESPValue (bytes_reader (c @ t)) =
          Ret (Inr (RESPValue (CHR ''+'') ''OK'' [] False, bytes_reader t))))"
  using resp_parse_local [OF parse_OK_bare_LF] by simp

text \<open>
  C31: \<open>ParseRESPStream\<close> returns every complete value of a captured buffer, in order, and drops
  exactly the value that the capture cut short.
\<close>

theorem resp_stream_truncated:
  assumes "list_all resp_wf vs" and "resp_wf v" and "encode_value v = p @ q" and "q \<noteq> []"
  shows "ParseRESPStream (concat (map encode_value vs) @ p) = Ret (vs, vs \<noteq> [])"
proof -
  have "parseLoop (bytes_reader (concat (map encode_value vs) @ p)) = Ret vs"
    by (rule resp_values.loop_cut_off [OF assms]) simp
  then show ?thesis by (simp add: ParseRESPStream_def)
qed

theorem resp_stream_truncated_witness:
  "ParseRESPStream (concat (map encode_value [RESPValue (CHR ''+'') ''OK'' [] False]) @ ''$3'' @ CRLF @ ''ab'') =
     Ret ([RESPValue (CHR ''+'') ''OK'' [] False], True)"
proof -
  have "list_all resp_wf [RESPValue (CHR ''+'') ''OK'' [] False]" by (simp add: one_line_def)
  moreover have "resp_wf (bulk_value ''abc'')" by (simp add: bulk_value_def maxAlloc_def)
  moreover have "encode_value (bulk_value ''abc'') = (''$3'' @ CRLF @ ''ab'') @ (''c'' @ CRLF)"
    by code_simp
  ultimately show ?thesis
    using resp_stream_truncated [of "[RESPValue (CHR ''+'') ''OK'' [] False]" "bulk_value ''abc''"
        "''$3'' @ CRLF @ ''ab''" "''c'' @ CRLF"] by simp
qed

text \<open>
  \<open>ReadCommand\<close> reads one client command from a connection at a time: from the encoding of a
  command it returns its arguments and leaves the rest of the input, and between commands it
  reports the connection's own error (\<open>EOF\<close> on a clean close) unchanged.
\<close>

theorem read_command_roundtrip:
  assumes "command_ok cmd"
  shows "ReadCommand \<lparr>pending = encode_command cmd @ t, rd_err = e\<rparr> =
           Ret (Inr (cmd, \<lparr>pending = t, rd_err = e\<rparr>)) \<and>
         ReadCommand \<lparr>pending = [], rd_err = e\<rparr> = Ret (Inl (IOErr e))"
  using commands.dec_enc [OF assms, of "\<lparr>pending = encode_command cmd @ t, rd_err = e\<rparr>" t]
    parse_empty [of "\<lparr>pending = [], rd_err = e\<rparr>"]
  by (simp add: ReadCommand_def)

theorem read_command_roundtrip_witness:
  "ReadCommand \<lparr>pending = encode_command [''get'', ''x''] @ ''*1'', rd_err = EOF\<rparr> =
     Ret (Inr ([''get'', ''x''], \<lparr>pending = ''*1'', rd_err = EOF\<rparr>)) \<and>
   ReadCommand \<lparr>pending = [], rd_err = EOF\<rparr> = Ret (Inl (IOErr EOF))"
proof -
  have "command_ok [''get'', ''x'']"
    by (simp add: command_ok_def command_value_def bulk_value_def maxAlloc_def resp_value_size_def)
  then show ?thesis by (rule read_command_roundtrip)
qed

section \<open>Properties of the command and reply pairing\<close>

text \<open>
  C10: \<open>TryRESP\<close> on a captured command stream and reply stream (each possibly followed by a
  cut-off rest) reports exactly the commands that are neither empty nor administrative, in order,
  each with the rendered reply at the command's own position among all commands, or \<open>?\<close> when no
  reply was captured there; and it reports success exactly when there is such a command.
\<close>

theorem try_resp_pairs:
  assumes "list_all command_ok cmds" and "cmds \<noteq> []" and "list_all resp_wf reps"
    and "parseRESPValue (bytes_reader p) = Ret (Inl e)"
    and "parseRESPValue (bytes_reader q) = Ret (Inl e')"
  shows "TryRESP U (concat (map encode_command cmds) @ p) (concat (map encode_value reps) @ q) =
    Ret (expected_calls U cmds reps, \<exists>cmd \<in> set cmds. data_command U cmd)"
proof -
  have "expected_calls U cmds reps \<noteq> [] \<longleftrightarrow> (\<exists>cmd \<in> set cmds. data_command U cmd)"
    unfolding expected_calls_def by (simp add: filter_empty_conv) (metis atLeastLessThan_iff in_set_conv_nth zero_le)
  with TryRESP_encoded [OF assms, of U] show ?thesis by simp
qed

theorem try_resp_pairs_witness:
  "TryRESP ascii_tables
     (concat (map encode_command [[''hello'', ''2''], [''set'', ''k'', ''v'']]) @ [])
     (concat (map encode_value [RESPValue (CHR ''-'') ''ERR'' [] False, RESPValue (CHR ''+'') ''OK'' [] False]) @ []) =
   Ret ([\<lparr>Command = [''set'', ''k'', ''v''], Reply = ''OK''\<rparr>], True)"
proof -
  let ?cmds = "[[''hello'', ''2''], [''set'', ''k'', ''v'']]"
  let ?reps = "[RESPValue (CHR ''-'') ''ERR'' [] False, RESPValue (CHR ''+'') ''OK'' [] False]"
  have "list_all command_ok ?cmds"
    by (simp add: command_ok_def command_value_def bulk_value_def maxAlloc_def resp_value_size_def)
  moreover have "list_all resp_wf ?reps" by (simp add: one_line_def)
  moreover have "expected_calls ascii_tables ?cmds ?reps = [\<lparr>Command = [''set'', ''k'', ''v''], Reply = ''OK''\<rparr>]"
    by code_simp
  moreover have "\<exists>cmd \<in> set ?cmds. data_command ascii_tables cmd"
    by code_simp
  ultimately show ?thesis
    using try_resp_pairs [of ?cmds ?reps "[]" "IOErr EOF" "[]" "IOErr EOF" ascii_tables]
      bytes_reader_empty_error by simp
qed

text \<open>
  C11: Which recorded replies come back as they were. A reply that is rendered for the test case and
  encoded again by \<open>EncodeReply\<close> is read back by a client as captured, with the next reply right behind
  it, if and only if it is an error, an integer, a null bulk string, or a status whose text is not
  that of one of these. A bulk string or array never is: with a text of one line that does not look
  like one of the former, it comes back as a status with its rendered text.
\<close>

theorem encode_reply_roundtrip:
  assumes "resp_wf v"
  shows "(answers (EncodeReply (resp_String v)) v \<longleftrightarrow> exact_reply v) \<and>
    (one_line (resp_String v) \<and> \<not> looks_special (resp_String v) \<longrightarrow>
       answers (EncodeReply (resp_String v)) (RESPValue (CHR ''+'') (resp_String v) [] False))"
  using replayed_exactly [OF assms] replayed_as_text [of v] by blast

theorem encode_reply_roundtrip_witness:
  "answers (EncodeReply (resp_String (RESPValue (CHR '':'') ''5'' [] False))) (RESPValue (CHR '':'') ''5'' [] False) \<and>
   \<not> answers (EncodeReply (resp_String (bulk_value ''5''))) (bulk_value ''5'') \<and>
   answers (EncodeReply (resp_String (bulk_value ''5''))) (RESPValue (CHR ''+'') ''5'' [] False)"
proof -
  have "resp_wf (RESPValue (CHR '':'') ''5'' [] False)" by (simp add: one_line_def)
  moreover have "resp_wf (bulk_value ''5'')" by (simp add: bulk_value_def maxAlloc_def)
  ultimately show ?thesis
    using encode_reply_roundtrip [of "RESPValue (CHR '':'') ''5'' [] False"] encode_reply_roundtrip [of "bulk_value ''5''"]
    by (simp add: exact_reply_def bulk_value_def one_line_def looks_special_def HasPrefix_def)
qed

section \<open>Outside those bounds\<close>

text \<open>
  A bulk string reply that contains a line break is not replayed as one reply. Its rendering is
  sent back as a simple string, so the client reads only the text before the break; the rest of the
  value stays in the stream, in front of the next reply.
\<close>

theorem encode_reply_line_break:
  assumes "one_line a" and "\<not> looks_special (a @ CRLF @ b)"
  shows "parseRESPValue (bytes_reader (EncodeReply (resp_String (bulk_value (a @ CRLF @ b))) @ t)) =
    Ret (Inr (RESPValue (CHR ''+'') a [] False, bytes_reader (b @ CRLF @ t)))"
proof -
  let ?r = "bytes_reader (CHR ''+'' # a @ CRLF @ (b @ CRLF @ t))"
  have "EncodeReply (resp_String (bulk_value (a @ CRLF @ b))) = CHR ''+'' # a @ CRLF @ b @ CRLF"
    using assms(2) by (simp add: bulk_value_def EncodeReply_plain EncodeSimpleString_def)
  moreover have "parseRESPValue ?r = Ret (Inr (RESPValue (CHR ''+'') a [] False, ?r\<lparr>pending := b @ CRLF @ t\<rparr>))"
    by (rule parse_one_line) (simp_all add: assms(1))
  ultimately show ?thesis by simp
qed

theorem encode_reply_line_break_witness:
  "parseRESPValue (bytes_reader (EncodeReply (resp_String (bulk_value (''a'' @ CRLF @ '':1''))) @ [])) =
    Ret (Inr (RESPValue (CHR ''+'') ''a'' [] False, bytes_reader ('':1'' @ CRLF @ [])))"
  by (rule encode_reply_line_break) (simp_all add: one_line_def looks_special_def HasPrefix_def)

text \<open>
  A bulk string or array header that announces a length the runtime cannot allocate makes the
  parser panic instead of returning an error, whatever follows it; nothing recovers the panic, so
  such bytes in the captured traffic, or from a client of the replay proxy, end the process.
\<close>

theorem resp_length_panics:
  assumes "n < 2 ^ 63" and "maxAlloc < int n" and "k = CHR ''$'' \<or> k = CHR ''*''"
  shows "parseRESPValue (bytes_reader (k # itoa_nat n @ CRLF @ t)) = Panic MakeSliceLen"
  using assms by (rule resp_too_long)

theorem resp_length_panics_witness:
  "parseRESPValue (bytes_reader (CHR ''$'' # itoa_nat 9223372036854775807 @ CRLF @ [])) = Panic MakeSliceLen"
  by (rule resp_length_panics) (simp_all add: maxAlloc_def)

end
