(* ===== verification/Collector.thy ===== *)
theory Collector
  imports GoIO
begin

text \<open>
  \<open>internal/collector\<close>: the event type the kernel programs and the Go side share, the decoding of
  a ring buffer record into it, event payloads and times, the ring buffer read loop, and what is
  read from \<open>/proc\<close>. Attaching and detaching the kernel programs (\<open>New\<close>, \<open>EnableTLS\<close>,
  \<open>Close\<close>) is in theory \<open>Attach\<close>.
\<close>

section \<open>Events\<close>

abbreviation OpConnect :: uint32 where "OpConnect \<equiv> 0"
abbreviation OpRead :: uint32 where "OpRead \<equiv> 1"
abbreviation OpWrite :: uint32 where "OpWrite \<equiv> 2"
abbreviation OpClose :: uint32 where "OpClose \<equiv> 3"
abbreviation OpSSLWrite :: uint32 where "OpSSLWrite \<equiv> 4"
abbreviation OpSSLRead :: uint32 where "OpSSLRead \<equiv> 5"

definition dataCap :: nat where
  "dataCap = 4096"

text \<open>
  The array \<open>Data\<close> has \<open>dataCap\<close> elements; here its length is part of \<open>event_wf\<close>. The two
  blank padding fields carry no data.
\<close>

record event =
  PID :: uint32
  TID :: uint32
  Timestamp :: uint64
  FD :: int32
  Operation :: uint32
  RetVal :: int32
  SSLPtr :: uint64
  RemoteAddr :: uint32
  RemotePort :: uint16
  TotalLen :: uint32
  DataLen :: uint32
  Data :: bytes

definition event_wf :: "event \<Rightarrow> bool" where
  "event_wf e \<longleftrightarrow> length (Data e) = dataCap"

text \<open>\<open>e.Data[:e.DataLen]\<close> panics when the length exceeds the array.\<close>

definition Payload :: "event \<Rightarrow> bytes exec" where
  "Payload e = (if unat (DataLen e) \<le> dataCap then Ret (take (unat (DataLen e)) (Data e))
                else Panic SliceBounds)"

definition Truncated :: "event \<Rightarrow> bool" where
  "Truncated e \<longleftrightarrow> DataLen e < TotalLen e"

text \<open>What an event that the kernel programs can submit captured, and that it is within the array.\<close>

definition captured :: "event \<Rightarrow> bytes" where
  "captured ev = take (unat (DataLen ev)) (Data ev)"

definition data_ok :: "event \<Rightarrow> bool" where
  "data_ok ev \<longleftrightarrow> unat (DataLen ev) \<le> dataCap"

lemma Payload_ok [simp]: "data_ok ev \<Longrightarrow> Payload ev = Ret (captured ev)"
  by (simp add: Payload_def data_ok_def captured_def)

definition FormatIPv4Port :: "uint32 \<Rightarrow> uint16 \<Rightarrow> bytes" where
  "FormatIPv4Port addr port =
     Itoa (uint (ucast addr :: 8 word)) @ ''.'' @
     Itoa (uint (ucast (drop_bit 8 addr) :: 8 word)) @ ''.'' @
     Itoa (uint (ucast (drop_bit 16 addr) :: 8 word)) @ ''.'' @
     Itoa (uint (ucast (drop_bit 24 addr) :: 8 word)) @ '':'' @
     Itoa (uint port)"

definition RemoteAddrString :: "event \<Rightarrow> bytes" where
  "RemoteAddrString e = FormatIPv4Port (RemoteAddr e) (RemotePort e)"

section \<open>Event times\<close>

text \<open>The two clock readings a collector keeps; wall-clock times are nanoseconds.\<close>

record clock_ref =
  monoRefNs :: uint64
  wallRef :: int

definition mono_ns :: "int \<Rightarrow> int \<Rightarrow> uint64" where
  "mono_ns sec nsec = word_of_int sec * 1000000000 + word_of_int nsec"

definition EventTime :: "clock_ref \<Rightarrow> event \<Rightarrow> int" where
  "EventTime c ev = wallRef c + int64 (sint (Timestamp ev) - sint (monoRefNs c))"

section \<open>Ring buffer records\<close>

text \<open>Little-endian integers: value of a byte run, and the bytes of a value.\<close>

primrec le_val :: "bytes \<Rightarrow> nat" where
  "le_val [] = 0"
| "le_val (c # s) = of_char c + 256 * le_val s"

primrec le_bytes :: "nat \<Rightarrow> nat \<Rightarrow> bytes" where
  "le_bytes 0 x = []"
| "le_bytes (Suc n) x = char_of (x mod 256) # le_bytes n (x div 256)"

definition le_field :: "nat \<Rightarrow> nat \<Rightarrow> bytes \<Rightarrow> nat" where
  "le_field off n raw = le_val (take n (drop off raw))"

text \<open>Size of the fixed-size struct \<open>Event\<close> as \<open>binary.Read\<close> counts it, paddings included.\<close>

definition event_size :: nat where
  "event_size = 56 + dataCap"

definition decodeEvent :: "bytes \<Rightarrow> io_error + event" where
  "decodeEvent raw =
     (if raw = [] then Inl EOF
      else if length raw < event_size then Inl UnexpectedEOF
      else Inr \<lparr>PID = of_nat (le_field 0 4 raw), TID = of_nat (le_field 4 4 raw),
                Timestamp = of_nat (le_field 8 8 raw), FD = of_nat (le_field 16 4 raw),
                Operation = of_nat (le_field 20 4 raw), RetVal = of_nat (le_field 24 4 raw),
                SSLPtr = of_nat (le_field 32 8 raw), RemoteAddr = of_nat (le_field 40 4 raw),
                RemotePort = of_nat (le_field 44 2 raw), TotalLen = of_nat (le_field 48 4 raw),
                DataLen = of_nat (le_field 52 4 raw), Data = take dataCap (drop 56 raw)\<rparr>)"

text \<open>
  The record the kernel programs submit: \<open>struct event\<close> of \<open>bpf/types.h\<close> in the C layout of a
  little-endian 64-bit target, with whatever bytes the two alignment gaps hold.
\<close>

definition struct_event :: "event \<Rightarrow> bytes \<Rightarrow> bytes \<Rightarrow> bytes" where
  "struct_event e gap1 gap2 =
     le_bytes 4 (unat (PID e)) @ le_bytes 4 (unat (TID e)) @ le_bytes 8 (unat (Timestamp e)) @
     le_bytes 4 (unat (FD e)) @ le_bytes 4 (unat (Operation e)) @ le_bytes 4 (unat (RetVal e)) @
     gap1 @ le_bytes 8 (unat (SSLPtr e)) @ le_bytes 4 (unat (RemoteAddr e)) @
     le_bytes 2 (unat (RemotePort e)) @ gap2 @ le_bytes 4 (unat (TotalLen e)) @
     le_bytes 4 (unat (DataLen e)) @ Data e"

section \<open>The read loop\<close>

datatype ring_read = RingRecord bytes | RingClosed | RingFailed

datatype collector_error = ReadRingbuf | DecodeEvent io_error

text \<open>
  What one \<open>readLoop\<close> puts on the shared channels, in order, given the results of its
  \<open>rd.Read()\<close> calls: an event (\<^const>\<open>Inl\<close>) or an error (\<^const>\<open>Inr\<close>). At the end of the list the
  loop waits for the next record.
\<close>

fun readLoop :: "ring_read list \<Rightarrow> (event + collector_error) list" where
  "readLoop [] = []"
| "readLoop (RingClosed # rs) = []"
| "readLoop (RingFailed # rs) = [Inr ReadRingbuf]"
| "readLoop (RingRecord raw # rs) =
     (case decodeEvent raw of
        Inl e \<Rightarrow> Inr (DecodeEvent e) # readLoop rs
      | Inr ev \<Rightarrow> Inl ev # readLoop rs)"

text \<open>
  \<open>Collector.Run\<close>: both readers send on the same channels, so what a consumer sees is an
  interleaving of what each of them sends.
\<close>

definition collector_Run :: "bool \<Rightarrow> ring_read list \<Rightarrow> ring_read list \<Rightarrow> (event + collector_error) list set" where
  "collector_Run tlsEnabled rd tlsRd =
     (if tlsEnabled then shuffles (readLoop rd) (readLoop tlsRd) else {readLoop rd})"

section \<open>Reading /proc\<close>

text \<open>A file as far as it is read: its contents, and whether reading fails after them.\<close>

record osfile =
  content :: bytes
  read_fails :: bool

type_synonym filesystem = "bytes \<Rightarrow> osfile option"

definition ReadFile :: "filesystem \<Rightarrow> bytes \<Rightarrow> bytes option" where
  "ReadFile fs path =
     (case fs path of None \<Rightarrow> None | Some f \<Rightarrow> if read_fails f then None else Some (content f))"

definition proc_path :: "uint32 \<Rightarrow> bytes \<Rightarrow> bytes" where
  "proc_path pid name = ''/proc/'' @ Itoa (uint pid) @ ''/'' @ name"

definition Comm :: "filesystem \<Rightarrow> uint32 \<Rightarrow> bytes" where
  "Comm fs pid =
     (case ReadFile fs (proc_path pid ''comm'') of None \<Rightarrow> ''?'' | Some data \<Rightarrow> TrimSpace data)"

text \<open>
  \<open>bufio.Scanner\<close> with its default split: lines without their terminator, up to the first line
  that does not fit the 64 KB buffer; \<open>True\<close> says the scan stopped there.
\<close>

definition maxScanTokenSize :: nat where
  "maxScanTokenSize = 65536"

function scan_lines :: "bytes \<Rightarrow> bytes list \<times> bool" where
  "scan_lines s =
     (if s = [] then ([], False)
      else let line = takeWhile (\<lambda>c. c \<noteq> LF) s in
        if maxScanTokenSize \<le> length line then ([], True)
        else let (ls, long) = scan_lines (drop (Suc (length line)) s) in
          ((if line \<noteq> [] \<and> last line = CR then butlast line else line) # ls, long))"
  by pat_completeness auto
termination scan_lines
  by (relation "measure length") auto

declare scan_lines.simps [simp del]

datatype maps_error = OpenMaps | ReadMaps | NoMappedLibrary

fun find_library :: "bytes \<Rightarrow> bytes list \<Rightarrow> bytes option exec" where
  "find_library substr [] = Ret None"
| "find_library substr (line # ls) =
     (if \<not> Contains line substr then find_library substr ls
      else if Fields line = [] then Panic IndexRange
      else if Contains (last (Fields line)) substr then Ret (Some (last (Fields line)))
      else find_library substr ls)"

definition findMappedLibrary :: "filesystem \<Rightarrow> uint32 \<Rightarrow> bytes \<Rightarrow> (maps_error + bytes) exec" where
  "findMappedLibrary fs pid substr =
     (case fs (proc_path pid ''maps'') of
        None \<Rightarrow> Ret (Inl OpenMaps)
      | Some f \<Rightarrow>
          (case find_library substr (fst (scan_lines (content f))) of
             Panic p \<Rightarrow> Panic p
           | Ret (Some path) \<Rightarrow> Ret (Inr path)
           | Ret None \<Rightarrow>
               Ret (Inl (if snd (scan_lines (content f)) \<or> read_fails f then ReadMaps
                         else NoMappedLibrary))))"

section \<open>Lemmas\<close>

lemma length_le_bytes [simp]: "length (le_bytes n x) = n"
  by (induction n arbitrary: x) auto

lemma le_val_le_bytes: "le_val (le_bytes n x) = x mod 256 ^ n"
  by (induction n arbitrary: x) (auto simp: mod_mult2_eq)

lemma of_nat_unat_mod: "2 ^ LENGTH('a) = m \<Longrightarrow> of_nat (unat (w :: 'a::len word) mod m) = w"
  using unsigned_less [of w, where 'a = nat] by auto

lemma int64_sint_diff:
  fixes v w :: uint64
  assumes "\<bar>uint v - uint w\<bar> < 2 ^ 63"
  shows "int64 (sint v - sint w) = uint v - uint w"
proof -
  have cong: "sint x mod 2 ^ 64 = uint x mod 2 ^ 64" for x :: uint64
    by (subst uint_sint) (simp add: take_bit_eq_mod)
  have "int64 (sint v - sint w) = int64 (uint v - uint w)"
    unfolding int64_def by (simp only: mod_add_cong [OF mod_diff_cong [OF cong cong] refl])
  then show ?thesis using assms by simp
qed

lemma length_struct_event:
  assumes "event_wf e" and "length gap1 = 4" and "length gap2 = 2"
  shows "length (struct_event e gap1 gap2) = event_size"
  using assms by (simp add: struct_event_def event_size_def event_wf_def)

lemma decode_struct_event:
  assumes wf: "event_wf e" and g1: "length gap1 = 4" and g2: "length gap2 = 2"
  shows "decodeEvent (struct_event e gap1 gap2 @ extra) = Inr e"
proof -
  let ?raw = "struct_event e gap1 gap2 @ extra"
  note unf = struct_event_def le_field_def le_val_le_bytes g1 g2 of_nat_unat_mod
  have "?raw \<noteq> []" and "\<not> length ?raw < event_size"
    using length_struct_event [OF assms] by (auto simp: event_size_def)
  moreover have "of_nat (le_field 0 4 ?raw) = PID e" "of_nat (le_field 4 4 ?raw) = TID e"
    "of_nat (le_field 8 8 ?raw) = Timestamp e" "of_nat (le_field 16 4 ?raw) = FD e"
    "of_nat (le_field 20 4 ?raw) = Operation e" "of_nat (le_field 24 4 ?raw) = RetVal e"
    "of_nat (le_field 32 8 ?raw) = SSLPtr e" "of_nat (le_field 40 4 ?raw) = RemoteAddr e"
    "of_nat (le_field 44 2 ?raw) = RemotePort e" "of_nat (le_field 48 4 ?raw) = TotalLen e"
    "of_nat (le_field 52 4 ?raw) = DataLen e" "take dataCap (drop 56 ?raw) = Data e"
    using wf by (simp_all add: unf event_wf_def)
  ultimately show ?thesis by (simp add: decodeEvent_def)
qed

definition decodes :: "(bytes \<times> event) list \<Rightarrow> bool" where
  "decodes recs \<longleftrightarrow> list_all (\<lambda>(raw, ev). decodeEvent raw = Inr ev) recs"

lemma readLoop_records:
  "decodes recs \<Longrightarrow>
     readLoop (map (RingRecord \<circ> fst) recs @ rs) = map (Inl \<circ> snd) recs @ readLoop rs"
  by (induction recs) (auto simp: decodes_def)

lemma find_library_returns:
  "\<not> set substr \<subseteq> space_bytes \<Longrightarrow> returns (find_library substr ls)"
  by (induction ls) (auto dest: Fields_Contains)

lemma find_library_Some:
  "find_library substr ls = Ret (Some path) \<Longrightarrow>
     \<exists>line \<in> set ls. Contains line substr \<and> path = last (Fields line) \<and> Contains path substr"
  by (induction ls) (auto split: if_splits)

lemma find_library_None:
  "find_library substr ls = Ret None \<Longrightarrow>
     \<forall>line \<in> set ls. \<not> (Contains line substr \<and> Contains (last (Fields line)) substr)"
  by (induction ls) (auto split: if_splits)

lemma libssl_not_space: "\<not> set ''libssl.so'' \<subseteq> space_bytes"
proof -
  have "CHR ''l'' \<notin> space_bytes"
    by (simp add: space_bytes_def space_seqs_def space_runes_def encode_rune_def encode_rune_vals_def
        char_of_def)
  then show ?thesis by (metis list.set_intros(1) subsetD)
qed

section \<open>Properties\<close>

text \<open>
  Decoding a ring buffer record gives back exactly the event the kernel program put into
  \<open>struct event\<close>: the field offsets of the Go struct, paddings included, agree with the C layout.
  A shorter record is an error, never an event.
\<close>

theorem decode_event_layout:
  assumes "event_wf e" and "length gap1 = 4" and "length gap2 = 2"
  shows "decodeEvent (struct_event e gap1 gap2 @ extra) = Inr e \<and>
    (\<forall>n < event_size. \<exists>err. decodeEvent (take n (struct_event e gap1 gap2)) = Inl err)"
  using decode_struct_event [OF assms] length_struct_event [OF assms]
  by (auto simp: decodeEvent_def)

definition sample_event :: event where
  "sample_event = \<lparr>PID = 7, TID = 8, Timestamp = 9, FD = -1, Operation = OpSSLRead, RetVal = 3,
     SSLPtr = 0xdeadbeef, RemoteAddr = 0, RemotePort = 0, TotalLen = 3, DataLen = 3,
     Data = ''abc'' @ replicate 4093 (CHR 0x00)\<rparr>"

theorem decode_event_layout_witness:
  "decodeEvent (struct_event sample_event ''wxyz'' ''pq'' @ []) = Inr sample_event \<and>
    (\<exists>err. decodeEvent (take 4151 (struct_event sample_event ''wxyz'' ''pq'')) = Inl err)"
  using decode_event_layout [of sample_event "''wxyz''" "''pq''" "[]"]
  by (simp add: event_wf_def sample_event_def dataCap_def event_size_def)

text \<open>
  The read loop reports every decodable record as one event, in order, and stops without an
  error when the ring buffer is closed; a record that does not decode costs one error and nothing
  else.
\<close>

theorem read_loop_in_order:
  assumes "decodes recs" and "decodes recs'" and "decodeEvent bad = Inl err"
  shows "readLoop (map (RingRecord \<circ> fst) recs @ RingRecord bad # map (RingRecord \<circ> fst) recs' @ [RingClosed]) =
    map (Inl \<circ> snd) recs @ Inr (DecodeEvent err) # map (Inl \<circ> snd) recs'"
  using assms by (simp add: readLoop_records)

definition sample_record :: "bytes \<times> event" where
  "sample_record = (struct_event sample_event ''wxyz'' ''pq'', sample_event)"

theorem read_loop_in_order_witness:
  "readLoop [RingRecord (fst sample_record), RingRecord ''x'', RingRecord (fst sample_record), RingClosed] =
    [Inl sample_event, Inr (DecodeEvent UnexpectedEOF), Inl sample_event]"
proof -
  have "decodes [sample_record]"
    using decode_struct_event [of sample_event "''wxyz''" "''pq''" "[]"]
    by (simp add: sample_record_def decodes_def event_wf_def sample_event_def dataCap_def)
  moreover have "decodeEvent ''x'' = Inl UnexpectedEOF"
    by (simp add: decodeEvent_def event_size_def)
  ultimately show ?thesis
    using read_loop_in_order [of "[sample_record]" "[sample_record]" "''x''" UnexpectedEOF]
    by (simp add: sample_record_def)
qed

text \<open>
  An event's wall-clock time is the reference wall time shifted by the monotonic difference,
  for events before as well as after the reference, as long as the difference fits 63 bits: the
  conversions of the two unsigned clock values to signed ones, and their difference, do not lose it.
\<close>

theorem event_time_exact:
  assumes "\<bar>uint (Timestamp ev) - uint (monoRefNs c)\<bar> < 2 ^ 63"
  shows "EventTime c ev = wallRef c + (uint (Timestamp ev) - uint (monoRefNs c))"
  using assms by (simp add: EventTime_def int64_sint_diff)

theorem event_time_exact_witness:
  "EventTime \<lparr>monoRefNs = 20, wallRef = 1000\<rparr> sample_event = 989"
  using event_time_exact [of sample_event "\<lparr>monoRefNs = 20, wallRef = 1000\<rparr>"]
  by (simp add: sample_event_def)

text \<open>
  The search for a mapped OpenSSL library always returns, and a path it returns is the last
  field of a line of \<open>/proc/<pid>/maps\<close> and contains the name searched for; it reports that no
  library is mapped only when the whole file was read and no line has such a path.
\<close>

theorem find_mapped_library:
  assumes "\<not> set substr \<subseteq> space_bytes"
  shows "\<exists>r. findMappedLibrary fs pid substr = Ret r \<and>
    (case r of
       Inl OpenMaps \<Rightarrow> fs (proc_path pid ''maps'') = None
     | Inl ReadMaps \<Rightarrow> \<exists>f. fs (proc_path pid ''maps'') = Some f \<and>
         (read_fails f \<or> snd (scan_lines (content f)))
     | Inl NoMappedLibrary \<Rightarrow> \<exists>f. fs (proc_path pid ''maps'') = Some f \<and> \<not> read_fails f \<and>
         \<not> snd (scan_lines (content f)) \<and>
         (\<forall>line \<in> set (fst (scan_lines (content f))).
            \<not> (Contains line substr \<and> Contains (last (Fields line)) substr))
     | Inr path \<Rightarrow> \<exists>f. fs (proc_path pid ''maps'') = Some f \<and>
         (\<exists>line \<in> set (fst (scan_lines (content f))). path = last (Fields line)) \<and> Contains path substr)"
proof (cases "fs (proc_path pid ''maps'')")
  case None
  then show ?thesis by (simp add: findMappedLibrary_def)
next
  case (Some f)
  obtain r where r: "find_library substr (fst (scan_lines (content f))) = Ret r"
    using find_library_returns [OF assms] by (auto simp: returns_iff)
  show ?thesis
    using Some r find_library_None [of substr] find_library_Some [of substr]
    by (cases r) (fastforce simp: findMappedLibrary_def)+
qed

definition sample_maps :: osfile where
  "sample_maps = \<lparr>content = ''7f-80 r-xp 0 08:01 5 /lib/libssl.so.3'' @ [LF], read_fails = False\<rparr>"

theorem find_mapped_library_witness:
  "\<exists>r. findMappedLibrary (\<lambda>p. if p = ''/proc/7/maps'' then Some sample_maps else None) 7 ''libssl.so'' = Ret r"
  using find_mapped_library [of "''libssl.so''" "\<lambda>p. if p = ''/proc/7/maps'' then Some sample_maps else None" 7]
  using libssl_not_space by blast

end
