(* ===== verification/Http.thy ===== *)
theory Http
  imports GoIO
begin

text \<open>
  \<open>internal/decoder/http.go\<close>: sniffing a pair of captured buffers for an HTTP request and its
  response. The parsers themselves are \<open>http.ReadRequest\<close> and \<open>http.ReadResponse\<close> of Go's
  \<open>net/http\<close>; they are parameters of the model (a record \<open>http_lib\<close>).
\<close>

section \<open>The parsers of net/http\<close>

text \<open>
  Of a parsed message the sources use the method, the path and the status code, and they read its
  body to the end, keeping whatever the body delivers before its end or an error; \<open>reqBody\<close> and
  \<open>respBody\<close> are those bytes. A parser reports an error (with a text) or a message.
\<close>

record http_request =
  Method :: bytes
  URLPath :: bytes
  reqBody :: bytes

record http_response =
  StatusCode :: int
  respBody :: bytes

record http_lib =
  ReadRequest :: "bytes \<Rightarrow> bytes + http_request"
  ReadResponse :: "bytes \<Rightarrow> http_request option \<Rightarrow> bytes + http_response"

section \<open>Exchanges\<close>

record HTTPExchange =
  Request :: "http_request option"
  RequestBody :: bytes
  Response :: "http_response option"
  ResponseBody :: bytes

definition parseRequest :: "http_lib \<Rightarrow> bytes \<Rightarrow> http_request option" where
  "parseRequest H buf = (case ReadRequest H buf of Inl err \<Rightarrow> None | Inr req \<Rightarrow> Some req)"

definition parseResponse :: "http_lib \<Rightarrow> bytes \<Rightarrow> http_request option \<Rightarrow> http_response option" where
  "parseResponse H buf req = (case ReadResponse H buf req of Inl err \<Rightarrow> None | Inr resp \<Rightarrow> Some resp)"

definition noExchange :: HTTPExchange where
  "noExchange = \<lparr>Request = None, RequestBody = [], Response = None, ResponseBody = []\<rparr>"

definition TryHTTP :: "http_lib \<Rightarrow> bytes \<Rightarrow> bytes \<Rightarrow> HTTPExchange \<times> bool" where
  "TryHTTP H readBuf writeBuf =
     (let (req, reqFromRead) =
            (case parseRequest H readBuf of
               Some req \<Rightarrow> (Some req, True)
             | None \<Rightarrow> (parseRequest H writeBuf, False));
          buf = (if reqFromRead then writeBuf else readBuf);
          resp = parseResponse H buf req
      in if req = None \<and> resp = None then (noExchange, False)
         else (\<lparr>Request = req, RequestBody = (case req of None \<Rightarrow> [] | Some q \<Rightarrow> reqBody q),
                Response = resp, ResponseBody = (case resp of None \<Rightarrow> [] | Some p \<Rightarrow> respBody p)\<rparr>, True))"

section \<open>Lemmas\<close>

lemma TryHTTP_server:
  "parseRequest H readBuf = Some req \<Longrightarrow>
     TryHTTP H readBuf writeBuf =
       (\<lparr>Request = Some req, RequestBody = reqBody req, Response = parseResponse H writeBuf (Some req),
         ResponseBody = (case parseResponse H writeBuf (Some req) of None \<Rightarrow> [] | Some p \<Rightarrow> respBody p)\<rparr>, True)"
  by (simp add: TryHTTP_def Let_def)

lemma TryHTTP_client:
  "parseRequest H readBuf = None \<Longrightarrow> parseRequest H writeBuf = Some req \<Longrightarrow>
     TryHTTP H readBuf writeBuf =
       (\<lparr>Request = Some req, RequestBody = reqBody req, Response = parseResponse H readBuf (Some req),
         ResponseBody = (case parseResponse H readBuf (Some req) of None \<Rightarrow> [] | Some p \<Rightarrow> respBody p)\<rparr>, True)"
  by (simp add: TryHTTP_def Let_def)

lemma TryHTTP_no_request:
  "parseRequest H readBuf = None \<Longrightarrow> parseRequest H writeBuf = None \<Longrightarrow>
     snd (TryHTTP H readBuf writeBuf) \<longleftrightarrow> parseResponse H readBuf None \<noteq> None"
  by (simp add: TryHTTP_def Let_def)

lemma TryHTTP_fails:
  "\<not> snd (TryHTTP H readBuf writeBuf) \<longleftrightarrow>
     parseRequest H readBuf = None \<and> parseRequest H writeBuf = None \<and> parseResponse H readBuf None = None"
  by (auto simp: TryHTTP_def Let_def split: option.splits if_splits)

section \<open>Properties\<close>

text \<open>
  Sniffing for HTTP assigns the roles of the two buffers by the request. Whenever one of the
  two buffers parses as a request the sniff succeeds; the exchange then holds that request (of the
  read buffer when both parse: a traced server) with its whole body, and the response is looked for
  in the other buffer only, parsed against that request. A response alone is recognized only when it
  was read.
\<close>

theorem try_http_roles:
  "case (parseRequest H readBuf, parseRequest H writeBuf) of
     (Some req, _) \<Rightarrow>
       \<exists>ex. TryHTTP H readBuf writeBuf = (ex, True) \<and> Request ex = Some req \<and> RequestBody ex = reqBody req \<and>
         Response ex = parseResponse H writeBuf (Some req)
   | (None, Some req) \<Rightarrow>
       \<exists>ex. TryHTTP H readBuf writeBuf = (ex, True) \<and> Request ex = Some req \<and> RequestBody ex = reqBody req \<and>
         Response ex = parseResponse H readBuf (Some req)
   | (None, None) \<Rightarrow>
       (case parseResponse H readBuf None of
          None \<Rightarrow> TryHTTP H readBuf writeBuf = (noExchange, False)
        | Some resp \<Rightarrow> TryHTTP H readBuf writeBuf =
            (\<lparr>Request = None, RequestBody = [], Response = Some resp, ResponseBody = respBody resp\<rparr>, True))"
  by (cases "parseRequest H readBuf"; cases "parseRequest H writeBuf";
      cases "parseResponse H readBuf None") (simp_all add: TryHTTP_def Let_def)

text \<open>
  A traced server whose request was not captured: the response it wrote parses as HTTP, but
  because no request parsed the response is looked for in the read buffer only, so the exchange is
  not recognized. Only one of the two role assignments is tried.
\<close>

theorem try_http_written_response_missed:
  assumes "parseRequest H readBuf = None" and "parseRequest H writeBuf = None"
    and "parseResponse H readBuf None = None" and "parseResponse H writeBuf None = Some resp"
  shows "TryHTTP H readBuf writeBuf = (noExchange, False) \<and> snd (TryHTTP H writeBuf readBuf)"
  using assms by (simp add: TryHTTP_def Let_def)

definition status_line_lib :: http_lib where
  "status_line_lib = \<lparr>ReadRequest = (\<lambda>buf. Inl ''malformed HTTP request''),
     ReadResponse = (\<lambda>buf req. if HasPrefix buf ''HTTP/1.1 200'' then Inr \<lparr>StatusCode = 200, respBody = []\<rparr>
                               else Inl ''malformed HTTP response'')\<rparr>"

theorem try_http_written_response_missed_witness:
  "TryHTTP status_line_lib [] ''HTTP/1.1 200 OK'' = (noExchange, False) \<and>
     snd (TryHTTP status_line_lib ''HTTP/1.1 200 OK'' [])"
  by (rule try_http_written_response_missed [where resp = "\<lparr>StatusCode = 200, respBody = []\<rparr>"])
    (simp_all add: status_line_lib_def parseRequest_def parseResponse_def HasPrefix_def)

end
