(* ===== verification/Stages.thy ===== *)
theory Stages
  imports Prelude
begin

text \<open>
  The shape that the correlator and the streamer share: a goroutine that takes the events of a
  trace one by one, updates its own state and emits results. \<open>run_stage\<close> is the
  \<open>for ev := range events\<close> loop over a given step. A stage that keeps one cell of state per
  connection treats connections independently; the locale \<open>keyed_stage\<close> states what its step has
  to satisfy for that, and proves the independence once for both.
\<close>

section \<open>The event loop\<close>

primrec run_stage :: "('s \<Rightarrow> 'e \<Rightarrow> ('s \<times> 'o list) exec) \<Rightarrow> 's \<Rightarrow> 'e list \<Rightarrow> ('s \<times> 'o list) exec" where
  "run_stage step s [] = Ret (s, [])"
| "run_stage step s (e # es) =
     (case step s e of
        Panic p \<Rightarrow> Panic p
      | Ret (s', os) \<Rightarrow> map_exec_result (\<lambda>(s'', os'). (s'', os @ os')) (run_stage step s' es))"

lemma map_exec_result_Ret_iff [simp]:
  "map_exec_result f m = Ret y \<longleftrightarrow> (\<exists>x. m = Ret x \<and> y = f x)"
  by (cases m) auto

lemma map_exec_result_map: "map_exec_result f (map_exec_result g m) = map_exec_result (\<lambda>x. f (g x)) m"
  by (cases m) auto

lemma run_stage_Cons_Ret:
  "run_stage step s (e # es) = Ret (s', os) \<longleftrightarrow>
     (\<exists>s1 os1 os2. step s e = Ret (s1, os1) \<and> run_stage step s1 es = Ret (s', os2) \<and> os = os1 @ os2)"
  by (auto split: exec.splits)

lemma run_stage_append:
  "run_stage step s (es @ fs) =
     (case run_stage step s es of
        Panic p \<Rightarrow> Panic p
      | Ret (s', os) \<Rightarrow> map_exec_result (\<lambda>(s'', os'). (s'', os @ os')) (run_stage step s' fs))"
proof (induction es arbitrary: s)
  case Nil
  show ?case by (cases "run_stage step s fs") auto
next
  case (Cons e es)
  show ?case
  proof (cases "step s e")
    case (Ret r)
    obtain s1 os1 where r: "r = (s1, os1)" by (cases r)
    show ?thesis
    proof (cases "run_stage step s1 es")
      case (Ret q)
      then show ?thesis
        using \<open>step s e = Ret r\<close> Cons.IH [of s1] r
        by (cases "run_stage step (fst q) fs") (auto split: prod.splits)
    qed (use Ret r Cons.IH [of s1] in simp)
  qed simp
qed

lemma run_stage_append_Ret:
  "run_stage step s (es @ fs) = Ret (s', os) \<longleftrightarrow>
     (\<exists>s1 os1 os2. run_stage step s es = Ret (s1, os1) \<and> run_stage step s1 fs = Ret (s', os2) \<and> os = os1 @ os2)"
  by (auto simp: run_stage_append split: exec.splits)

lemma run_stage_snoc_Ret:
  "run_stage step s (es @ [e]) = Ret (s', os) \<longleftrightarrow>
     (\<exists>s1 os1 os2. run_stage step s es = Ret (s1, os1) \<and> step s1 e = Ret (s', os2) \<and> os = os1 @ os2)"
  unfolding run_stage_append_Ret run_stage_Cons_Ret by simp

lemma run_stage_returns:
  assumes "\<And>s e. P s \<Longrightarrow> e \<in> set es \<Longrightarrow> \<exists>s' os. step s e = Ret (s', os) \<and> P s'" and "P s"
  shows "\<exists>s' os. run_stage step s es = Ret (s', os) \<and> P s'"
  using assms
proof (induction es arbitrary: s)
  case Nil
  then show ?case by simp
next
  case (Cons e es)
  from Cons.prems obtain s1 os1 where 1: "step s e = Ret (s1, os1)" and "P s1"
    by (meson list.set_intros(1))
  with Cons obtain s2 os2 where "run_stage step s1 es = Ret (s2, os2)" and "P s2"
    by (metis list.set_intros(2))
  with 1 show ?case by simp
qed

text \<open>An invariant of the states a stage goes through, with what it says of each result.\<close>

lemma run_stage_invariant:
  assumes step: "\<And>s e s' os. P s \<Longrightarrow> e \<in> set es \<Longrightarrow> step s e = Ret (s', os) \<Longrightarrow> P s' \<and> (\<forall>r \<in> set os. Q r)"
    and "P s" and "run_stage step s es = Ret (s', os)"
  shows "P s' \<and> (\<forall>r \<in> set os. Q r)"
  using assms
proof (induction es arbitrary: s os)
  case Nil
  then show ?case by simp
next
  case (Cons e es)
  from Cons.prems(3) obtain s1 os1 os2 where 1: "step s e = Ret (s1, os1)"
    and 2: "run_stage step s1 es = Ret (s', os2)" and os: "os = os1 @ os2"
    unfolding run_stage_Cons_Ret by blast
  from Cons.prems(1) [OF Cons.prems(2) _ 1] have "P s1" and q1: "\<forall>r \<in> set os1. Q r" by auto
  have "P s' \<and> (\<forall>r \<in> set os2. Q r)"
    by (rule Cons.IH [OF _ \<open>P s1\<close> 2]) (meson Cons.prems(1) list.set_intros(2))
  with q1 os show ?case by auto
qed

section \<open>Stages with one cell per connection\<close>

text \<open>
  \<open>wf\<close> holds of the states that occur, \<open>key e\<close> is the connection an event belongs to, \<open>cell s k\<close> what the state holds for connection
  \<open>k\<close>, \<open>okey\<close> the connection of a result, \<open>view\<close> what of a result is compared, and \<open>local\<close> the
  step of a stage that serves a single connection.
\<close>

locale keyed_stage =
  fixes step :: "'s \<Rightarrow> 'e \<Rightarrow> ('s \<times> 'o list) exec"
    and wf :: "'s \<Rightarrow> bool"
    and key :: "'e \<Rightarrow> 'k option"
    and cell :: "'s \<Rightarrow> 'k \<Rightarrow> 'c"
    and okey :: "'o \<Rightarrow> 'k"
    and view :: "'o \<Rightarrow> 'v"
    and local :: "'c \<Rightarrow> 'e \<Rightarrow> ('c \<times> 'v list) exec"
  assumes wf_step: "wf s \<Longrightarrow> step s e = Ret (s', os) \<Longrightarrow> wf s'"
    and other: "wf s \<Longrightarrow> step s e = Ret (s', os) \<Longrightarrow> key e \<noteq> Some k \<Longrightarrow> cell s' k = cell s k"
    and results: "wf s \<Longrightarrow> step s e = Ret (s', os) \<Longrightarrow> r \<in> set os \<Longrightarrow> key e = Some (okey r)"
    and own: "wf s \<Longrightarrow> step s e = Ret (s', os) \<Longrightarrow> key e = Some k \<Longrightarrow>
      local (cell s k) e = Ret (cell s' k, map view os)"
    and own_panic: "wf s \<Longrightarrow> step s e = Panic p \<Longrightarrow> \<exists>k. key e = Some k \<and> local (cell s k) e = Panic p"
begin

lemma wf_run: "wf s \<Longrightarrow> run_stage step s es = Ret (s', os) \<Longrightarrow> wf s'"
  using run_stage_invariant [of wf es step "\<lambda>_. True" s s' os] wf_step by blast

lemma filter_results:
  assumes "wf s" and "step s e = Ret (s', os)"
  shows "filter (\<lambda>r. okey r = k) os = (if key e = Some k then os else [])"
proof (cases "key e = Some k")
  case True
  then show ?thesis using results [OF assms] by (auto simp: filter_id_conv)
next
  case False
  then show ?thesis using results [OF assms] by (auto simp: filter_empty_conv)
qed

lemma independence:
  assumes "wf s" and "run_stage step s es = Ret (s', os)"
  shows "run_stage local (cell s k) (filter (\<lambda>e. key e = Some k) es) =
    Ret (cell s' k, map view (filter (\<lambda>r. okey r = k) os))"
  using assms
proof (induction es arbitrary: s os)
  case Nil
  then show ?case by simp
next
  case (Cons e es)
  then obtain s1 os1 os2 where 1: "step s e = Ret (s1, os1)"
    and 2: "run_stage step s1 es = Ret (s', os2)" and os: "os = os1 @ os2"
    unfolding run_stage_Cons_Ret by blast
  note Cons.IH [OF wf_step [OF Cons.prems(1) 1] 2]
  then show ?case
    using own [OF Cons.prems(1) 1] other [OF Cons.prems(1) 1] filter_results [OF Cons.prems(1) 1] os by auto
qed

lemma panics_locally:
  assumes "wf s" and "run_stage step s es = Panic p"
  shows "\<exists>k. run_stage local (cell s k) (filter (\<lambda>e. key e = Some k) es) = Panic p"
  using assms
proof (induction es arbitrary: s)
  case Nil
  then show ?case by simp
next
  case (Cons e es)
  show ?case
  proof (cases "step s e")
    case (Panic q)
    with Cons.prems have "step s e = Panic p" by simp
    then obtain k where "key e = Some k" and "local (cell s k) e = Panic p"
      using own_panic Cons.prems(1) by blast
    then show ?thesis by (intro exI [of _ k]) simp
  next
    case (Ret r)
    then obtain s1 os1 where 1: "step s e = Ret (s1, os1)" by (cases r) simp
    with Cons.prems have "run_stage step s1 es = Panic p"
      by (cases "run_stage step s1 es") auto
    from Cons.IH [OF wf_step [OF Cons.prems(1) 1] this] obtain k
      where "run_stage local (cell s1 k) (filter (\<lambda>e. key e = Some k) es) = Panic p" by blast
    then show ?thesis
      using own [OF Cons.prems(1) 1, of k] other [OF Cons.prems(1) 1, of k] by (intro exI [of _ k]) auto
  qed
qed

end

end
