(* ===== verification/Streamer.thy ===== *)
theory Streamer
  imports Collector Http Wire Stages "HOL-Library.Product_Lexorder"
begin

text \<open>
  \<open>internal/streamer\<close>: the byte streams of every connection, assembled from the events, and their
  decoding as HTTP or Redis traffic when the connection closes or the trace ends. \<open>H\<close> and \<open>U\<close> are
  the parameters of the two decoders (the parsers of \<open>net/http\<close>, Go's Unicode tables).
\<close>

section \<open>Definitions\<close>

datatype Protocol = ProtocolUnknown | ProtocolHTTP | ProtocolRedis

record Exchange =
  exPID :: uint32
  exFD :: int32
  exProtocol :: Protocol
  exHTTP :: "HTTPExchange option"
  exRedis :: "RedisCall list"
  exTruncated :: bool

definition decode ::
  "http_lib \<Rightarrow> unicode_tables \<Rightarrow> uint32 \<Rightarrow> int32 \<Rightarrow> bytes \<Rightarrow> bytes \<Rightarrow> bool \<Rightarrow> (Exchange \<times> bool) exec" where
  "decode H U pid fd readBuf writeBuf truncated =
     (let ex = \<lparr>exPID = pid, exFD = fd, exProtocol = ProtocolUnknown, exHTTP = None, exRedis = [],
                exTruncated = truncated\<rparr> in
      case TryHTTP H readBuf writeBuf of
        (httpEx, True) \<Rightarrow> Ret (ex\<lparr>exProtocol := ProtocolHTTP, exHTTP := Some httpEx\<rparr>, True)
      | (_, False) \<Rightarrow>
          (case TryRESP U writeBuf readBuf of
             Panic p \<Rightarrow> Panic p
           | Ret (calls, True) \<Rightarrow> Ret (ex\<lparr>exProtocol := ProtocolRedis, exRedis := calls\<rparr>, True)
           | Ret (_, False) \<Rightarrow> Ret (ex, False)))"

definition bufCap :: nat where
  "bufCap = 64 * 1024"

datatype connKind = connFD | connTLS

datatype stream_key = StreamKey (kpid: uint32) (kkind: connKind) (kid: uint64)

record connBufs =
  bufRead :: bytes
  bufWrite :: bytes
  bufTruncated :: bool

definition appendCapped :: "bytes \<Rightarrow> bytes \<Rightarrow> bytes" where
  "appendCapped dst add =
     (if bufCap \<le> length dst then dst
      else let room = bufCap - length dst
           in dst @ (if room < length add then take room add else add))"

type_synonym stream_bufs = "stream_key \<rightharpoonup> connBufs"

text \<open>\<open>get\<close>: the buffers of a connection, empty ones when it has none yet.\<close>

definition get_bufs :: "connBufs option \<Rightarrow> connBufs" where
  "get_bufs m = (case m of None \<Rightarrow> \<lparr>bufRead = [], bufWrite = [], bufTruncated = False\<rparr> | Some b \<Rightarrow> b)"

text \<open>The first \<open>switch\<close> of the loop; \<^const>\<open>None\<close> where it continues with the next event.\<close>

definition stream_key_of :: "event \<Rightarrow> stream_key option" where
  "stream_key_of ev =
     (if Operation ev = OpRead \<or> Operation ev = OpWrite \<or> Operation ev = OpClose
      then Some (StreamKey (PID ev) connFD (ucast (FD ev)))
      else if Operation ev = OpSSLRead \<or> Operation ev = OpSSLWrite
      then Some (StreamKey (PID ev) connTLS (SSLPtr ev))
      else None)"

definition streamer_step ::
  "http_lib \<Rightarrow> unicode_tables \<Rightarrow> stream_bufs \<Rightarrow> event \<Rightarrow> (stream_bufs \<times> Exchange list) exec" where
  "streamer_step H U bufs ev =
     (case stream_key_of ev of
        None \<Rightarrow> Ret (bufs, [])
      | Some k \<Rightarrow>
          if Operation ev = OpRead \<or> Operation ev = OpSSLRead then
            (case Payload ev of
               Panic p \<Rightarrow> Panic p
             | Ret payload \<Rightarrow>
                 let b = get_bufs (bufs k) in
                 Ret (bufs(k \<mapsto> b\<lparr>bufRead := appendCapped (bufRead b) payload,
                               bufTruncated := bufTruncated b \<or> Truncated ev\<rparr>), []))
          else if Operation ev = OpWrite \<or> Operation ev = OpSSLWrite then
            (case Payload ev of
               Panic p \<Rightarrow> Panic p
             | Ret payload \<Rightarrow>
                 let b = get_bufs (bufs k) in
                 Ret (bufs(k \<mapsto> b\<lparr>bufWrite := appendCapped (bufWrite b) payload,
                               bufTruncated := bufTruncated b \<or> Truncated ev\<rparr>), []))
          else
            (case bufs k of
               None \<Rightarrow> Ret (bufs, [])
             | Some b \<Rightarrow>
                 (case decode H U (PID ev) (FD ev) (bufRead b) (bufWrite b) (bufTruncated b) of
                    Panic p \<Rightarrow> Panic p
                  | Ret (ex, ok) \<Rightarrow> Ret (bufs(k := None), if ok then [ex] else []))))"

text \<open>
  The loop over what is left when the trace ends, for the connections in the order \<open>ks\<close> in which
  the runtime iterates the map.
\<close>

definition flush_fd :: "stream_key \<Rightarrow> int32" where
  "flush_fd k = (if kkind k = connFD then ucast (kid k) else -1)"

primrec streamer_flush ::
  "http_lib \<Rightarrow> unicode_tables \<Rightarrow> stream_bufs \<Rightarrow> stream_key list \<Rightarrow> Exchange list exec" where
  "streamer_flush H U bufs [] = Ret []"
| "streamer_flush H U bufs (k # ks) =
     (case bufs k of
        None \<Rightarrow> streamer_flush H U bufs ks
      | Some b \<Rightarrow>
          (case decode H U (kpid k) (flush_fd k) (bufRead b) (bufWrite b) (bufTruncated b) of
             Panic p \<Rightarrow> Panic p
           | Ret (ex, ok) \<Rightarrow>
               map_exec_result (\<lambda>exs. if ok then ex # exs else exs) (streamer_flush H U bufs ks)))"

text \<open>
  \<open>Run\<close> over a whole trace: the events unchanged, and the exchanges. \<open>ord\<close> is the iteration order
  of Go's maps, which the language leaves open: some enumeration of the keys without repetition.
\<close>

definition streamer_Run ::
  "http_lib \<Rightarrow> unicode_tables \<Rightarrow> (stream_bufs \<Rightarrow> stream_key list) \<Rightarrow> event list \<Rightarrow> (event list \<times> Exchange list) exec" where
  "streamer_Run H U ord events =
     (case run_stage (streamer_step H U) Map.empty events of
        Panic p \<Rightarrow> Panic p
      | Ret (bufs, exs) \<Rightarrow>
          map_exec_result (\<lambda>exs'. (events, exs @ exs')) (streamer_flush H U bufs (ord bufs)))"

definition map_order :: "(stream_bufs \<Rightarrow> stream_key list) \<Rightarrow> bool" where
  "map_order ord \<longleftrightarrow> (\<forall>m. finite (dom m) \<longrightarrow> distinct (ord m) \<and> set (ord m) = dom m)"

section \<open>Connections are independent\<close>

text \<open>A concrete order of the keys, so that one possible iteration order can be written down.\<close>

instantiation connKind :: linorder
begin

definition less_eq_connKind :: "connKind \<Rightarrow> connKind \<Rightarrow> bool" where
  "less_eq_connKind a b \<longleftrightarrow> a = connFD \<or> b = connTLS"

definition less_connKind :: "connKind \<Rightarrow> connKind \<Rightarrow> bool" where
  "less_connKind a b \<longleftrightarrow> a = connFD \<and> b = connTLS"

instance
proof
  fix a b c :: connKind
  show "(a < b) = (a \<le> b \<and> \<not> b \<le> a)" by (cases a; cases b) (simp_all add: less_eq_connKind_def less_connKind_def)
  show "a \<le> a" by (cases a) (simp_all add: less_eq_connKind_def)
  show "a \<le> b \<Longrightarrow> b \<le> c \<Longrightarrow> a \<le> c" by (cases a; cases b; cases c) (simp_all add: less_eq_connKind_def)
  show "a \<le> b \<Longrightarrow> b \<le> a \<Longrightarrow> a = b" by (cases a; cases b) (simp_all add: less_eq_connKind_def)
  show "a \<le> b \<or> b \<le> a" by (cases a; cases b) (simp_all add: less_eq_connKind_def)
qed

end

definition key_tuple :: "stream_key \<Rightarrow> uint32 \<times> connKind \<times> uint64" where
  "key_tuple k = (kpid k, kkind k, kid k)"

instantiation stream_key :: linorder
begin

definition less_eq_stream_key :: "stream_key \<Rightarrow> stream_key \<Rightarrow> bool" where
  "less_eq_stream_key a b \<longleftrightarrow> key_tuple a \<le> key_tuple b"

definition less_stream_key :: "stream_key \<Rightarrow> stream_key \<Rightarrow> bool" where
  "less_stream_key a b \<longleftrightarrow> key_tuple a < key_tuple b"

instance
proof
  fix a b c :: stream_key
  have inj: "key_tuple a = key_tuple b \<Longrightarrow> a = b"
    by (cases a; cases b) (simp add: key_tuple_def)
  show "(a < b) = (a \<le> b \<and> \<not> b \<le> a)" by (auto simp: less_eq_stream_key_def less_stream_key_def)
  show "a \<le> a" by (simp add: less_eq_stream_key_def)
  show "a \<le> b \<Longrightarrow> b \<le> c \<Longrightarrow> a \<le> c" unfolding less_eq_stream_key_def by (rule order_trans)
  show "a \<le> b \<Longrightarrow> b \<le> a \<Longrightarrow> a = b" unfolding less_eq_stream_key_def by (rule inj) (rule order_antisym)
  show "a \<le> b \<or> b \<le> a" unfolding less_eq_stream_key_def by (rule linear)
qed

end

definition sorted_order :: "stream_bufs \<Rightarrow> stream_key list" where
  "sorted_order m = sorted_list_of_set (dom m)"

lemma map_order_sorted: "map_order sorted_order"
  by (simp add: map_order_def sorted_order_def)

definition exchange_key :: "Exchange \<Rightarrow> stream_key" where
  "exchange_key ex = StreamKey (exPID ex) connFD (ucast (exFD ex))"

text \<open>The streamer for a single connection.\<close>

definition stream_local ::
  "http_lib \<Rightarrow> unicode_tables \<Rightarrow> connBufs option \<Rightarrow> event \<Rightarrow> (connBufs option \<times> Exchange list) exec" where
  "stream_local H U m ev =
     (if Operation ev = OpRead \<or> Operation ev = OpSSLRead then
        map_exec_result (\<lambda>payload. let b = get_bufs m in
          (Some (b\<lparr>bufRead := appendCapped (bufRead b) payload,
                  bufTruncated := bufTruncated b \<or> Truncated ev\<rparr>), [])) (Payload ev)
      else if Operation ev = OpWrite \<or> Operation ev = OpSSLWrite then
        map_exec_result (\<lambda>payload. let b = get_bufs m in
          (Some (b\<lparr>bufWrite := appendCapped (bufWrite b) payload,
                  bufTruncated := bufTruncated b \<or> Truncated ev\<rparr>), [])) (Payload ev)
      else case m of
        None \<Rightarrow> Ret (None, [])
      | Some b \<Rightarrow> map_exec_result (\<lambda>(ex, ok). (None, if ok then [ex] else []))
          (decode H U (PID ev) (FD ev) (bufRead b) (bufWrite b) (bufTruncated b)))"

lemma decode_ids:
  "decode H U pid fd r w t = Ret (ex, ok) \<Longrightarrow> exPID ex = pid \<and> exFD ex = fd \<and> exTruncated ex = t"
  by (auto simp: decode_def Let_def split: prod.splits bool.splits exec.splits)

lemma streamer_step_local:
  "streamer_step H U bufs ev =
     (case stream_key_of ev of
        None \<Rightarrow> Ret (bufs, [])
      | Some k \<Rightarrow> map_exec_result (\<lambda>(m, exs). (bufs(k := m), exs)) (stream_local H U (bufs k) ev))"
proof (cases "stream_key_of ev")
  case None
  then show ?thesis by (simp add: streamer_step_def)
next
  case (Some k)
  have "bufs k = None \<Longrightarrow> bufs(k := None) = bufs" by (rule fun_upd_idem)
  with Some show ?thesis
    by (simp add: streamer_step_def stream_local_def Let_def split: exec.splits option.splits)
qed

lemma stream_local_close:
  "Operation ev = OpClose \<Longrightarrow>
     stream_local H U m ev =
       (case m of None \<Rightarrow> Ret (None, [])
        | Some b \<Rightarrow> map_exec_result (\<lambda>(ex, ok). (None, if ok then [ex] else []))
            (decode H U (PID ev) (FD ev) (bufRead b) (bufWrite b) (bufTruncated b)))"
  by (simp add: stream_local_def)

lemma stream_local_results:
  assumes "stream_local H U m ev = Ret (m', exs)" and "ex \<in> set exs" and "stream_key_of ev = Some k"
  shows "Operation ev = OpClose \<and> exchange_key ex = k"
proof -
  have op: "Operation ev = OpClose"
    using assms by (auto simp: stream_local_def stream_key_of_def Let_def split: if_splits)
  then obtain b where "m = Some b"
    and "decode H U (PID ev) (FD ev) (bufRead b) (bufWrite b) (bufTruncated b) = Ret (ex, True)"
    using assms(1,2) by (cases m) (auto simp: stream_local_close split: if_splits)
  from decode_ids [OF this(2)] op assms(3) show ?thesis
    by (simp add: stream_key_of_def exchange_key_def)
qed

interpretation streamer: keyed_stage "streamer_step H U" "\<lambda>_. True" stream_key_of "\<lambda>bufs k. bufs k"
  exchange_key id "stream_local H U" for H U
proof (unfold_locales, goal_cases)
  case (2 s ev s' os k)
  then show ?case by (auto simp: streamer_step_local split: option.splits)
next
  case (3 s ev s' os r)
  then show ?case by (auto simp: streamer_step_local split: option.splits dest: stream_local_results)
next
  case (4 s ev s' os k)
  then show ?case by (auto simp: streamer_step_local)
next
  case (5 s ev p)
  then show ?case
    by (cases "stream_key_of ev"; cases "stream_local H U (s (the (stream_key_of ev))) ev")
      (auto simp: streamer_step_local)
qed simp

section \<open>What the buffers hold\<close>

definition is_read :: "event \<Rightarrow> bool" where
  "is_read ev \<longleftrightarrow> Operation ev = OpRead \<or> Operation ev = OpSSLRead"

definition is_write :: "event \<Rightarrow> bool" where
  "is_write ev \<longleftrightarrow> Operation ev = OpWrite \<or> Operation ev = OpSSLWrite"

text \<open>
  The reference for one connection: per direction the first \<open>bufCap\<close> bytes of everything captured,
  in order, and whether some event's data was cut short.
\<close>

definition assembled :: "event list \<Rightarrow> connBufs" where
  "assembled evs =
     \<lparr>bufRead = take bufCap (concat (map captured (filter is_read evs))),
      bufWrite = take bufCap (concat (map captured (filter is_write evs))),
      bufTruncated = list_ex Truncated evs\<rparr>"

lemma appendCapped_take: "appendCapped (take bufCap xs) ys = take bufCap (xs @ ys)"
  by (auto simp: appendCapped_def Let_def min_def)

lemma appendCapped_length: "length dst \<le> bufCap \<Longrightarrow> length (appendCapped dst add) \<le> bufCap"
  by (auto simp: appendCapped_def Let_def)

lemma get_bufs_assembled: "get_bufs (if evs = [] then None else Some (assembled evs)) = assembled evs"
  by (simp add: get_bufs_def assembled_def)

lemma is_read_write: "is_read ev \<Longrightarrow> \<not> is_write ev"
  by (auto simp: is_read_def is_write_def)

lemma assembled_snoc_read:
  "is_read ev \<Longrightarrow> assembled (evs @ [ev]) = (assembled evs)
     \<lparr>bufRead := appendCapped (bufRead (assembled evs)) (captured ev),
      bufTruncated := bufTruncated (assembled evs) \<or> Truncated ev\<rparr>"
  using is_read_write by (auto simp: assembled_def appendCapped_take)

lemma assembled_snoc_write:
  "is_write ev \<Longrightarrow> assembled (evs @ [ev]) = (assembled evs)
     \<lparr>bufWrite := appendCapped (bufWrite (assembled evs)) (captured ev),
      bufTruncated := bufTruncated (assembled evs) \<or> Truncated ev\<rparr>"
  using is_read_write by (auto simp: assembled_def appendCapped_take)

lemma stream_local_read:
  "is_read ev \<Longrightarrow> data_ok ev \<Longrightarrow> stream_local H U m ev =
     Ret (Some ((get_bufs m)\<lparr>bufRead := appendCapped (bufRead (get_bufs m)) (captured ev),
       bufTruncated := bufTruncated (get_bufs m) \<or> Truncated ev\<rparr>), [])"
  by (auto simp: stream_local_def is_read_def Let_def)

lemma stream_local_write:
  "is_write ev \<Longrightarrow> data_ok ev \<Longrightarrow> stream_local H U m ev =
     Ret (Some ((get_bufs m)\<lparr>bufWrite := appendCapped (bufWrite (get_bufs m)) (captured ev),
       bufTruncated := bufTruncated (get_bufs m) \<or> Truncated ev\<rparr>), [])"
  by (auto simp: stream_local_def is_write_def Let_def)

lemma stream_local_assembles:
  assumes "\<forall>ev \<in> set evs. data_ok ev \<and> (is_read ev \<or> is_write ev)"
  shows "run_stage (stream_local H U) None evs = Ret (if evs = [] then None else Some (assembled evs), [])"
  using assms
proof (induction evs rule: rev_induct)
  case Nil
  then show ?case by simp
next
  case (snoc ev evs)
  then have "run_stage (stream_local H U) None evs = Ret (if evs = [] then None else Some (assembled evs), [])"
    by simp
  moreover have "stream_local H U (if evs = [] then None else Some (assembled evs)) ev =
      Ret (Some (assembled (evs @ [ev])), [])"
  proof -
    from snoc.prems have "data_ok ev" and "is_read ev \<or> is_write ev" by simp_all
    then show ?thesis
      by (elim disjE) (simp_all only: stream_local_read stream_local_write get_bufs_assembled
          assembled_snoc_read assembled_snoc_write)
  qed
  ultimately show ?case by (simp add: run_stage_append)
qed

lemma stream_local_after_close:
  assumes "run_stage (stream_local H U) m evs = Ret (m', exs)"
    and "evs \<noteq> [] \<and> Operation (last evs) = OpClose"
  shows "m' = None"
proof -
  have "evs = butlast evs @ [last evs]" using assms(2) by simp
  with assms(1) obtain m1 exs1 exs2 where "stream_local H U m1 (last evs) = Ret (m', exs2)"
    by (metis run_stage_snoc_Ret)
  then show ?thesis using assms(2) by (cases m1) (auto simp: stream_local_close)
qed

section \<open>The end of the trace\<close>

text \<open>What a connection that is still buffered contributes.\<close>

definition leftover :: "http_lib \<Rightarrow> unicode_tables \<Rightarrow> stream_key \<Rightarrow> connBufs option \<Rightarrow> Exchange list" where
  "leftover H U k m =
     (case m of
        None \<Rightarrow> []
      | Some b \<Rightarrow>
          (case decode H U (kpid k) (flush_fd k) (bufRead b) (bufWrite b) (bufTruncated b) of
             Ret (ex, True) \<Rightarrow> [ex]
           | _ \<Rightarrow> []))"

lemma streamer_flush_leftover:
  "streamer_flush H U bufs ks = Ret exs \<Longrightarrow> exs = concat (map (\<lambda>k. leftover H U k (bufs k)) ks)"
  by (induction ks arbitrary: exs)
    (auto simp: leftover_def split: option.splits exec.splits bool.splits)

lemma streamer_finite:
  "run_stage (streamer_step H U) Map.empty evs = Ret (bufs, exs) \<Longrightarrow> finite (dom bufs)"
proof -
  assume run: "run_stage (streamer_step H U) Map.empty evs = Ret (bufs, exs)"
  have "finite (dom bufs) \<and> (\<forall>r \<in> set exs. True)"
  proof (rule run_stage_invariant [where P = "\<lambda>bufs. finite (dom bufs)", OF _ _ run])
    show "finite (dom (Map.empty :: stream_bufs))" by simp
    fix s s' :: stream_bufs and ev os
    assume "finite (dom s)" and "streamer_step H U s ev = Ret (s', os)"
    then show "finite (dom s') \<and> (\<forall>r \<in> set os. True)"
      by (auto simp: streamer_step_local split: option.splits)
  qed
  then show ?thesis ..
qed

section \<open>Exchanges\<close>

text \<open>Exactly one of the two decoded forms is there, the one the protocol says.\<close>

definition exchange_wf :: "Exchange \<Rightarrow> bool" where
  "exchange_wf ex \<longleftrightarrow>
     exProtocol ex = ProtocolHTTP \<and> exHTTP ex \<noteq> None \<and> exRedis ex = [] \<or>
     exProtocol ex = ProtocolRedis \<and> exHTTP ex = None \<and> exRedis ex \<noteq> []"

lemma TryRESP_calls: "TryRESP U w r = Ret (calls, True) \<Longrightarrow> calls \<noteq> []"
  by (auto simp: TryRESP_def Let_def split: exec.splits prod.splits if_splits)

lemma decode_wf: "decode H U pid fd r w t = Ret (ex, True) \<Longrightarrow> exchange_wf ex"
  by (auto simp: decode_def exchange_wf_def Let_def dest: TryRESP_calls
      split: prod.splits bool.splits exec.splits)

lemma stream_local_wf:
  assumes "stream_local H U m ev = Ret (m', exs)" and "stream_key_of ev = Some k"
  shows "\<forall>ex \<in> set exs. exchange_wf ex"
proof
  fix ex assume "ex \<in> set exs"
  from stream_local_results [OF assms(1) this assms(2)] \<open>ex \<in> set exs\<close> assms(1)
  show "exchange_wf ex" by (cases m) (auto simp: stream_local_close decode_wf split: if_splits)
qed

lemma streamer_exchanges_wf:
  assumes "run_stage (streamer_step H U) Map.empty evs = Ret (bufs, exs)"
  shows "\<forall>ex \<in> set exs. exchange_wf ex"
proof -
  have "True \<and> (\<forall>ex \<in> set exs. exchange_wf ex)"
  proof (rule run_stage_invariant [where P = "\<lambda>_. True", OF _ _ assms])
    fix s s' :: stream_bufs and ev os
    assume "streamer_step H U s ev = Ret (s', os)"
    then show "True \<and> (\<forall>ex \<in> set os. exchange_wf ex)"
      by (auto simp: streamer_step_local dest: stream_local_wf split: option.splits)
  qed simp
  then show ?thesis ..
qed

lemma leftover_wf: "\<forall>ex \<in> set (leftover H U k m). exchange_wf ex"
  by (auto simp: leftover_def decode_wf split: option.splits exec.splits bool.splits)

lemma streamer_Run_Ret:
  "streamer_Run H U ord evs = Ret (raw, exs) \<longleftrightarrow>
     (\<exists>bufs closed rest. run_stage (streamer_step H U) Map.empty evs = Ret (bufs, closed) \<and>
        streamer_flush H U bufs (ord bufs) = Ret rest \<and> raw = evs \<and> exs = closed @ rest)"
  by (auto simp: streamer_Run_def split: exec.splits)

section \<open>Properties\<close>

text \<open>
  The identity under which bytes are collected never mixes two connections up: two events feed
  the same buffers exactly when they have the same process and are either both system calls on the
  same descriptor or both TLS calls on the same \<open>SSL\<close> pointer, whatever the numbers; and for system
  calls the descriptor is recovered from the key when the trace ends.
\<close>

theorem stream_keys_do_not_alias:
  "(stream_key_of ev \<noteq> None \<and> stream_key_of ev = stream_key_of ev') \<longleftrightarrow>
     PID ev = PID ev' \<and>
     (Operation ev \<in> {OpRead, OpWrite, OpClose} \<and> Operation ev' \<in> {OpRead, OpWrite, OpClose} \<and>
        FD ev = FD ev' \<and> map_option flush_fd (stream_key_of ev) = Some (FD ev) \<or>
      Operation ev \<in> {OpSSLRead, OpSSLWrite} \<and> Operation ev' \<in> {OpSSLRead, OpSSLWrite} \<and>
        SSLPtr ev = SSLPtr ev' \<and> map_option flush_fd (stream_key_of ev) = Some (-1))"
proof -
  have widen: "(ucast (ucast x :: uint64) :: int32) = x" for x
    by (rule ucast_up_ucast_id) (simp add: is_up)
  have ucast: "(ucast (FD ev) :: uint64) = ucast (FD ev') \<longleftrightarrow> FD ev = FD ev'"
    using widen by metis
  show ?thesis by (auto simp: stream_key_of_def flush_fd_def ucast widen)
qed

lemma streamer_connections:
  assumes "map_order ord" and "streamer_Run H U ord evs = Ret (raw, exs)"
  obtains bufs closed where "raw = evs" and "distinct (ord bufs)" and "set (ord bufs) = dom bufs"
    and "exs = closed @ concat (map (\<lambda>k. leftover H U k (bufs k)) (ord bufs))"
    and "\<forall>k. run_stage (stream_local H U) None (filter (\<lambda>ev. stream_key_of ev = Some k) evs) =
       Ret (bufs k, filter (\<lambda>ex. exchange_key ex = k) closed)"
proof -
  obtain bufs closed rest where run: "run_stage (streamer_step H U) Map.empty evs = Ret (bufs, closed)"
    and flush: "streamer_flush H U bufs (ord bufs) = Ret rest" and "raw = evs" and exs: "exs = closed @ rest"
    using assms(2) unfolding streamer_Run_Ret by blast
  moreover have "distinct (ord bufs) \<and> set (ord bufs) = dom bufs"
    using assms(1) streamer_finite [OF run] by (simp add: map_order_def)
  moreover have "exs = closed @ concat (map (\<lambda>k. leftover H U k (bufs k)) (ord bufs))"
    using exs streamer_flush_leftover [OF flush] by simp
  moreover have "run_stage (stream_local H U) None (filter (\<lambda>ev. stream_key_of ev = Some k) evs) =
       Ret (bufs k, filter (\<lambda>ex. exchange_key ex = k) closed)" for k
    using streamer.independence [OF _ run, of k] by simp
  ultimately show thesis using that by blast
qed

text \<open>
  C13: Assembling a whole trace is assembling every connection on its own: for every key the
  exchanges sent while the trace runs are those of the connection's own events alone, and when the
  trace ends each connection that still holds bytes is decoded once, in the iteration order of the
  map. The events are passed through unchanged.
\<close>

theorem streamer_isolation:
  assumes "map_order ord" and "streamer_Run H U ord evs = Ret (raw, exs)"
  shows "raw = evs \<and> (\<exists>bufs closed ks. distinct ks \<and> set ks = dom bufs \<and>
    exs = closed @ concat (map (\<lambda>k. leftover H U k (bufs k)) ks) \<and>
    (\<forall>k. run_stage (stream_local H U) None (filter (\<lambda>ev. stream_key_of ev = Some k) evs) =
       Ret (bufs k, filter (\<lambda>ex. exchange_key ex = k) closed)))"
proof -
  obtain bufs closed where split: "raw = evs" "distinct (ord bufs)" "set (ord bufs) = dom bufs"
    "exs = closed @ concat (map (\<lambda>k. leftover H U k (bufs k)) (ord bufs))"
    "\<forall>k. run_stage (stream_local H U) None (filter (\<lambda>ev. stream_key_of ev = Some k) evs) =
       Ret (bufs k, filter (\<lambda>ex. exchange_key ex = k) closed)"
    by (rule streamer_connections [OF assms])
  then show ?thesis by blast
qed

text \<open>
  C12: When a descriptor is closed, exactly the bytes captured on it since it was opened afresh are
  decoded, in order, per direction, up to 64 KB each, whatever other connections do in between; the
  exchange is marked as truncated when the data of one of those events was cut short; nothing is
  kept of the connection afterwards.
\<close>

theorem streamer_close:
  assumes "run_stage (streamer_step H U) Map.empty (pre @ mid) = Ret (bufs, exs)"
    and "kpre = filter (\<lambda>ev. stream_key_of ev = Some k) pre"
    and "kpre = [] \<or> Operation (last kpre) = OpClose"
    and "kmid = filter (\<lambda>ev. stream_key_of ev = Some k) mid" and "kmid \<noteq> []"
    and "\<forall>ev \<in> set kmid. data_ok ev \<and> (is_read ev \<or> is_write ev)"
    and "stream_key_of cl = Some k" and "Operation cl = OpClose"
    and "decode H U (PID cl) (FD cl) (take bufCap (concat (map captured (filter is_read kmid))))
      (take bufCap (concat (map captured (filter is_write kmid)))) (list_ex Truncated kmid) = Ret (ex, ok)"
  shows "run_stage (streamer_step H U) Map.empty (pre @ mid @ [cl]) =
    Ret (bufs(k := None), exs @ (if ok then [ex] else []))"
proof -
  let ?loc = "run_stage (stream_local H U)"
  from streamer.independence [OF _ assms(1), of k]
  have "?loc None (kpre @ kmid) = Ret (bufs k, filter (\<lambda>ex. exchange_key ex = k) exs)"
    by (simp add: assms(2,4))
  then obtain m os os' where pre: "?loc None kpre = Ret (m, os)" and mid: "?loc m kmid = Ret (bufs k, os')"
    by (auto simp: run_stage_append_Ret)
  have "m = None"
    using assms(3) pre stream_local_after_close [OF pre] by (cases "kpre = []") auto
  with mid stream_local_assembles [OF assms(6), of H U] assms(5) have "bufs k = Some (assembled kmid)" by simp
  then have "stream_local H U (bufs k) cl = Ret (None, if ok then [ex] else [])"
    using assms(9) by (simp add: stream_local_close [OF assms(8)] assembled_def)
  then have "streamer_step H U bufs cl = Ret (bufs(k := None), if ok then [ex] else [])"
    by (simp add: streamer_step_local assms(7))
  then have "run_stage (streamer_step H U) Map.empty ((pre @ mid) @ [cl]) =
      Ret (bufs(k := None), exs @ (if ok then [ex] else []))"
    unfolding run_stage_snoc_Ret using assms(1) by blast
  then show ?thesis by simp
qed

text \<open>
  Every exchange the streamer sends is labelled with the protocol it was decoded as and holds
  that protocol's data and no other: HTTP traffic has an HTTP exchange and no Redis call, Redis
  traffic at least one Redis call and no HTTP exchange.
\<close>

theorem streamer_exchanges_well_formed:
  assumes "streamer_Run H U ord evs = Ret (raw, exs)" and "ex \<in> set exs"
  shows "exchange_wf ex"
proof -
  obtain bufs closed rest where run: "run_stage (streamer_step H U) Map.empty evs = Ret (bufs, closed)"
    and flush: "streamer_flush H U bufs (ord bufs) = Ret rest" and exs: "exs = closed @ rest"
    using assms(1) unfolding streamer_Run_Ret by blast
  show ?thesis
    using assms(2) streamer_exchanges_wf [OF run] leftover_wf streamer_flush_leftover [OF flush]
    by (auto simp: exs)
qed

text \<open>
  C40: One connection's bytes can end the whole process: after any prefix of the trace, a write
  whose captured data is a RESP header announcing an impossible length makes the loop panic when the
  connection closes, whatever the state of the other connections, when the bytes are not HTTP.
\<close>

theorem streamer_length_panics:
  assumes "run_stage (streamer_step H U) Map.empty pre = Ret (bufs, exs)"
    and "stream_key_of w = Some k" and "bufs k = None" and "Operation w = OpWrite" and "data_ok w"
    and "captured w = c # itoa_nat n @ CRLF @ t" and "c = CHR ''$'' \<or> c = CHR ''*''"
    and "n < 2 ^ 63" and "maxAlloc < int n"
    and "stream_key_of cl = Some k" and "Operation cl = OpClose"
    and "\<not> snd (TryHTTP H [] (captured w))"
  shows "streamer_Run H U ord (pre @ [w, cl] @ post) = Panic MakeSliceLen"
proof -
  let ?b = "\<lparr>bufRead = [], bufWrite = captured w, bufTruncated = Truncated w\<rparr>"
  have cap: "length (captured w) \<le> bufCap"
    using assms(5) by (simp add: captured_def data_ok_def dataCap_def bufCap_def min_def)
  have "is_write w" by (simp add: is_write_def assms(4))
  then have "stream_local H U None w = Ret (Some ?b, [])"
    using cap by (simp add: stream_local_write assms(5) get_bufs_def appendCapped_def Let_def bufCap_def)
  then have w: "streamer_step H U bufs w = Ret (bufs(k \<mapsto> ?b), [])"
    by (simp add: streamer_step_local assms(2,3))
  have "ParseRESPStream (captured w) = Panic MakeSliceLen"
    using resp_too_long [OF assms(8,9,7), of t] unfolding assms(6) by (rule ParseRESPStream_panic)
  then have "decode H U (PID cl) (FD cl) [] (captured w) (Truncated w) = Panic MakeSliceLen"
    using assms(12) by (cases "TryHTTP H [] (captured w)") (simp add: decode_def TryRESP_def)
  then have "streamer_step H U (bufs(k \<mapsto> ?b)) cl = Panic MakeSliceLen"
    by (simp add: streamer_step_local assms(10) stream_local_close [OF assms(11)])
  with w assms(1) show ?thesis by (simp add: streamer_Run_def run_stage_append)
qed

section \<open>Examples\<close>

definition sample_data :: "uint32 \<Rightarrow> bytes \<Rightarrow> event" where
  "sample_data opn s = sample_event\<lparr>FD := 5, Operation := opn, TotalLen := of_nat (length s),
     DataLen := of_nat (length s), Data := s @ replicate (dataCap - length s) (CHR 0x00)\<rparr>"

definition sample_stream_key :: stream_key where
  "sample_stream_key = StreamKey 7 connFD 5"

definition no_http :: http_lib where
  "no_http = \<lparr>ReadRequest = (\<lambda>buf. Inl ''malformed''), ReadResponse = (\<lambda>buf req. Inl ''malformed'')\<rparr>"

lemma no_http_fails: "TryHTTP no_http r w = (noExchange, False)"
  by (simp add: TryHTTP_def no_http_def parseRequest_def parseResponse_def)

lemma sample_length: "command_ok [''get'', ''x'']"
  by (simp add: command_ok_def command_value_def bulk_value_def maxAlloc_def resp_value_size_def)

definition get_command :: bytes where
  "get_command = encode_command [''get'', ''x'']"

definition get_reply :: bytes where
  "get_reply = EncodeSimpleString ''1''"

lemmas sample_defs = sample_data_def sample_event_def sample_stream_key_def stream_key_of_def
  data_ok_def captured_def is_read_def is_write_def Truncated_def dataCap_def

lemma get_decodes:
  "TryRESP ascii_tables get_command get_reply = Ret ([\<lparr>Command = [''get'', ''x''], Reply = ''1''\<rparr>], True)"
proof -
  let ?reps = "[RESPValue (CHR ''+'') ''1'' [] False]"
  have "list_all resp_wf ?reps" by (simp add: one_line_def)
  moreover have "expected_calls ascii_tables [[''get'', ''x'']] ?reps = [\<lparr>Command = [''get'', ''x''], Reply = ''1''\<rparr>]"
    by code_simp
  ultimately show ?thesis
    using TryRESP_encoded [of "[[''get'', ''x'']]" ?reps "[]" "IOErr EOF" "[]" "IOErr EOF" ascii_tables]
      bytes_reader_empty_error sample_length
    by (simp add: get_command_def get_reply_def)
qed

lemma sample_ops:
  "stream_key_of (sample_data OpWrite s) = Some sample_stream_key"
  "stream_key_of (sample_data OpRead s) = Some sample_stream_key"
  "stream_key_of (sample_data OpClose s) = Some sample_stream_key"
  "is_read (sample_data OpRead s)" "is_write (sample_data OpWrite s)"
  "\<not> is_write (sample_data OpRead s)" "\<not> is_read (sample_data OpWrite s)"
  "Operation (sample_data opn s) = opn" "PID (sample_data opn s) = 7" "FD (sample_data opn s) = 5"
  by (simp_all add: sample_defs)

lemma sample_payload:
  assumes "length s \<le> dataCap"
  shows "data_ok (sample_data opn s)" and "captured (sample_data opn s) = s" and "\<not> Truncated (sample_data opn s)"
proof -
  have "unat (of_nat (length s) :: uint32) = length s" using assms by (simp add: unat_of_nat dataCap_def)
  then show "data_ok (sample_data opn s)" and "captured (sample_data opn s) = s" and "\<not> Truncated (sample_data opn s)"
    using assms by (simp_all add: sample_defs)
qed

abbreviation sample_write :: event where "sample_write \<equiv> sample_data OpWrite get_command"
abbreviation sample_read :: event where "sample_read \<equiv> sample_data OpRead get_reply"
abbreviation sample_close :: event where "sample_close \<equiv> sample_data OpClose []"

definition sample_bufs :: connBufs where
  "sample_bufs = \<lparr>bufRead = get_reply, bufWrite = get_command, bufTruncated = False\<rparr>"

definition sample_exchange :: Exchange where
  "sample_exchange = \<lparr>exPID = 7, exFD = 5, exProtocol = ProtocolRedis, exHTTP = None,
     exRedis = [\<lparr>Command = [''get'', ''x''], Reply = ''1''\<rparr>], exTruncated = False\<rparr>"

lemma sample_small: "length get_command \<le> dataCap" "length get_reply \<le> dataCap"
proof -
  have "length get_command = 20" by code_simp
  moreover have "length get_reply = 4" by code_simp
  ultimately show "length get_command \<le> dataCap" "length get_reply \<le> dataCap" by (simp_all add: dataCap_def)
qed

lemma sample_assembled: "assembled [sample_write, sample_read] = sample_bufs"
proof -
  have "length get_command \<le> bufCap" "length get_reply \<le> bufCap"
    using sample_small by (simp_all add: dataCap_def bufCap_def)
  then show ?thesis
    using sample_payload [OF sample_small(1), of OpWrite] sample_payload [OF sample_small(2), of OpRead]
    by (simp add: assembled_def sample_bufs_def sample_ops)
qed

lemma sample_run:
  "run_stage (streamer_step H U) Map.empty [sample_write, sample_read] =
     Ret ([sample_stream_key \<mapsto> sample_bufs], [])"
proof -
  let ?loc = "stream_local H U"
  have ok: "\<forall>ev \<in> set [sample_write, sample_read]. data_ok ev \<and> (is_read ev \<or> is_write ev)"
    using sample_payload(1) [OF sample_small(1), of OpWrite] sample_payload(1) [OF sample_small(2), of OpRead]
    by (simp add: sample_ops)
  then have "run_stage ?loc None [sample_write, sample_read] = Ret (Some sample_bufs, [])"
    using stream_local_assembles [OF ok] by (simp add: sample_assembled del: run_stage.simps)
  then obtain m where "?loc None sample_write = Ret (m, [])" and "?loc m sample_read = Ret (Some sample_bufs, [])"
    by (auto split: exec.splits)
  then show ?thesis by (simp add: streamer_step_local sample_ops)
qed

lemma sample_decode:
  "decode no_http ascii_tables 7 5 get_reply get_command False = Ret (sample_exchange, True)"
  by (simp add: decode_def no_http_fails get_decodes sample_exchange_def)

lemma sample_flush:
  "streamer_Run no_http ascii_tables sorted_order [sample_write, sample_read] =
     Ret ([sample_write, sample_read], [sample_exchange])"
proof -
  have "flush_fd sample_stream_key = 5" by (simp add: flush_fd_def sample_stream_key_def)
  moreover have "kpid sample_stream_key = 7" by (simp add: sample_stream_key_def)
  moreover have "sorted_order [sample_stream_key \<mapsto> sample_bufs] = [sample_stream_key]"
    by (simp add: sorted_order_def)
  ultimately show ?thesis
    using sample_decode by (simp add: streamer_Run_def sample_run sample_bufs_def del: run_stage.simps)
qed

theorem streamer_isolation_witness:
  "\<exists>bufs closed ks. distinct ks \<and> set ks = dom bufs \<and>
     [sample_exchange] = closed @ concat (map (\<lambda>k. leftover no_http ascii_tables k (bufs k)) ks) \<and>
     (\<forall>k. run_stage (stream_local no_http ascii_tables) None
          (filter (\<lambda>ev. stream_key_of ev = Some k) [sample_write, sample_read]) =
        Ret (bufs k, filter (\<lambda>ex. exchange_key ex = k) closed))"
  using streamer_isolation [OF map_order_sorted sample_flush] by (rule conjunct2)

theorem streamer_close_witness:
  "run_stage (streamer_step no_http ascii_tables) Map.empty ([] @ [sample_write, sample_read] @ [sample_close]) =
     Ret ([sample_stream_key \<mapsto> sample_bufs](sample_stream_key := None), [] @ (if True then [sample_exchange] else []))"
proof (rule streamer_close [where k = sample_stream_key and kpre = "[]" and kmid = "[sample_write, sample_read]"])
  show "run_stage (streamer_step no_http ascii_tables) Map.empty ([] @ [sample_write, sample_read]) =
      Ret ([sample_stream_key \<mapsto> sample_bufs], [])" unfolding append_Nil by (rule sample_run)
  show "\<forall>ev \<in> set [sample_write, sample_read]. data_ok ev \<and> (is_read ev \<or> is_write ev)"
    using sample_payload(1) [OF sample_small(1), of OpWrite] sample_payload(1) [OF sample_small(2), of OpRead]
    by (simp add: sample_ops)
  show "decode no_http ascii_tables (PID sample_close) (FD sample_close)
      (take bufCap (concat (map captured (filter is_read [sample_write, sample_read]))))
      (take bufCap (concat (map captured (filter is_write [sample_write, sample_read]))))
      (list_ex Truncated [sample_write, sample_read]) = Ret (sample_exchange, True)"
    using sample_assembled sample_decode unfolding assembled_def sample_bufs_def by (simp add: sample_ops)
qed (simp_all add: sample_ops)

theorem streamer_exchanges_well_formed_witness: "exchange_wf sample_exchange"
  by (rule streamer_exchanges_well_formed [OF sample_flush]) simp

definition poison :: bytes where
  "poison = CHR ''$'' # itoa_nat 9223372036854775807 @ CRLF @ []"

theorem streamer_length_panics_witness:
  "streamer_Run no_http ascii_tables sorted_order ([] @ [sample_data OpWrite poison, sample_close] @ []) =
     Panic MakeSliceLen"
proof -
  have "length poison = 22" by (simp add: poison_def itoa_nat.simps)
  then have "length poison \<le> dataCap" by (simp add: dataCap_def)
  note ok = sample_payload [OF this, of OpWrite]
  show ?thesis
  proof (rule streamer_length_panics [where bufs = Map.empty and exs = "[]" and k = sample_stream_key
        and c = "CHR ''$''" and n = 9223372036854775807 and t = "[]"])
    show "captured (sample_data OpWrite poison) = CHR ''$'' # itoa_nat 9223372036854775807 @ CRLF @ []"
      using ok(2) unfolding poison_def .
    show "data_ok (sample_data OpWrite poison)" by (rule ok(1))
    show "\<not> snd (TryHTTP no_http [] (captured (sample_data OpWrite poison)))" by (simp add: no_http_fails)
    show "maxAlloc < int 9223372036854775807" by (simp add: maxAlloc_def)
  qed (simp_all add: sample_ops)
qed

end
