(* ===== verification/Recorder.thy ===== *)
theory Recorder
  imports Streamer
begin

text \<open>
  \<open>internal/recorder\<close>: building a test case from the exchanges of a trace. \<open>json.Unmarshal\<close> is a
  parameter \<open>unmarshal\<close>, with the type \<open>'j\<close> of decoded JSON values left open.
\<close>

section \<open>Definitions\<close>

text \<open>A Go \<open>any\<close> as \<open>decodeBody\<close> fills it: nil, a decoded JSON value, or a string.\<close>

datatype 'j any_body = NilBody | JSONBody 'j | StringBody bytes

record 'j TestRequest =
  tMethod :: bytes
  tPath :: bytes
  tBody :: "'j any_body"

record 'j TestResponse =
  tStatus :: int
  tRespBody :: "'j any_body"

record Dependency =
  depType :: bytes
  depRequest :: bytes
  depResponse :: bytes

record 'j TestCase =
  tcName :: bytes
  tcRequest :: "'j TestRequest"
  tcDependencies :: "Dependency list"
  tcResponse :: "'j TestResponse"

definition decodeBody :: "(bytes \<Rightarrow> 'j option) \<Rightarrow> bytes \<Rightarrow> 'j any_body" where
  "decodeBody unmarshal b =
     (if b = [] then NilBody
      else case unmarshal b of Some v \<Rightarrow> JSONBody v | None \<Rightarrow> StringBody b)"

definition newTestCase :: "bytes \<Rightarrow> 'j TestCase" where
  "newTestCase name =
     \<lparr>tcName = name, tcRequest = \<lparr>tMethod = [], tPath = [], tBody = NilBody\<rparr>, tcDependencies = [],
      tcResponse = \<lparr>tStatus = 0, tRespBody = NilBody\<rparr>\<rparr>"

text \<open>The two assignments to the test case from an HTTP exchange.\<close>

definition record_http :: "(bytes \<Rightarrow> 'j option) \<Rightarrow> HTTPExchange \<Rightarrow> 'j TestCase \<Rightarrow> 'j TestCase" where
  "record_http unmarshal h tc =
     (let tc1 = (case Request h of
                   None \<Rightarrow> tc
                 | Some req \<Rightarrow> tc\<lparr>tcRequest := \<lparr>tMethod = Method req, tPath = URLPath req,
                                             tBody = decodeBody unmarshal (RequestBody h)\<rparr>\<rparr>)
      in (case Response h of
            None \<Rightarrow> tc1
          | Some resp \<Rightarrow> tc1\<lparr>tcResponse := \<lparr>tStatus = StatusCode resp,
                                         tRespBody = decodeBody unmarshal (ResponseBody h)\<rparr>\<rparr>))"

definition dependency_of :: "RedisCall \<Rightarrow> Dependency" where
  "dependency_of call =
     \<lparr>depType = ''redis'', depRequest = Join (Command call) '' '', depResponse = Reply call\<rparr>"

text \<open>One round of the loop over the exchanges; the state is the test case and \<open>foundHTTP\<close>.\<close>

definition build_step ::
  "(bytes \<Rightarrow> 'j option) \<Rightarrow> 'j TestCase \<times> bool \<Rightarrow> Exchange \<Rightarrow> 'j TestCase \<times> bool" where
  "build_step unmarshal s ex =
     (case s of (tc, foundHTTP) \<Rightarrow>
       (case exProtocol ex of
          ProtocolHTTP \<Rightarrow>
            (case exHTTP ex of
               None \<Rightarrow> (tc, foundHTTP)
             | Some h \<Rightarrow> if foundHTTP then (tc, foundHTTP) else (record_http unmarshal h tc, True))
        | ProtocolRedis \<Rightarrow>
            (tc\<lparr>tcDependencies := tcDependencies tc @ map dependency_of (exRedis ex)\<rparr>, foundHTTP)
        | ProtocolUnknown \<Rightarrow> (tc, foundHTTP)))"

definition Build ::
  "(bytes \<Rightarrow> 'j option) \<Rightarrow> bytes \<Rightarrow> Exchange list \<Rightarrow> 'j TestCase \<times> bytes option" where
  "Build unmarshal name exchanges =
     (let (tc, foundHTTP) = foldl (build_step unmarshal) (newTestCase name, False) exchanges
      in (tc, if foundHTTP then None else Some ''no HTTP request observed during the trace''))"

section \<open>Reference\<close>

definition http_of :: "Exchange \<Rightarrow> HTTPExchange option" where
  "http_of ex = (if exProtocol ex = ProtocolHTTP then exHTTP ex else None)"

definition redis_calls :: "Exchange list \<Rightarrow> RedisCall list" where
  "redis_calls exs = concat (map exRedis (filter (\<lambda>ex. exProtocol ex = ProtocolRedis) exs))"

definition first_http :: "Exchange list \<Rightarrow> HTTPExchange option" where
  "first_http exs = (case List.map_filter http_of exs of [] \<Rightarrow> None | h # _ \<Rightarrow> Some h)"

definition with_deps :: "Dependency list \<Rightarrow> 'j TestCase \<Rightarrow> 'j TestCase" where
  "with_deps ds tc = tc\<lparr>tcDependencies := ds\<rparr>"

lemma record_http_deps:
  "record_http unmarshal h (with_deps ds tc) = with_deps ds (record_http unmarshal h tc)"
  by (simp add: record_http_def with_deps_def split: option.splits)

lemma first_http_snoc:
  "first_http (exs @ [ex]) = (case first_http exs of None \<Rightarrow> http_of ex | Some h \<Rightarrow> Some h)"
  by (auto simp: first_http_def map_filter_def split: list.splits option.splits)

lemma first_http_iff:
  "first_http exs \<noteq> None \<longleftrightarrow> (\<exists>ex \<in> set exs. exProtocol ex = ProtocolHTTP \<and> exHTTP ex \<noteq> None)"
proof (induction exs rule: rev_induct)
  case Nil
  then show ?case by (simp add: first_http_def map_filter_def)
next
  case (snoc ex exs)
  then show ?case by (auto simp: first_http_snoc http_of_def split: option.splits)
qed

lemma build_fold:
  "foldl (build_step unmarshal) (newTestCase name, False) exs =
     (with_deps (map dependency_of (redis_calls exs))
        (case first_http exs of None \<Rightarrow> newTestCase name | Some h \<Rightarrow> record_http unmarshal h (newTestCase name)),
      first_http exs \<noteq> None)"
proof (induction exs rule: rev_induct)
  case Nil
  then show ?case by (simp add: first_http_def redis_calls_def map_filter_def with_deps_def newTestCase_def)
next
  case (snoc ex exs)
  show ?case
  proof (cases "exProtocol ex")
    case ProtocolUnknown
    then show ?thesis using snoc by (simp add: build_step_def first_http_snoc http_of_def redis_calls_def split: option.splits)
  next
    case ProtocolHTTP
    then show ?thesis using snoc
      by (auto simp: build_step_def first_http_snoc http_of_def redis_calls_def record_http_deps split: option.splits)
  next
    case ProtocolRedis
    then show ?thesis using snoc
      by (auto simp: build_step_def first_http_snoc http_of_def redis_calls_def with_deps_def split: option.splits)
  qed
qed

section \<open>Properties\<close>

text \<open>
  C36: \<open>Build\<close> separates the exchanges by protocol, wherever they stand in the list: the
  dependencies are the calls of all Redis exchanges in order, each under its command text; request
  and response under test are those of the first HTTP exchange, and of no later one; and it reports
  an error exactly when there is no HTTP exchange at all.
\<close>

theorem build_partitions:
  "Build unmarshal name exs =
     ((case first_http exs of
         None \<Rightarrow> newTestCase name
       | Some h \<Rightarrow> record_http unmarshal h (newTestCase name))
        \<lparr>tcDependencies := map dependency_of (redis_calls exs)\<rparr>,
      if \<exists>ex \<in> set exs. exProtocol ex = ProtocolHTTP \<and> exHTTP ex \<noteq> None then None
      else Some ''no HTTP request observed during the trace'')"
  unfolding Build_def build_fold with_deps_def by (simp only: Let_def prod.case first_http_iff)

end
