(* ===== verification/Replay.thy ===== *)
theory Replay
  imports RespSpec Recorder
begin

text \<open>
  \<open>internal/replay\<close>: the proxy that answers a client's commands from recorded dependencies. This
  theory holds the answer to one command and the loop over one connection; accepting and closing
  connections is in theory \<open>ProxyLife\<close>.
\<close>

section \<open>Definitions\<close>

abbreviation quote :: char where "quote \<equiv> CHR 0x27"

definition command_text :: "unicode_tables \<Rightarrow> bytes list \<Rightarrow> bytes" where
  "command_text U cmd = strings_ToLower U (Join cmd '' '')"

definition proxy_reply :: "unicode_tables \<Rightarrow> Dependency list \<Rightarrow> bytes list \<Rightarrow> bytes" where
  "proxy_reply U deps cmd =
     (if cmd = [] then EncodeError ''ERR empty command''
      else if IsAdminCommand U (hd cmd)
      then EncodeError (''ERR unknown command '' @ [quote] @ hd cmd @ [quote])
      else let want = command_text U cmd in
        case find (\<lambda>dep. strings_ToLower U (depRequest dep) = want) deps of
          Some dep \<Rightarrow> EncodeReply (depResponse dep)
        | None \<Rightarrow> EncodeError (''ERR no recorded reply for '' @ [quote] @ want @ [quote]))"

text \<open>
  \<open>handleConn\<close>: what the proxy writes on a connection, one element per \<open>conn.Write\<close> that
  succeeds; \<open>wok i\<close> says whether the \<open>i\<close>-th write does. A panic of the parser is not recovered.
\<close>

lemma ReadCommand_length:
  "ReadCommand r = Ret (Inr (cmd, r')) \<Longrightarrow> length (pending r') < length (pending r)"
  by (rule commands.dec_shrinks)

function handleConn ::
  "unicode_tables \<Rightarrow> Dependency list \<Rightarrow> (nat \<Rightarrow> bool) \<Rightarrow> nat \<Rightarrow> reader \<Rightarrow> bytes list exec" where
  "handleConn U deps wok i r =
     (case ReadCommand r of
        Panic p \<Rightarrow> Panic p
      | Ret (Inl e) \<Rightarrow> Ret []
      | Ret (Inr (cmd, r')) \<Rightarrow>
          if \<not> wok i then Ret []
          else map_exec_result (\<lambda>ws. proxy_reply U deps cmd # ws) (handleConn U deps wok (Suc i) r'))"
  by pat_completeness auto

termination handleConn
  by (relation "measure (\<lambda>(U, deps, wok, i, r). length (pending r))") (auto dest: ReadCommand_length)

declare handleConn.simps [simp del]

section \<open>Lemmas\<close>

lemma Join_LF: "\<forall>a \<in> set cmd. LF \<notin> set a \<Longrightarrow> LF \<notin> set (Join cmd '' '')"
  using set_Join [of cmd "'' ''"] by auto

lemma command_text_LF:
  "tables_keep_lines U \<Longrightarrow> \<forall>a \<in> set cmd. LF \<notin> set a \<Longrightarrow> LF \<notin> set (command_text U cmd)"
  by (simp add: command_text_def strings_ToLower_LF Join_LF)

lemma answers_error: "one_line s \<Longrightarrow> answers (EncodeError s) (RESPValue (CHR ''-'') s [] False)"
  using answers_one_line [of "CHR ''-''" s] by (simp add: EncodeError_def)

lemma parse_error_reply:
  assumes "one_line s" and "pending r = EncodeError s @ t"
  shows "parseRESPValue r = Ret (Inr (RESPValue (CHR ''-'') s [] False, r\<lparr>pending := t\<rparr>))"
  using answers_error [OF assms(1)] assms(2) by (simp add: answers_def)

lemma EncodeError_one_value: "(\<exists>v. answers (EncodeError s) v) \<longleftrightarrow> LF \<notin> set s"
  using answers_line_iff [of "CHR ''-''" s] by (simp add: EncodeError_def)

lemma EncodeReply_one_value: "(\<exists>v. answers (EncodeReply s) v) \<longleftrightarrow> LF \<notin> set s"
proof -
  consider (null) "s = ''(nil)''" | (error) u where "s = ''(error) '' @ u" | (integer) u where "s = ''(integer) '' @ u"
    | (plain) "\<not> looks_special s"
    by (auto simp: looks_special_def HasPrefix_iff)
  then show ?thesis
  proof cases
    case null
    then show ?thesis using answers_null by (auto simp: EncodeReply_def)
  next
    case error
    then show ?thesis using EncodeError_one_value [of u] by (simp only: EncodeReply_error) simp
  next
    case integer
    then show ?thesis using answers_line_iff [of "CHR '':''" u] by (simp only: EncodeReply_integer) (simp add: EncodeInteger_def)
  next
    case plain
    then show ?thesis using answers_line_iff [of "CHR ''+''" s] by (simp add: EncodeReply_plain EncodeSimpleString_def)
  qed
qed

text \<open>What a reply to a command holds that does not come from the proxy itself.\<close>

definition echoed :: "unicode_tables \<Rightarrow> Dependency list \<Rightarrow> bytes list \<Rightarrow> bytes" where
  "echoed U deps cmd =
     (if cmd = [] then [] else if IsAdminCommand U (hd cmd) then hd cmd
      else case find (\<lambda>dep. strings_ToLower U (depRequest dep) = command_text U cmd) deps of
        Some dep \<Rightarrow> depResponse dep
      | None \<Rightarrow> command_text U cmd)"

lemma proxy_reply_one_value: "(\<exists>v. answers (proxy_reply U deps cmd) v) \<longleftrightarrow> LF \<notin> set (echoed U deps cmd)"
  by (auto simp: proxy_reply_def echoed_def Let_def EncodeError_one_value EncodeReply_one_value split: option.splits)

lemma echoed_clean:
  assumes "tables_keep_lines U" and "\<forall>a \<in> set cmd. LF \<notin> set a" and "\<forall>dep \<in> set deps. LF \<notin> set (depResponse dep)"
  shows "LF \<notin> set (echoed U deps cmd)"
  using command_text_LF [OF assms(1,2)] assms(2,3)
  by (auto simp: echoed_def dest: find_SomeD split: option.splits)

lemma handleConn_step:
  "ReadCommand r = Ret (Inr (cmd, r')) \<Longrightarrow>
     handleConn U deps wok i r =
       (if wok i then map_exec_result (\<lambda>ws. proxy_reply U deps cmd # ws) (handleConn U deps wok (Suc i) r')
        else Ret [])"
  by (simp add: handleConn.simps [of U deps wok i r])

lemma handleConn_commands:
  assumes "list_all command_ok cmds" and "pending r = concat (map encode_command cmds) @ p"
    and "ReadCommand (r\<lparr>pending := p\<rparr>) = Ret (Inl e)" and "\<forall>j < length cmds. wok (i + j)"
  shows "handleConn U deps wok i r = Ret (map (proxy_reply U deps) cmds)"
  using assms
proof (induction cmds arbitrary: r i)
  case Nil
  then have "r\<lparr>pending := p\<rparr> = r" by (simp add: reader_eqI)
  with Nil show ?case by (simp add: handleConn.simps)
next
  case (Cons cmd cmds)
  let ?r = "r\<lparr>pending := concat (map encode_command cmds) @ p\<rparr>"
  have "ReadCommand r = Ret (Inr (cmd, ?r))"
    by (rule commands.dec_enc) (use Cons.prems in simp_all)
  moreover have "wok i" using Cons.prems(4) by force
  moreover have "\<forall>j < length cmds. wok (Suc i + j)" using Cons.prems(4) by force
  then have "handleConn U deps wok (Suc i) ?r = Ret (map (proxy_reply U deps) cmds)"
    using Cons.prems by (intro Cons.IH) simp_all
  ultimately show ?case by (simp add: handleConn_step)
qed

section \<open>Properties\<close>

text \<open>
  The proxy answers a command that is neither empty nor administrative from the first
  dependency whose command text equals the command's up to letter case, and says so when there is
  none; an administrative command always gets an error, whatever was recorded.
\<close>

theorem proxy_reply_first_match:
  assumes "cmd \<noteq> []"
  shows "if IsAdminCommand U (hd cmd)
    then proxy_reply U deps cmd = EncodeError (''ERR unknown command '' @ [quote] @ hd cmd @ [quote])
    else (\<exists>pre d post. deps = pre @ d # post \<and> strings_ToLower U (depRequest d) = command_text U cmd \<and>
            (\<forall>d' \<in> set pre. strings_ToLower U (depRequest d') \<noteq> command_text U cmd) \<and>
            proxy_reply U deps cmd = EncodeReply (depResponse d)) \<or>
         (\<forall>d \<in> set deps. strings_ToLower U (depRequest d) \<noteq> command_text U cmd) \<and>
            proxy_reply U deps cmd =
              EncodeError (''ERR no recorded reply for '' @ [quote] @ command_text U cmd @ [quote])"
proof (cases "IsAdminCommand U (hd cmd)")
  case True
  with assms show ?thesis by (simp add: proxy_reply_def)
next
  case False
  show ?thesis
  proof (cases "find (\<lambda>dep. strings_ToLower U (depRequest dep) = command_text U cmd) deps")
    case None
    then have "\<forall>d \<in> set deps. strings_ToLower U (depRequest d) \<noteq> command_text U cmd"
      by (simp add: find_None_iff)
    with None False assms show ?thesis by (simp add: proxy_reply_def)
  next
    case (Some d)
    then obtain pre post where "deps = pre @ d # post"
      and "strings_ToLower U (depRequest d) = command_text U cmd"
      and "\<forall>d' \<in> set pre. strings_ToLower U (depRequest d') \<noteq> command_text U cmd"
      by (rule find_split)
    moreover have "proxy_reply U deps cmd = EncodeReply (depResponse d)"
      using Some False assms by (simp add: proxy_reply_def)
    ultimately show ?thesis using False by auto
  qed
qed

theorem proxy_reply_first_match_witness:
  "if IsAdminCommand ascii_tables (hd [''GET'', ''x''])
    then proxy_reply ascii_tables [] [''GET'', ''x''] = EncodeError (''ERR unknown command '' @ [quote] @ hd [''GET'', ''x''] @ [quote])
    else proxy_reply ascii_tables [] [''GET'', ''x''] = 
      EncodeError (''ERR no recorded reply for '' @ [quote] @ command_text ascii_tables [''GET'', ''x''] @ [quote])"
  using proxy_reply_first_match [of "[''GET'', ''x'']" ascii_tables "[]"] by auto

text \<open>
  C17: A connection is served in order and completely: from a client that sends well-formed
  commands, the proxy writes exactly one reply per command, the reply to that command, until the
  input ends or no longer parses.
\<close>

theorem handle_conn_serves:
  assumes "list_all command_ok cmds" and "pending r = concat (map encode_command cmds) @ p"
    and "ReadCommand (r\<lparr>pending := p\<rparr>) = Ret (Inl e)" and "\<forall>j. wok j"
  shows "handleConn U deps wok 0 r = Ret (map (proxy_reply U deps) cmds)"
  using assms by (intro handleConn_commands) simp_all

theorem handle_conn_serves_witness:
  "handleConn ascii_tables [] (\<lambda>_. True) 0 (bytes_reader (encode_command [''get'', ''x''])) =
     Ret (map (proxy_reply ascii_tables []) [[''get'', ''x'']])"
proof (rule handle_conn_serves [where p = "[]" and e = "IOErr EOF"])
  show "list_all command_ok [[''get'', ''x'']]" using sample_length by simp
  show "ReadCommand (bytes_reader (encode_command [''get'', ''x''])\<lparr>pending := []\<rparr>) = Ret (Inl (IOErr EOF))"
    using bytes_reader_empty_error by (simp add: ReadCommand_def)
qed simp_all

text \<open>
  C18: When an answer is exactly one reply on the wire, so that replies never run into each other: if and
  only if what it echoes holds no line feed. That is the name of an administrative command, the
  recorded reply of a command with a recording, and the text of any other command in lower case. So it is
  guaranteed for commands without line feeds on recordings whose replies have none; and the one value
  is then a well-formed one.
\<close>

theorem proxy_reply_is_one_value:
  "((\<exists>v. answers (proxy_reply U deps cmd) v) \<longleftrightarrow> LF \<notin> set (echoed U deps cmd)) \<and>
   (tables_keep_lines U \<and> (\<forall>a \<in> set cmd. LF \<notin> set a) \<and> (\<forall>dep \<in> set deps. LF \<notin> set (depResponse dep)) \<longrightarrow>
      (\<exists>v. resp_wf v \<and> answers (proxy_reply U deps cmd) v))"
  using proxy_reply_one_value [of U deps cmd] echoed_clean [of U cmd deps] answers_wf by blast

theorem proxy_reply_is_one_value_witness:
  "(\<exists>v. answers (proxy_reply ascii_tables
       [\<lparr>depType = ''redis'', depRequest = ''get x'', depResponse = ''1''\<rparr>] [''GET'', ''x'']) v) \<and>
   \<not> (\<exists>v. answers (proxy_reply ascii_tables
       [\<lparr>depType = ''redis'', depRequest = ''get x'', depResponse = ''a'' @ CRLF @ ''b''\<rparr>] [''GET'', ''x'']) v)"
proof -
  let ?deps = "\<lambda>s. [\<lparr>depType = ''redis'', depRequest = ''get x'', depResponse = s\<rparr>]"
  have "echoed ascii_tables (?deps (''a'' @ CRLF @ ''b'')) [''GET'', ''x''] = ''a'' @ CRLF @ ''b''" by code_simp
  then have "\<not> (\<exists>v. answers (proxy_reply ascii_tables (?deps (''a'' @ CRLF @ ''b'')) [''GET'', ''x'']) v)"
    using proxy_reply_is_one_value [of ascii_tables "?deps (''a'' @ CRLF @ ''b'')" "[''GET'', ''x'']"] by simp
  moreover have "\<exists>v. answers (proxy_reply ascii_tables (?deps ''1'') [''GET'', ''x'']) v"
    using proxy_reply_is_one_value [of ascii_tables "?deps ''1''" "[''GET'', ''x'']"] tables_keep_lines_ascii_tables by auto
  ultimately show ?thesis by (rule conjI [rotated])
qed

text \<open>
  How it fails: an unrecorded command whose text has a line feed is echoed
  into the error reply, and the client reads what follows the line feed as part of its next reply.
\<close>

theorem proxy_reply_line_feed:
  assumes "cmd \<noteq> []" and "\<not> IsAdminCommand U (hd cmd)"
    and "\<forall>d \<in> set deps. strings_ToLower U (depRequest d) \<noteq> command_text U cmd"
    and "command_text U cmd = a @ CRLF @ b" and "LF \<notin> set a" and "a \<noteq> []" and "last a \<noteq> CR"
  shows "parseRESPValue (bytes_reader (proxy_reply U deps cmd @ t)) =
    Ret (Inr (RESPValue (CHR ''-'') (''ERR no recorded reply for '' @ [quote] @ a) [] False,
      bytes_reader (b @ [quote] @ CRLF @ t)))"
proof -
  let ?err = "''ERR no recorded reply for '' @ [quote] @ a"
  have "find (\<lambda>dep. strings_ToLower U (depRequest dep) = command_text U cmd) deps = None"
    using assms(3) by (auto simp: find_None_iff)
  then have reply: "proxy_reply U deps cmd @ t = CHR ''-'' # ?err @ CRLF @ (b @ [quote] @ CRLF @ t)"
    using assms(1,2,4) by (simp add: proxy_reply_def EncodeError_def)
  have "one_line ?err" using assms(5-7) by (simp add: one_line_def)
  then have "parseRESPValue (bytes_reader (proxy_reply U deps cmd @ t)) =
      Ret (Inr (RESPValue (CHR ''-'') ?err [] False,
        (bytes_reader (proxy_reply U deps cmd @ t))\<lparr>pending := b @ [quote] @ CRLF @ t\<rparr>))"
    by (intro parse_one_line) (simp_all add: reply)
  then show ?thesis by simp
qed

theorem proxy_reply_line_feed_witness:
  "parseRESPValue (bytes_reader (proxy_reply ascii_tables [] [''get'', ''x'' @ CRLF @ ''+OK''] @ [])) =
    Ret (Inr (RESPValue (CHR ''-'') (''ERR no recorded reply for '' @ [quote] @ ''get x'') [] False,
      bytes_reader (''+ok'' @ [quote] @ CRLF @ [])))"
proof (rule proxy_reply_line_feed)
  show "\<not> IsAdminCommand ascii_tables (hd [''get'', ''x'' @ CRLF @ ''+OK''])" by code_simp
  show "command_text ascii_tables [''get'', ''x'' @ CRLF @ ''+OK''] = ''get x'' @ CRLF @ ''+ok''" by code_simp
qed simp_all

end
