(* ===== verification/Correlator.thy ===== *)
theory Correlator
  imports Collector Stages
begin

text \<open>
  \<open>internal/correlator\<close>: per-connection state kept from the flat event stream, keyed by process
  and file descriptor, and a snapshot of it after every change.
\<close>

section \<open>Definitions\<close>

text \<open>
  \<open>cOpened\<close> and \<open>cClosedAt\<close> are wall-clock times; the zero \<open>time.Time\<close> of a connection that is
  still open is \<^const>\<open>None\<close>.
\<close>

record Connection =
  cSeq :: uint64
  cPID :: uint32
  cFD :: int32
  cComm :: bytes
  cRemoteAddr :: uint32
  cRemotePort :: uint16
  BytesOut :: uint64
  BytesIn :: uint64
  cOpened :: int
  cClosed :: bool
  cClosedAt :: "int option"

definition conn_RemoteAddrString :: "Connection \<Rightarrow> bytes" where
  "conn_RemoteAddrString c = FormatIPv4Port (cRemoteAddr c) (cRemotePort c)"

type_synonym conn_key = "uint32 \<times> int32"

definition conn_key :: "event \<Rightarrow> conn_key" where
  "conn_key ev = (PID ev, FD ev)"

record correlator_state =
  tracked :: "conn_key \<rightharpoonup> Connection"
  nextSeq :: uint64

definition correlator_init :: correlator_state where
  "correlator_init = \<lparr>tracked = Map.empty, nextSeq = 0\<rparr>"

text \<open>
  The connection a connect event opens. \<open>fsAt ev\<close> is the file system at the moment the event is
  handled (the command name is read from \<open>/proc\<close>), \<open>timeOf\<close> the function argument of \<open>Run\<close>.
\<close>

definition opened :: "(event \<Rightarrow> int) \<Rightarrow> (event \<Rightarrow> filesystem) \<Rightarrow> uint64 \<Rightarrow> event \<Rightarrow> Connection" where
  "opened timeOf fsAt seq ev =
     \<lparr>cSeq = seq, cPID = PID ev, cFD = FD ev, cComm = Comm (fsAt ev) (PID ev),
      cRemoteAddr = RemoteAddr ev, cRemotePort = RemotePort ev, BytesOut = 0, BytesIn = 0,
      cOpened = timeOf ev, cClosed = False, cClosedAt = None\<rparr>"

definition correlator_step ::
  "(event \<Rightarrow> int) \<Rightarrow> (event \<Rightarrow> filesystem) \<Rightarrow> correlator_state \<Rightarrow> event \<Rightarrow> correlator_state \<times> Connection list" where
  "correlator_step timeOf fsAt s ev =
     (let k = conn_key ev in
      if Operation ev = OpConnect then
        let seq = nextSeq s + 1; c = opened timeOf fsAt seq ev
        in (s\<lparr>nextSeq := seq, tracked := (tracked s)(k \<mapsto> c)\<rparr>, [c])
      else if Operation ev = OpWrite then
        (case tracked s k of
           None \<Rightarrow> (s, [])
         | Some c \<Rightarrow> let c' = c\<lparr>BytesOut := BytesOut c + ucast (TotalLen ev)\<rparr>
                    in (s\<lparr>tracked := (tracked s)(k \<mapsto> c')\<rparr>, [c']))
      else if Operation ev = OpRead then
        (case tracked s k of
           None \<Rightarrow> (s, [])
         | Some c \<Rightarrow> let c' = c\<lparr>BytesIn := BytesIn c + ucast (TotalLen ev)\<rparr>
                    in (s\<lparr>tracked := (tracked s)(k \<mapsto> c')\<rparr>, [c']))
      else if Operation ev = OpClose then
        (case tracked s k of
           None \<Rightarrow> (s, [])
         | Some c \<Rightarrow> let c' = c\<lparr>cClosed := True, cClosedAt := Some (timeOf ev)\<rparr>
                    in (s\<lparr>tracked := (tracked s)(k := None)\<rparr>, [c']))
      else (s, []))"

text \<open>The step in the form of an event loop's; it never panics.\<close>

definition correlator_loop ::
  "(event \<Rightarrow> int) \<Rightarrow> (event \<Rightarrow> filesystem) \<Rightarrow> correlator_state \<Rightarrow> event \<Rightarrow> (correlator_state \<times> Connection list) exec" where
  "correlator_loop timeOf fsAt s ev = Ret (correlator_step timeOf fsAt s ev)"

text \<open>What \<open>Run\<close> delivers for a whole trace: the events unchanged, and the snapshots.\<close>

definition correlator_Run ::
  "(event \<Rightarrow> int) \<Rightarrow> (event \<Rightarrow> filesystem) \<Rightarrow> event list \<Rightarrow> (event list \<times> Connection list) exec" where
  "correlator_Run timeOf fsAt events =
     map_exec_result (\<lambda>(s, cs). (events, cs)) (run_stage (correlator_loop timeOf fsAt) correlator_init events)"

section \<open>Connections are independent\<close>

text \<open>A snapshot without its sequence number, which counts the connections of the whole trace.\<close>

definition unnumbered :: "Connection \<Rightarrow> Connection" where
  "unnumbered c = c\<lparr>cSeq := 0\<rparr>"

definition snapshot_key :: "Connection \<Rightarrow> conn_key" where
  "snapshot_key c = (cPID c, cFD c)"

text \<open>The correlator for a single connection: its state is that connection, if it is open.\<close>

definition conn_local ::
  "(event \<Rightarrow> int) \<Rightarrow> (event \<Rightarrow> filesystem) \<Rightarrow> Connection option \<Rightarrow> event \<Rightarrow> (Connection option \<times> Connection list) exec" where
  "conn_local timeOf fsAt m ev =
     Ret (if Operation ev = OpConnect
          then let c = opened timeOf fsAt 0 ev in (Some c, [c])
          else case m of
            None \<Rightarrow> (None, [])
          | Some c \<Rightarrow>
              if Operation ev = OpWrite
              then let c' = c\<lparr>BytesOut := BytesOut c + ucast (TotalLen ev)\<rparr> in (Some c', [c'])
              else if Operation ev = OpRead
              then let c' = c\<lparr>BytesIn := BytesIn c + ucast (TotalLen ev)\<rparr> in (Some c', [c'])
              else if Operation ev = OpClose
              then (None, [c\<lparr>cClosed := True, cClosedAt := Some (timeOf ev)\<rparr>])
              else (Some c, []))"

text \<open>The connections a state tracks are filed under their own key and are not closed.\<close>

definition correlator_wf :: "correlator_state \<Rightarrow> bool" where
  "correlator_wf s \<longleftrightarrow> (\<forall>k c. tracked s k = Some c \<longrightarrow> snapshot_key c = k \<and> \<not> cClosed c)"

lemmas correlator_defs = correlator_loop_def correlator_step_def Let_def

lemma correlator_loop_Ret:
  "correlator_loop timeOf fsAt s ev = Ret r \<longleftrightarrow> correlator_step timeOf fsAt s ev = r"
  by (simp add: correlator_loop_def)

lemma conn_local_simps:
  "Operation ev = OpConnect \<Longrightarrow>
     conn_local timeOf fsAt m ev = Ret (Some (opened timeOf fsAt 0 ev), [opened timeOf fsAt 0 ev])"
  "Operation ev = OpWrite \<Longrightarrow> c' = c\<lparr>BytesOut := BytesOut c + ucast (TotalLen ev)\<rparr> \<Longrightarrow>
     conn_local timeOf fsAt (Some c) ev = Ret (Some c', [c'])"
  "Operation ev = OpRead \<Longrightarrow> c' = c\<lparr>BytesIn := BytesIn c + ucast (TotalLen ev)\<rparr> \<Longrightarrow>
     conn_local timeOf fsAt (Some c) ev = Ret (Some c', [c'])"
  "Operation ev = OpClose \<Longrightarrow>
     conn_local timeOf fsAt (Some c) ev = Ret (None, [c\<lparr>cClosed := True, cClosedAt := Some (timeOf ev)\<rparr>])"
  "Operation ev \<notin> {OpConnect, OpWrite, OpRead, OpClose} \<Longrightarrow> conn_local timeOf fsAt (Some c) ev = Ret (Some c, [])"
  by (simp_all add: conn_local_def Let_def)

lemma correlator_wf_init: "correlator_wf correlator_init"
  by (simp add: correlator_wf_def correlator_init_def)

lemma correlator_wf_step:
  "correlator_wf s \<Longrightarrow> correlator_wf (fst (correlator_step timeOf fsAt s ev))"
  by (auto simp: correlator_defs correlator_wf_def snapshot_key_def conn_key_def opened_def
      split: option.splits)

interpretation correlator: keyed_stage "correlator_loop timeOf fsAt" correlator_wf "\<lambda>ev. Some (conn_key ev)"
  "\<lambda>s k. map_option unnumbered (tracked s k)" snapshot_key unnumbered "conn_local timeOf fsAt"
  for timeOf fsAt
proof (unfold_locales, goal_cases)
  case (1 s ev s' os)
  then show ?case using correlator_wf_step [OF 1(1), of timeOf fsAt ev] by (simp add: correlator_loop_def)
next
  case (2 s ev s' os k)
  then show ?case by (auto simp: correlator_defs split: option.splits if_splits)
next
  case (3 s ev s' os r)
  then show ?case
    by (auto simp: correlator_defs correlator_wf_def snapshot_key_def conn_key_def opened_def
        split: option.splits if_splits)
next
  case (4 s ev s' os k)
  then show ?case
    by (auto simp: correlator_defs conn_local_def unnumbered_def opened_def split: option.splits if_splits)
next
  case (5 s ev p)
  then show ?case by (simp add: correlator_loop_def)
qed

lemma correlator_run_returns: "\<exists>s cs. run_stage (correlator_loop timeOf fsAt) s0 evs = Ret (s, cs)"
  using run_stage_returns [of "\<lambda>_. True" evs "correlator_loop timeOf fsAt" s0]
  by (auto simp: correlator_loop_def)

section \<open>Sequence numbers\<close>

definition connects :: "event list \<Rightarrow> event list" where
  "connects evs = filter (\<lambda>ev. Operation ev = OpConnect) evs"

text \<open>A snapshot with what changes during a connection's life removed.\<close>

definition identity :: "Connection \<Rightarrow> Connection" where
  "identity c = c\<lparr>BytesOut := 0, BytesIn := 0, cClosed := False, cClosedAt := None\<rparr>"

text \<open>The snapshot belongs to the connect event that its sequence number counts.\<close>

definition numbered :: "(event \<Rightarrow> int) \<Rightarrow> (event \<Rightarrow> filesystem) \<Rightarrow> event list \<Rightarrow> Connection \<Rightarrow> bool" where
  "numbered timeOf fsAt evs c \<longleftrightarrow>
     (\<exists>i < length (connects evs). cSeq c = of_nat (Suc i) \<and>
        identity c = opened timeOf fsAt (cSeq c) (connects evs ! i))"

lemma numbered_append: "numbered timeOf fsAt evs c \<Longrightarrow> numbered timeOf fsAt (evs @ evs') c"
  by (auto simp: numbered_def connects_def nth_append)

lemma identity_simps [simp]:
  "cSeq (identity c) = cSeq c" "snapshot_key (identity c) = snapshot_key c"
  "identity (c\<lparr>BytesOut := x\<rparr>) = identity c" "identity (c\<lparr>BytesIn := x\<rparr>) = identity c"
  "identity (c\<lparr>cClosed := b, cClosedAt := t\<rparr>) = identity c"
  by (simp_all add: identity_def snapshot_key_def)

lemma numbered_identity: "numbered timeOf fsAt evs (identity c) \<longleftrightarrow> numbered timeOf fsAt evs c"
  by (simp add: numbered_def) (simp add: identity_def)

lemma numbered_same:
  assumes "identity c' = identity c" and "numbered timeOf fsAt evs c"
  shows "numbered timeOf fsAt evs c'"
  using assms numbered_identity by metis

lemma numbered_inj:
  assumes "numbered timeOf fsAt evs c" and "numbered timeOf fsAt evs c'" and "cSeq c = cSeq c'"
    and "length (connects evs) < 2 ^ 64"
  shows "identity c = identity c'"
proof -
  obtain i j where i: "i < length (connects evs)" "cSeq c = of_nat (Suc i)"
      "identity c = opened timeOf fsAt (cSeq c) (connects evs ! i)"
    and j: "j < length (connects evs)" "cSeq c' = of_nat (Suc j)"
      "identity c' = opened timeOf fsAt (cSeq c') (connects evs ! j)"
    using assms(1,2) unfolding numbered_def by blast
  have "unat (of_nat (Suc i) :: uint64) = unat (of_nat (Suc j) :: uint64)"
    using assms(3) i(2) j(2) by simp
  then have "i = j" using i(1) j(1) assms(4) by (simp only: unat_of_nat) simp
  with i j assms(3) show ?thesis by simp
qed

lemma numbered_le:
  assumes "numbered timeOf fsAt evs c" and "length (connects evs) < 2 ^ 64"
  shows "unat (cSeq c) \<le> length (connects evs)"
proof -
  obtain i where i: "i < length (connects evs)" "cSeq c = of_nat (Suc i)"
    using assms(1) unfolding numbered_def by blast
  with assms(2) have "unat (cSeq c) = Suc i" by (simp only: unat_of_nat) simp
  with i show ?thesis by simp
qed

text \<open>
  The state of the correlator and the snapshots sent so far, after the events \<open>evs\<close>: the counter,
  the origin of every snapshot, and that what was closed is not tracked any more.
\<close>

definition seq_inv ::
  "(event \<Rightarrow> int) \<Rightarrow> (event \<Rightarrow> filesystem) \<Rightarrow> event list \<Rightarrow> correlator_state \<Rightarrow> Connection list \<Rightarrow> bool" where
  "seq_inv timeOf fsAt evs s cs \<longleftrightarrow>
     correlator_wf s \<and> nextSeq s = of_nat (length (connects evs)) \<and>
     (\<forall>k c. tracked s k = Some c \<longrightarrow> numbered timeOf fsAt evs c) \<and>
     (\<forall>c \<in> set cs. numbered timeOf fsAt evs c) \<and>
     (\<forall>c \<in> set cs. cClosed c \<longrightarrow> (\<forall>k c'. tracked s k = Some c' \<longrightarrow> cSeq c' \<noteq> cSeq c))"

lemma seq_inv_tracked:
  "seq_inv timeOf fsAt evs s cs \<Longrightarrow> tracked s k = Some c \<Longrightarrow>
     numbered timeOf fsAt evs c \<and> snapshot_key c = k \<and> \<not> cClosed c"
  unfolding seq_inv_def correlator_wf_def by blast

lemma seq_inv_closed:
  "seq_inv timeOf fsAt evs s cs \<Longrightarrow> tracked s k = Some c \<Longrightarrow> d \<in> set cs \<Longrightarrow> cClosed d \<Longrightarrow> cSeq c \<noteq> cSeq d"
  unfolding seq_inv_def by blast

lemma seq_inv_connect:
  assumes inv: "seq_inv timeOf fsAt evs s cs" and op: "Operation ev = OpConnect"
    and few: "length (connects evs) + 1 < 2 ^ 64"
    and c: "c = opened timeOf fsAt (nextSeq s + 1) ev"
  shows "seq_inv timeOf fsAt (evs @ [ev])
      (s\<lparr>nextSeq := nextSeq s + 1, tracked := (tracked s)(conn_key ev \<mapsto> c)\<rparr>) (cs @ [c]) \<and>
    (\<forall>d \<in> set cs. cSeq c \<noteq> cSeq d)"
proof -
  have n: "nextSeq s = of_nat (length (connects evs))" and "correlator_wf s"
    using inv by (simp_all add: seq_inv_def)
  have seq: "cSeq c = of_nat (Suc (length (connects evs)))" by (simp add: c opened_def n)
  then have "unat (cSeq c) = Suc (length (connects evs))"
    using few by (simp only: unat_of_nat) simp
  then have fresh: "cSeq c \<noteq> cSeq d" if "numbered timeOf fsAt evs d" for d
    using numbered_le [OF that] few by auto
  have "numbered timeOf fsAt (evs @ [ev]) c"
    unfolding numbered_def using op seq
    by (intro exI [of _ "length (connects evs)"]) (simp add: connects_def c opened_def identity_def)
  moreover have "correlator_wf (s\<lparr>nextSeq := nextSeq s + 1, tracked := (tracked s)(conn_key ev \<mapsto> c)\<rparr>)"
    using \<open>correlator_wf s\<close> by (auto simp: correlator_wf_def c opened_def snapshot_key_def conn_key_def)
  moreover have "\<not> cClosed c" by (simp add: c opened_def)
  ultimately show ?thesis
    using inv fresh numbered_append op n by (auto simp: seq_inv_def connects_def)
qed

lemma seq_inv_update:
  assumes inv: "seq_inv timeOf fsAt evs s cs" and op: "Operation ev \<noteq> OpConnect"
    and k: "tracked s k = Some c" and c': "identity c' = identity c"
    and open_or_gone: "m = (if cClosed c' then None else Some c')" and few: "length (connects evs) < 2 ^ 64"
  shows "seq_inv timeOf fsAt (evs @ [ev]) (s\<lparr>tracked := (tracked s)(k := m)\<rparr>) (cs @ [c']) \<and>
    (\<forall>d \<in> set cs. cClosed d \<longrightarrow> cSeq c' \<noteq> cSeq d)"
proof -
  have seq: "cSeq c' = cSeq c" and key: "snapshot_key c' = snapshot_key c"
    using c' identity_simps(1,2) by metis+
  have same: "connects (evs @ [ev]) = connects evs" using op by (simp add: connects_def)
  have num: "numbered timeOf fsAt evs c" using seq_inv_tracked [OF inv k] by simp
  then have num': "numbered timeOf fsAt evs c'" using c' numbered_same by blast
  have wf: "correlator_wf s" using inv by (simp add: seq_inv_def)
  have distinct: "cSeq d \<noteq> cSeq c" if "tracked s k' = Some d" and "k' \<noteq> k" for k' d
  proof
    assume "cSeq d = cSeq c"
    moreover have "numbered timeOf fsAt evs d" using seq_inv_tracked [OF inv that(1)] by simp
    ultimately have "identity d = identity c" using numbered_inj [OF _ num _ few] by blast
    then have "snapshot_key d = snapshot_key c" using identity_simps(2) by metis
    then show False using seq_inv_tracked [OF inv that(1)] seq_inv_tracked [OF inv k] that(2) by simp
  qed
  have "correlator_wf (s\<lparr>tracked := (tracked s)(k := m)\<rparr>)"
    using wf k key by (auto simp: correlator_wf_def open_or_gone)
  moreover have "numbered timeOf fsAt (evs @ [ev]) d \<longleftrightarrow> numbered timeOf fsAt evs d" for d
    by (simp add: numbered_def same)
  ultimately show ?thesis
    using inv num' seq distinct same seq_inv_closed [OF inv k] by (auto simp: seq_inv_def open_or_gone)
qed

lemma correlator_step_tracked:
  assumes "tracked s (conn_key ev) = Some c" and "\<not> cClosed c" and "Operation ev \<noteq> OpConnect"
    and "correlator_step timeOf fsAt s ev = (s', cs')"
  obtains (skip) "s' = s" and "cs' = []"
  | (update) c' m where "identity c' = identity c" and "m = (if cClosed c' then None else Some c')"
      and "s' = s\<lparr>tracked := (tracked s)(conn_key ev := m)\<rparr>" and "cs' = [c']"
proof -
  have step: "correlator_step timeOf fsAt s ev =
      (if Operation ev = OpWrite
       then (s\<lparr>tracked := (tracked s)(conn_key ev \<mapsto> c\<lparr>BytesOut := BytesOut c + ucast (TotalLen ev)\<rparr>)\<rparr>,
             [c\<lparr>BytesOut := BytesOut c + ucast (TotalLen ev)\<rparr>])
       else if Operation ev = OpRead
       then (s\<lparr>tracked := (tracked s)(conn_key ev \<mapsto> c\<lparr>BytesIn := BytesIn c + ucast (TotalLen ev)\<rparr>)\<rparr>,
             [c\<lparr>BytesIn := BytesIn c + ucast (TotalLen ev)\<rparr>])
       else if Operation ev = OpClose
       then (s\<lparr>tracked := (tracked s)(conn_key ev := None)\<rparr>, [c\<lparr>cClosed := True, cClosedAt := Some (timeOf ev)\<rparr>])
       else (s, []))"
    using assms(1,3) by (simp add: correlator_step_def Let_def)
  consider "Operation ev = OpWrite" | "Operation ev = OpRead" | "Operation ev = OpClose"
    | "Operation ev \<notin> {OpWrite, OpRead, OpClose}" by blast
  then show ?thesis
  proof cases
    case 1
    then show ?thesis using step assms(2,4) by (intro update) auto
  next
    case 2
    then show ?thesis using step assms(2,4) by (intro update) auto
  next
    case 3
    then show ?thesis using step assms(2,4) by (intro update) auto
  next
    case 4
    then show ?thesis using step assms(4) by (intro skip) auto
  qed
qed

lemma seq_inv_step:
  assumes inv: "seq_inv timeOf fsAt evs s cs" and few: "length (connects (evs @ [ev])) < 2 ^ 64"
    and step: "correlator_step timeOf fsAt s ev = (s', cs')"
  shows "seq_inv timeOf fsAt (evs @ [ev]) s' (cs @ cs') \<and>
    (\<forall>d \<in> set cs. cClosed d \<longrightarrow> (\<forall>c \<in> set cs'. cSeq c \<noteq> cSeq d))"
proof (cases "Operation ev = OpConnect")
  case True
  then show ?thesis
    using seq_inv_connect [OF inv True _ refl] few step
    by (auto simp: correlator_step_def Let_def connects_def)
next
  case False
  have few': "length (connects evs) < 2 ^ 64" using few False by (simp add: connects_def)
  have skip: "seq_inv timeOf fsAt (evs @ [ev]) s (cs @ [])"
    using inv False by (simp add: seq_inv_def connects_def numbered_def)
  show ?thesis
  proof (cases "tracked s (conn_key ev)")
    case None
    then show ?thesis using False step skip by (auto simp: correlator_step_def Let_def split: if_splits)
  next
    case (Some c)
    have "\<not> cClosed c" using seq_inv_tracked [OF inv Some] by simp
    from Some this False step show ?thesis
    proof (cases rule: correlator_step_tracked)
      case skip
      then show ?thesis using \<open>seq_inv timeOf fsAt (evs @ [ev]) s (cs @ [])\<close> by simp
    next
      case (update c' m)
      then show ?thesis using seq_inv_update [OF inv False Some update(1,2) few'] by simp
    qed
  qed
qed

lemma correlator_step_sorted: "sorted_wrt R (snd (correlator_step timeOf fsAt s ev))"
  by (simp add: correlator_step_def Let_def split: option.splits)

lemma seq_inv_run:
  assumes "run_stage (correlator_loop timeOf fsAt) correlator_init evs = Ret (s, cs)"
    and "length (connects evs) < 2 ^ 64"
  shows "seq_inv timeOf fsAt evs s cs \<and> sorted_wrt (\<lambda>c c'. cClosed c \<longrightarrow> cSeq c' \<noteq> cSeq c) cs"
  using assms
proof (induction evs arbitrary: s cs rule: rev_induct)
  case Nil
  then show ?case
    by (auto simp: seq_inv_def correlator_wf_init connects_def) (simp_all add: correlator_init_def)
next
  case (snoc ev evs)
  then obtain s1 cs1 cs2 where 1: "run_stage (correlator_loop timeOf fsAt) correlator_init evs = Ret (s1, cs1)"
    and 2: "correlator_step timeOf fsAt s1 ev = (s, cs2)" and cs: "cs = cs1 @ cs2"
    unfolding run_stage_snoc_Ret correlator_loop_Ret by blast
  from snoc.prems(2) have "length (connects evs) < 2 ^ 64" by (simp add: connects_def split: if_splits)
  from snoc.IH [OF 1 this] have inv: "seq_inv timeOf fsAt evs s1 cs1"
    and sorted: "sorted_wrt (\<lambda>c c'. cClosed c \<longrightarrow> cSeq c' \<noteq> cSeq c) cs1" by simp_all
  show ?case
    using seq_inv_step [OF inv snoc.prems(2) 2] sorted cs
      correlator_step_sorted [of "\<lambda>c c'. cClosed c \<longrightarrow> cSeq c' \<noteq> cSeq c" timeOf fsAt s1 ev] 2
    by (auto simp: sorted_wrt_append)
qed

section \<open>Byte counts\<close>

definition opens :: "conn_key \<Rightarrow> event \<Rightarrow> bool" where
  "opens k ev \<longleftrightarrow> conn_key ev = k \<and> Operation ev = OpConnect"

definition closes :: "conn_key \<Rightarrow> event \<Rightarrow> bool" where
  "closes k ev \<longleftrightarrow> conn_key ev = k \<and> Operation ev = OpClose"

text \<open>The number of bytes the calls of one kind moved on connection \<open>k\<close>, whatever was captured of them.\<close>

definition transferred :: "uint32 \<Rightarrow> conn_key \<Rightarrow> event list \<Rightarrow> uint64" where
  "transferred opn k evs =
     sum_list (map (\<lambda>ev. ucast (TotalLen ev)) (filter (\<lambda>ev. conn_key ev = k \<and> Operation ev = opn) evs))"

lemma conn_local_transfers:
  assumes "\<forall>ev \<in> set evs. conn_key ev = k \<and> Operation ev \<noteq> OpConnect \<and> Operation ev \<noteq> OpClose"
  shows "\<exists>cs. run_stage (conn_local timeOf fsAt) (Some c) evs =
    Ret (Some (c\<lparr>BytesOut := BytesOut c + transferred OpWrite k evs,
                 BytesIn := BytesIn c + transferred OpRead k evs\<rparr>), cs)"
  using assms
proof (induction evs arbitrary: c)
  case Nil
  then show ?case by (simp add: transferred_def)
next
  case (Cons ev evs)
  then have "\<forall>ev \<in> set evs. conn_key ev = k \<and> Operation ev \<noteq> OpConnect \<and> Operation ev \<noteq> OpClose" by simp
  note IH = Cons.IH [OF this]
  have step: ?case if "conn_local timeOf fsAt (Some c) ev = Ret (Some c', cs)"
    and "BytesOut c' + transferred OpWrite k evs = BytesOut c + transferred OpWrite k (ev # evs)"
    and "BytesIn c' + transferred OpRead k evs = BytesIn c + transferred OpRead k (ev # evs)"
    and "c'\<lparr>BytesOut := x, BytesIn := y\<rparr> = c\<lparr>BytesOut := x, BytesIn := y\<rparr>" for c' cs x y
  proof -
    have "c'\<lparr>BytesOut := x', BytesIn := y'\<rparr> = c\<lparr>BytesOut := x', BytesIn := y'\<rparr>" for x' y'
      using that(4) by (cases c, cases c') simp
    then show ?thesis using IH [of c'] that(1-3) by auto
  qed
  consider "Operation ev = OpWrite" | "Operation ev = OpRead"
    | "Operation ev \<notin> {OpConnect, OpWrite, OpRead, OpClose}" using Cons.prems by auto
  then show ?case
  proof cases
    case 1
    then show ?thesis using Cons.prems
      by (intro step [OF conn_local_simps(2) [OF 1 refl]]) (simp_all add: transferred_def add.assoc)
  next
    case 2
    then show ?thesis using Cons.prems
      by (intro step [OF conn_local_simps(3) [OF 2 refl]]) (simp_all add: transferred_def add.assoc)
  next
    case 3
    then show ?thesis using Cons.prems
      by (intro step [OF conn_local_simps(5) [OF 3]]) (simp_all add: transferred_def)
  qed
qed

lemma transferred_filter: "transferred opn k (filter (\<lambda>ev. Some (conn_key ev) = Some k) evs) = transferred opn k evs"
  by (simp add: transferred_def conj_commute) (metis (no_types, lifting))

lemma snapshots_of_key:
  assumes "run_stage (correlator_loop timeOf fsAt) correlator_init evs = Ret (s, cs)"
    and "\<forall>ev \<in> set evs. conn_key ev = k"
  shows "\<forall>c \<in> set cs. snapshot_key c = k"
proof -
  have "correlator_wf s \<and> (\<forall>c \<in> set cs. snapshot_key c = k)"
  proof (rule run_stage_invariant [where P = correlator_wf, OF _ correlator_wf_init assms(1)])
    fix s0 ev s' os
    assume step: "correlator_wf s0" "correlator_loop timeOf fsAt s0 ev = Ret (s', os)" and "ev \<in> set evs"
    then show "correlator_wf s' \<and> (\<forall>c \<in> set os. snapshot_key c = k)"
      using correlator.wf_step [OF step] correlator.results [OF step] assms(2) by auto
  qed
  then show ?thesis by blast
qed

lemma tracked_after_connect:
  assumes run: "run_stage (correlator_loop timeOf fsAt) correlator_init (pre @ con # mid) = Ret (s, cs)"
    and con: "opens k con" and mid: "\<forall>ev \<in> set mid. \<not> opens k ev \<and> \<not> closes k ev"
  shows "correlator_wf s \<and> map_option unnumbered (tracked s k) =
    Some ((opened timeOf fsAt 0 con)\<lparr>BytesOut := transferred OpWrite k mid, BytesIn := transferred OpRead k mid\<rparr>)"
proof -
  let ?loc = "run_stage (conn_local timeOf fsAt)"
  let ?sel = "filter (\<lambda>ev. Some (conn_key ev) = Some k)"
  from correlator.independence [OF correlator_wf_init run, of k]
  have whole: "?loc None (?sel pre @ [con] @ ?sel mid) =
      Ret (map_option unnumbered (tracked s k), map unnumbered (filter (\<lambda>c. snapshot_key c = k) cs))"
    using con by (simp add: correlator_init_def opens_def)
  have "\<forall>ev \<in> set (?sel mid). conn_key ev = k \<and> Operation ev \<noteq> OpConnect \<and> Operation ev \<noteq> OpClose"
    using mid by (auto simp: opens_def closes_def)
  from conn_local_transfers [OF this, of timeOf fsAt "opened timeOf fsAt 0 con"] obtain cs'
    where after: "?loc (Some (opened timeOf fsAt 0 con)) (?sel mid) = Ret (Some ((opened timeOf fsAt 0 con)
      \<lparr>BytesOut := transferred OpWrite k mid, BytesIn := transferred OpRead k mid\<rparr>), cs')"
    unfolding transferred_filter by (auto simp: opened_def)
  have "conn_local timeOf fsAt m con = Ret (Some (opened timeOf fsAt 0 con), [opened timeOf fsAt 0 con])" for m
    using con by (simp add: conn_local_simps(1) opens_def)
  with whole after have "Some ((opened timeOf fsAt 0 con)\<lparr>BytesOut := transferred OpWrite k mid,
      BytesIn := transferred OpRead k mid\<rparr>) = map_option unnumbered (tracked s k)"
    by (auto simp: run_stage_append_Ret)
  then show ?thesis using correlator.wf_run [OF correlator_wf_init run] by simp
qed

section \<open>Properties\<close>

text \<open>
  The correlator passes every event through unchanged and treats connections independently:
  apart from the sequence numbers, the snapshots it sends for one (process, descriptor) pair are
  exactly those it would send if the trace held the events of that pair only.
\<close>

theorem correlator_isolation:
  "\<exists>cs cs_k. correlator_Run timeOf fsAt evs = Ret (evs, cs) \<and>
     correlator_Run timeOf fsAt (filter (\<lambda>ev. conn_key ev = k) evs) = Ret (filter (\<lambda>ev. conn_key ev = k) evs, cs_k) \<and>
     map unnumbered (filter (\<lambda>c. snapshot_key c = k) cs) = map unnumbered cs_k"
proof -
  let ?sel = "filter (\<lambda>ev. Some (conn_key ev) = Some k)"
  obtain s cs s' cs_k where 1: "run_stage (correlator_loop timeOf fsAt) correlator_init evs = Ret (s, cs)"
    and 2: "run_stage (correlator_loop timeOf fsAt) correlator_init (?sel evs) = Ret (s', cs_k)"
    using correlator_run_returns by metis
  have "\<forall>c \<in> set cs_k. snapshot_key c = k" by (rule snapshots_of_key [OF 2]) simp
  then have "filter (\<lambda>c. snapshot_key c = k) cs_k = cs_k" by (simp add: filter_id_conv)
  with correlator.independence [OF correlator_wf_init 1, of k] correlator.independence [OF correlator_wf_init 2, of k]
  have "map unnumbered (filter (\<lambda>c. snapshot_key c = k) cs) = map unnumbered cs_k" by simp
  with 1 2 show ?thesis by (auto simp: correlator_Run_def)
qed

text \<open>
  C28: A snapshot's sequence number identifies the life of one connection although descriptors are
  reused: number \<open>n\<close> belongs to the \<open>n\<close>-th connect of the trace, every snapshot with that number
  has that event's process, descriptor, command name, remote endpoint and opening time, and after a
  snapshot says the connection is closed no later snapshot carries its number.
\<close>

theorem correlator_sequence_numbers:
  assumes "length (connects evs) < 2 ^ 64"
  shows "\<exists>cs. correlator_Run timeOf fsAt evs = Ret (evs, cs) \<and>
    (\<forall>c \<in> set cs. 0 < unat (cSeq c) \<and> unat (cSeq c) \<le> length (connects evs) \<and>
       identity c = opened timeOf fsAt (cSeq c) (connects evs ! (unat (cSeq c) - 1))) \<and>
    sorted_wrt (\<lambda>c c'. cClosed c \<longrightarrow> cSeq c' \<noteq> cSeq c) cs"
proof -
  obtain s cs where run: "run_stage (correlator_loop timeOf fsAt) correlator_init evs = Ret (s, cs)"
    using correlator_run_returns by metis
  have num: "\<forall>c \<in> set cs. numbered timeOf fsAt evs c"
    using seq_inv_run [OF run assms] by (simp add: seq_inv_def)
  have "0 < unat (cSeq c) \<and> unat (cSeq c) \<le> length (connects evs) \<and>
       identity c = opened timeOf fsAt (cSeq c) (connects evs ! (unat (cSeq c) - 1))" if c: "c \<in> set cs" for c
  proof -
    obtain i where i: "i < length (connects evs)" "cSeq c = of_nat (Suc i)"
        "identity c = opened timeOf fsAt (cSeq c) (connects evs ! i)"
      using bspec [OF num c] unfolding numbered_def by blast
    then have "unat (cSeq c) = Suc i" using assms by (simp only: unat_of_nat) simp
    with i show ?thesis by simp
  qed
  with run seq_inv_run [OF run assms] show ?thesis by (auto simp: correlator_Run_def)
qed

text \<open>
  C19: When a connection closes, the last snapshot of it reports the bytes of all its reads and
  writes since it was opened, as the system calls counted them (not as far as they were captured),
  and of no other connection's, with its opening and closing times; and the descriptor is free for
  the next connection.
\<close>

theorem correlator_byte_counts:
  assumes "opens k con" and "\<forall>ev \<in> set mid. \<not> opens k ev \<and> \<not> closes k ev" and "closes k cl"
  shows "\<exists>cs c. correlator_Run timeOf fsAt (pre @ con # mid @ [cl]) = Ret (pre @ con # mid @ [cl], cs @ [c]) \<and>
    unnumbered c = (opened timeOf fsAt 0 con)\<lparr>BytesOut := transferred OpWrite k mid,
      BytesIn := transferred OpRead k mid, cClosed := True, cClosedAt := Some (timeOf cl)\<rparr>"
proof -
  let ?run = "run_stage (correlator_loop timeOf fsAt) correlator_init"
  obtain s cs where 1: "?run (pre @ con # mid) = Ret (s, cs)" using correlator_run_returns by metis
  obtain s' os where 2: "correlator_loop timeOf fsAt s cl = Ret (s', os)"
    by (cases "correlator_step timeOf fsAt s cl") (simp add: correlator_loop_Ret)
  note st = tracked_after_connect [OF 1 assms(1,2)]
  have "Operation cl = OpClose" and "Some (conn_key cl) = Some k" using assms(3) by (simp_all add: closes_def)
  with correlator.own [OF conjunct1 [OF st] 2, of k] conjunct2 [OF st]
  have "map unnumbered os = [(opened timeOf fsAt 0 con)\<lparr>BytesOut := transferred OpWrite k mid,
      BytesIn := transferred OpRead k mid, cClosed := True, cClosedAt := Some (timeOf cl)\<rparr>]"
    by (simp add: conn_local_simps(4))
  then obtain c where "os = [c]" and c: "unnumbered c = (opened timeOf fsAt 0 con)\<lparr>BytesOut := transferred OpWrite k mid,
      BytesIn := transferred OpRead k mid, cClosed := True, cClosedAt := Some (timeOf cl)\<rparr>" by auto
  have "?run ((pre @ con # mid) @ [cl]) = Ret (s', cs @ os)" unfolding run_stage_snoc_Ret using 1 2 by blast
  then show ?thesis using \<open>os = [c]\<close> c by (auto simp: correlator_Run_def)
qed

definition sample_op :: "uint32 \<Rightarrow> uint32 \<Rightarrow> event" where
  "sample_op opn n = sample_event\<lparr>FD := 5, Operation := opn, TotalLen := n\<rparr>"

theorem correlator_sequence_numbers_witness:
  "\<exists>cs. correlator_Run (\<lambda>_. 0) (\<lambda>_ _. None) [sample_op OpConnect 0, sample_op OpClose 0] =
     Ret ([sample_op OpConnect 0, sample_op OpClose 0], cs)"
  using correlator_sequence_numbers [of "[sample_op OpConnect 0, sample_op OpClose 0]" "\<lambda>_. 0" "\<lambda>_ _. None"]
  by (auto simp: connects_def sample_op_def)

theorem correlator_byte_counts_witness:
  "\<exists>cs c. correlator_Run (\<lambda>_. 0) (\<lambda>_ _. None)
       ([] @ sample_op OpConnect 0 # [sample_op OpWrite 5000, sample_op OpWrite 7] @ [sample_op OpClose 0]) =
     Ret ([] @ sample_op OpConnect 0 # [sample_op OpWrite 5000, sample_op OpWrite 7] @ [sample_op OpClose 0], cs @ [c]) \<and>
     BytesOut c = 5007"
proof -
  let ?con = "sample_op OpConnect 0" and ?mid = "[sample_op OpWrite 5000, sample_op OpWrite 7]"
    and ?cl = "sample_op OpClose 0"
  have "opens (7, 5) ?con" and "\<forall>ev \<in> set ?mid. \<not> opens (7, 5) ev \<and> \<not> closes (7, 5) ev" and "closes (7, 5) ?cl"
    by (simp_all add: opens_def closes_def conn_key_def sample_op_def sample_event_def)
  moreover have "transferred OpWrite (7, 5) ?mid = 5007"
    by (simp add: transferred_def conn_key_def sample_op_def sample_event_def)
  ultimately obtain cs c where "correlator_Run (\<lambda>_. 0) (\<lambda>_ _. None) ([] @ ?con # ?mid @ [?cl]) =
      Ret ([] @ ?con # ?mid @ [?cl], cs @ [c])" and "BytesOut (unnumbered c) = 5007"
    using correlator_byte_counts [of "(7, 5)" ?con ?mid ?cl "\<lambda>_. 0" "\<lambda>_ _. None" "[]"] by auto
  then show ?thesis by (auto simp: unnumbered_def)
qed

end
