(* ===== verification/Channels.thy ===== *)
theory Channels
  imports Correlator Recorder
begin

text \<open>
  The goroutines and channels of the pipeline. Both \<open>correlator.Run\<close> and \<open>streamer.Run\<close> start one
  goroutine that receives the events, sends each of them on a buffered channel \<open>raw\<close>, then
  updates its state and sends the results on a second buffered channel, and at the end of its input
  sends what is left and closes both. A send blocks while the channel's buffer is full. Whether a
  channel has a receiver depends on the command: \<open>trace\<close> receives from both channels of every
  stage, \<open>record\<close> drops the raw channel of the streamer.
\<close>

section \<open>A stage and its channels\<close>

text \<open>
  Where the goroutine stands: at its receive, at the send of the current event, at the send of
  results (with a flag for the final ones), finished with both channels closed, or stopped by a
  panic, which takes the whole process down.
\<close>

datatype ('e, 'o) phase =
  Waiting | SendRaw 'e | SendOut "'o list" bool | ChannelsClosed | Crashed panic

text \<open>
  \<open>inq\<close> are the events still to come before the input channel is closed, \<open>rawq\<close> and \<open>outq\<close> the
  buffers of the two channels, \<open>rawGot\<close> and \<open>outGot\<close> what their receivers have got so far.
\<close>

record ('s, 'e, 'o) chan_state =
  inq :: "'e list"
  stageState :: 's
  phase :: "('e, 'o) phase"
  rawq :: "'e list"
  outq :: "'o list"
  rawGot :: "'e list"
  outGot :: "'o list"

text \<open>
  The parameters of a stage: its step, what it sends at the end, the capacities of the two
  channels, and whether somebody receives from each of them.
\<close>

record ('s, 'e, 'o) chan_stage =
  stageStep :: "'s \<Rightarrow> 'e \<Rightarrow> ('s \<times> 'o list) exec"
  stageEnd :: "'s \<Rightarrow> 'o list exec"
  rawCap :: nat
  outCap :: nat
  rawRead :: bool
  outRead :: bool

inductive chan_step ::
  "('s, 'e, 'o) chan_stage \<Rightarrow> ('s, 'e, 'o) chan_state \<Rightarrow> ('s, 'e, 'o) chan_state \<Rightarrow> bool"
  for P where
  receive: "phase c = Waiting \<Longrightarrow> inq c = e # es \<Longrightarrow>
    chan_step P c (c\<lparr>inq := es, phase := SendRaw e\<rparr>)"
| finish: "phase c = Waiting \<Longrightarrow> inq c = [] \<Longrightarrow> stageEnd P (stageState c) = Ret os \<Longrightarrow>
    chan_step P c (c\<lparr>phase := SendOut os True\<rparr>)"
| finish_panic: "phase c = Waiting \<Longrightarrow> inq c = [] \<Longrightarrow> stageEnd P (stageState c) = Panic p \<Longrightarrow>
    chan_step P c (c\<lparr>phase := Crashed p\<rparr>)"
| send_raw: "phase c = SendRaw e \<Longrightarrow> length (rawq c) < rawCap P \<Longrightarrow>
    stageStep P (stageState c) e = Ret (s, os) \<Longrightarrow>
    chan_step P c (c\<lparr>rawq := rawq c @ [e], stageState := s, phase := SendOut os False\<rparr>)"
| send_raw_panic: "phase c = SendRaw e \<Longrightarrow> length (rawq c) < rawCap P \<Longrightarrow>
    stageStep P (stageState c) e = Panic p \<Longrightarrow>
    chan_step P c (c\<lparr>rawq := rawq c @ [e], phase := Crashed p\<rparr>)"
| send_out: "phase c = SendOut (r # os) final \<Longrightarrow> length (outq c) < outCap P \<Longrightarrow>
    chan_step P c (c\<lparr>outq := outq c @ [r], phase := SendOut os final\<rparr>)"
| sent_all: "phase c = SendOut [] final \<Longrightarrow>
    chan_step P c (c\<lparr>phase := (if final then ChannelsClosed else Waiting)\<rparr>)"
| recv_raw: "rawRead P \<Longrightarrow> rawq c = e # es \<Longrightarrow> (\<And>p. phase c \<noteq> Crashed p) \<Longrightarrow>
    chan_step P c (c\<lparr>rawq := es, rawGot := rawGot c @ [e]\<rparr>)"
| recv_out: "outRead P \<Longrightarrow> outq c = r # os \<Longrightarrow> (\<And>p. phase c \<noteq> Crashed p) \<Longrightarrow>
    chan_step P c (c\<lparr>outq := os, outGot := outGot c @ [r]\<rparr>)"

inductive_cases chan_stepE: "chan_step P c c'"

definition chan_init :: "'s \<Rightarrow> 'e list \<Rightarrow> ('s, 'e, 'o) chan_state" where
  "chan_init s0 evs =
     \<lparr>inq = evs, stageState = s0, phase = Waiting, rawq = [], outq = [], rawGot = [], outGot = []\<rparr>"

definition chan_reach ::
  "('s, 'e, 'o) chan_stage \<Rightarrow> 's \<Rightarrow> 'e list \<Rightarrow> ('s, 'e, 'o) chan_state \<Rightarrow> bool" where
  "chan_reach P s0 evs c \<longleftrightarrow> (chan_step P)\<^sup>*\<^sup>* (chan_init s0 evs) c"

text \<open>No goroutine can move any more.\<close>

definition chan_stuck :: "('s, 'e, 'o) chan_stage \<Rightarrow> ('s, 'e, 'o) chan_state \<Rightarrow> bool" where
  "chan_stuck P c \<longleftrightarrow> (\<forall>c'. \<not> chan_step P c c')"

section \<open>Every execution ends\<close>

primrec phase_rank :: "('e, 'o) phase \<Rightarrow> nat" where
  "phase_rank (SendRaw e) = 5"
| "phase_rank (SendOut os final) = (if final then 2 else 4)"
| "phase_rank Waiting = 3"
| "phase_rank ChannelsClosed = 1"
| "phase_rank (Crashed p) = 0"

primrec pend_out :: "('e, 'o) phase \<Rightarrow> 'o list" where
  "pend_out (SendRaw e) = []"
| "pend_out (SendOut os final) = os"
| "pend_out Waiting = []"
| "pend_out ChannelsClosed = []"
| "pend_out (Crashed p) = []"

primrec pend_raw :: "('e, 'o) phase \<Rightarrow> 'e list" where
  "pend_raw (SendRaw e) = [e]"
| "pend_raw (SendOut os final) = []"
| "pend_raw Waiting = []"
| "pend_raw ChannelsClosed = []"
| "pend_raw (Crashed p) = []"

lemma chan_step_terminates: "wf {(c', c). chan_step P c c'}"
proof (rule wf_subset [OF wf_measures])
  show "{(c', c). chan_step P c c'} \<subseteq> measures [\<lambda>c. length (inq c), \<lambda>c. phase_rank (phase c),
      \<lambda>c. length (pend_out (phase c)), \<lambda>c. length (outq c), \<lambda>c. length (rawq c)]"
    by (auto elim!: chan_stepE)
qed

section \<open>What has been sent is what the loop computes\<close>

primrec at_end :: "('e, 'o) phase \<Rightarrow> bool" where
  "at_end (SendRaw e) = False"
| "at_end (SendOut os final) = final"
| "at_end Waiting = False"
| "at_end ChannelsClosed = True"
| "at_end (Crashed p) = False"

text \<open>The outcome of the whole trace as a function: what the loop and then the end of it send.\<close>

definition stage_outcome :: "('s, 'e, 'o) chan_stage \<Rightarrow> 's \<Rightarrow> 'e list \<Rightarrow> 'o list exec" where
  "stage_outcome P s0 evs =
     (case run_stage (stageStep P) s0 evs of
        Panic p \<Rightarrow> Panic p
      | Ret (s, os) \<Rightarrow> map_exec_result (\<lambda>os'. os @ os') (stageEnd P s))"

definition chan_running :: "('s, 'e, 'o) chan_stage \<Rightarrow> 's \<Rightarrow> 'e list \<Rightarrow> ('s, 'e, 'o) chan_state \<Rightarrow> bool" where
  "chan_running P s0 evs c \<longleftrightarrow>
     evs = rawGot c @ rawq c @ pend_raw (phase c) @ inq c \<and>
     (\<exists>osp. run_stage (stageStep P) s0 (rawGot c @ rawq c) = Ret (stageState c, osp) \<and>
        (if at_end (phase c)
         then inq c = [] \<and> (\<exists>os'. stageEnd P (stageState c) = Ret os' \<and>
                outGot c @ outq c @ pend_out (phase c) = osp @ os')
         else outGot c @ outq c @ pend_out (phase c) = osp))"

definition chan_bounds :: "('s, 'e, 'o) chan_stage \<Rightarrow> ('s, 'e, 'o) chan_state \<Rightarrow> bool" where
  "chan_bounds P c \<longleftrightarrow> length (rawq c) \<le> rawCap P \<and> length (outq c) \<le> outCap P \<and>
     (\<not> rawRead P \<longrightarrow> rawGot c = []) \<and> (\<not> outRead P \<longrightarrow> outGot c = [])"

definition chan_inv :: "('s, 'e, 'o) chan_stage \<Rightarrow> 's \<Rightarrow> 'e list \<Rightarrow> ('s, 'e, 'o) chan_state \<Rightarrow> bool" where
  "chan_inv P s0 evs c \<longleftrightarrow>
     (case phase c of
        Crashed p \<Rightarrow> stage_outcome P s0 evs = Panic p
      | _ \<Rightarrow> chan_running P s0 evs c \<and> chan_bounds P c)"

lemma chan_inv_running:
  "(\<And>p. phase c \<noteq> Crashed p) \<Longrightarrow> chan_inv P s0 evs c \<longleftrightarrow> chan_running P s0 evs c \<and> chan_bounds P c"
  by (auto simp: chan_inv_def split: phase.splits)

lemma run_stage_prefix_panic:
  "run_stage step s es = Ret (s', os) \<Longrightarrow> step s' e = Panic p \<Longrightarrow> run_stage step s (es @ e # fs) = Panic p"
  by (simp add: run_stage_append)

lemma chan_inv_init: "chan_inv P s0 evs (chan_init s0 evs)"
  by (simp add: chan_inv_def chan_init_def chan_running_def chan_bounds_def)

lemma chan_inv_step:
  assumes "chan_step P c c'" and "chan_inv P s0 evs c"
  shows "chan_inv P s0 evs c'"
  using assms
proof (cases rule: chan_step.cases)
  case (receive e es)
  then show ?thesis using assms(2) by (auto simp: chan_inv_def chan_running_def chan_bounds_def)
next
  case (finish os)
  then show ?thesis using assms(2) by (auto simp: chan_inv_def chan_running_def chan_bounds_def)
next
  case (finish_panic p)
  then show ?thesis using assms(2) by (auto simp: chan_inv_def chan_running_def stage_outcome_def)
next
  case (send_raw e s os)
  then have "chan_running P s0 evs c" and "chan_bounds P c"
    using assms(2) by (simp_all add: chan_inv_def)
  moreover from this obtain osp where "run_stage (stageStep P) s0 (rawGot c @ rawq c) = Ret (stageState c, osp)"
    and "outGot c @ outq c = osp" using send_raw by (auto simp: chan_running_def)
  then have "run_stage (stageStep P) s0 ((rawGot c @ rawq c) @ [e]) = Ret (s, (outGot c @ outq c) @ os)"
    unfolding run_stage_snoc_Ret using send_raw by blast
  ultimately show ?thesis using send_raw by (simp add: chan_inv_def chan_running_def chan_bounds_def)
next
  case (send_raw_panic e p)
  then have "chan_running P s0 evs c" using assms(2) by (simp add: chan_inv_def)
  then obtain osp where "run_stage (stageStep P) s0 (rawGot c @ rawq c) = Ret (stageState c, osp)"
    and "evs = (rawGot c @ rawq c) @ e # inq c" using send_raw_panic by (auto simp: chan_running_def)
  then have "run_stage (stageStep P) s0 evs = Panic p"
    using run_stage_prefix_panic send_raw_panic(4) by metis
  then show ?thesis using send_raw_panic by (simp add: chan_inv_def stage_outcome_def)
next
  case (send_out r os final)
  then show ?thesis using assms(2) by (auto simp: chan_inv_def chan_running_def chan_bounds_def)
next
  case (sent_all final)
  then show ?thesis using assms(2) by (auto simp: chan_inv_def chan_running_def chan_bounds_def)
next
  case (recv_raw e es)
  then show ?thesis using assms(2) chan_inv_running [of c] chan_inv_running [of c']
    by (auto simp: chan_running_def chan_bounds_def)
next
  case (recv_out r os)
  then show ?thesis using assms(2) chan_inv_running [of c] chan_inv_running [of c']
    by (auto simp: chan_running_def chan_bounds_def)
qed

lemma chan_reach_inv: "chan_reach P s0 evs c \<Longrightarrow> chan_inv P s0 evs c"
  unfolding chan_reach_def
  by (induction rule: rtranclp_induct) (auto intro: chan_inv_init chan_inv_step)

section \<open>Where an execution ends\<close>

lemma chan_stuck_phase:
  assumes "chan_stuck P c" and "0 < outCap P" and "outRead P"
  shows "phase c = ChannelsClosed \<or> (\<exists>p. phase c = Crashed p) \<or>
    (\<exists>e. phase c = SendRaw e \<and> rawCap P \<le> length (rawq c))"
proof (cases "phase c")
  case Waiting
  then show ?thesis
    using assms(1) chan_step.receive [of c _ _ P] chan_step.finish [of c P] chan_step.finish_panic [of c P]
    unfolding chan_stuck_def by (cases "inq c"; cases "stageEnd P (stageState c)") blast+
next
  case (SendRaw e)
  then show ?thesis
    using assms(1) chan_step.send_raw [of c e P] chan_step.send_raw_panic [of c e P]
    unfolding chan_stuck_def
    by (cases "stageStep P (stageState c) e"; cases "length (rawq c) < rawCap P") fastforce+
next
  case (SendOut os final)
  have "outq c = []"
  proof (cases "outq c")
    case (Cons r rs)
    with SendOut have "chan_step P c (c\<lparr>outq := rs, outGot := outGot c @ [r]\<rparr>)"
      by (intro chan_step.recv_out [OF assms(3)]) simp_all
    with assms(1) show ?thesis by (simp add: chan_stuck_def)
  qed
  then show ?thesis
    using assms SendOut chan_step.send_out [of c _ _ final P] chan_step.sent_all [of c final P]
    unfolding chan_stuck_def by (cases os) fastforce+
qed simp_all

lemma chan_stuck_drained:
  assumes "chan_stuck P c" and "\<And>p. phase c \<noteq> Crashed p"
  shows "(outRead P \<longrightarrow> outq c = []) \<and> (rawRead P \<longrightarrow> rawq c = [])"
  using assms chan_step.recv_out [of P c] chan_step.recv_raw [of P c]
  unfolding chan_stuck_def by (metis list.exhaust)

lemma chan_complete:
  assumes "chan_reach P s0 evs c" and "chan_stuck P c" and "stage_outcome P s0 evs = Ret outs"
    and "0 < rawCap P" and "0 < outCap P" and "outRead P" and "rawRead P \<or> length evs \<le> rawCap P"
  shows "phase c = ChannelsClosed \<and> outq c = [] \<and> outGot c = outs \<and> (rawRead P \<longrightarrow> rawGot c = evs)"
proof -
  note inv = chan_reach_inv [OF assms(1)]
  have alive: "phase c \<noteq> Crashed p" for p using inv assms(3) by (auto simp: chan_inv_def)
  then have run: "chan_running P s0 evs c" and bounds: "chan_bounds P c"
    using inv chan_inv_running [of c P s0 evs] by auto
  note drained = chan_stuck_drained [OF assms(2) alive]
  have closed: "phase c = ChannelsClosed"
  proof (rule ccontr)
    assume "phase c \<noteq> ChannelsClosed"
    then obtain e where e: "phase c = SendRaw e" and full: "rawCap P \<le> length (rawq c)"
      using chan_stuck_phase [OF assms(2,5,6)] alive by auto
    with assms(4) have "rawq c \<noteq> []" by auto
    then have "\<not> rawRead P" using drained by auto
    then have "length evs = length (rawq c) + 1 + length (inq c)"
      using run bounds e by (simp add: chan_running_def chan_bounds_def)
    with full assms(7) \<open>\<not> rawRead P\<close> show False by simp
  qed
  then show ?thesis
    using run drained assms(3,6) by (auto simp: chan_running_def stage_outcome_def)
qed

lemma chan_blocked:
  assumes "chan_reach P s0 evs c" and "\<not> rawRead P" and "rawCap P < length evs"
  shows "phase c \<noteq> ChannelsClosed"
proof
  assume closed: "phase c = ChannelsClosed"
  then have "chan_running P s0 evs c" and "chan_bounds P c"
    using chan_reach_inv [OF assms(1)] by (simp_all add: chan_inv_def)
  then have "evs = rawq c" and "length (rawq c) \<le> rawCap P"
    using assms(2) closed by (auto simp: chan_running_def chan_bounds_def)
  with assms(3) show False by simp
qed

lemma chan_blocked_at:
  assumes "chan_reach P s0 evs c" and "chan_stuck P c" and "\<not> rawRead P" and "rawCap P < length evs"
    and "0 < outCap P" and "outRead P" and "\<And>p. phase c \<noteq> Crashed p"
  shows "phase c = SendRaw (evs ! rawCap P)"
proof -
  have run: "chan_running P s0 evs c" and bounds: "chan_bounds P c"
    using chan_reach_inv [OF assms(1)] chan_inv_running [of c P s0 evs] assms(7) by auto
  obtain e where e: "phase c = SendRaw e" and full: "rawCap P \<le> length (rawq c)"
    using chan_stuck_phase [OF assms(2,5,6)] chan_blocked [OF assms(1,3,4)] assms(7) by auto
  have "evs = rawq c @ e # inq c" and "length (rawq c) = rawCap P"
    using run bounds e full assms(3) by (auto simp: chan_running_def chan_bounds_def)
  then show ?thesis using e by (metis nth_append_length)
qed

section \<open>The stages of the program\<close>

definition correlator_stage ::
  "(event \<Rightarrow> int) \<Rightarrow> (event \<Rightarrow> filesystem) \<Rightarrow> (correlator_state, event, Connection) chan_stage" where
  "correlator_stage timeOf fsAt =
     \<lparr>stageStep = correlator_loop timeOf fsAt, stageEnd = (\<lambda>_. Ret []), rawCap = 64, outCap = 64,
      rawRead = True, outRead = True\<rparr>"

text \<open>\<open>rawUsed\<close>: whether the command receives from the raw channel (\<open>trace\<close>) or drops it (\<open>record\<close>).\<close>

definition streamer_stage ::
  "http_lib \<Rightarrow> unicode_tables \<Rightarrow> (stream_bufs \<Rightarrow> stream_key list) \<Rightarrow> bool \<Rightarrow> (stream_bufs, event, Exchange) chan_stage" where
  "streamer_stage H U ord rawUsed =
     \<lparr>stageStep = streamer_step H U, stageEnd = (\<lambda>bufs. streamer_flush H U bufs (ord bufs)),
      rawCap = 64, outCap = 16, rawRead = rawUsed, outRead = True\<rparr>"

text \<open>The streamer as \<open>record\<close> runs it: \<open>_, exchanges := streamer.Run(events)\<close>.\<close>

abbreviation record_stage where
  "record_stage H U ord \<equiv> streamer_stage H U ord False"

text \<open>\<open>for ex := range exchanges\<close> has ended: the channel is closed and empty.\<close>

definition record_collected :: "(stream_bufs, event, Exchange) chan_state \<Rightarrow> Exchange list option" where
  "record_collected c = (if phase c = ChannelsClosed \<and> outq c = [] then Some (outGot c) else None)"

lemma streamer_outcome:
  "stage_outcome (streamer_stage H U ord b) Map.empty evs = map_exec_result snd (streamer_Run H U ord evs)"
  by (auto simp: stage_outcome_def streamer_stage_def streamer_Run_def map_exec_result_map
      split: prod.splits exec.splits)

lemma correlator_outcome:
  "stage_outcome (correlator_stage timeOf fsAt) correlator_init evs = map_exec_result snd (correlator_Run timeOf fsAt evs)"
  by (cases "run_stage (correlator_loop timeOf fsAt) correlator_init evs")
    (auto simp: stage_outcome_def correlator_stage_def correlator_Run_def)

lemma chan_ends: "\<exists>c. chan_reach P s0 evs c \<and> chan_stuck P c"
proof -
  have "chan_init s0 evs \<in> Collect (chan_reach P s0 evs)" by (simp add: chan_reach_def)
  from wfE_min [OF chan_step_terminates this] obtain c where reach: "chan_reach P s0 evs c"
    and min: "\<And>c'. chan_step P c c' \<Longrightarrow> \<not> chan_reach P s0 evs c'"
    by (metis (mono_tags, lifting) case_prodI mem_Collect_eq)
  then have "chan_stuck P c"
    unfolding chan_stuck_def chan_reach_def by (meson rtranclp.rtrancl_into_rtrancl)
  with reach show ?thesis by blast
qed

section \<open>Properties\<close>

text \<open>
  The \<open>record\<close> command never finishes once the trace has more than 64 events. Nobody receives
  from the streamer's raw channel, so in every execution the goroutine ends up blocked on sending the
  65th event (unless a panic stops the process first); the exchanges channel is never closed, and no
  test case is ever written, whether or not the recording is stopped.
\<close>

theorem record_hangs:
  assumes "64 < length evs"
  shows "(\<exists>c. chan_reach (record_stage H U ord) Map.empty evs c \<and> chan_stuck (record_stage H U ord) c) \<and>
    (\<forall>c. chan_reach (record_stage H U ord) Map.empty evs c \<longrightarrow>
       record_collected c = None \<and>
       (chan_stuck (record_stage H U ord) c \<longrightarrow> phase c = SendRaw (evs ! 64) \<or> (\<exists>p. phase c = Crashed p)))"
proof (intro conjI allI impI)
  show "\<exists>c. chan_reach (record_stage H U ord) Map.empty evs c \<and> chan_stuck (record_stage H U ord) c"
    by (rule chan_ends)
next
  fix c assume c: "chan_reach (record_stage H U ord) Map.empty evs c"
  show "record_collected c = None"
    using chan_blocked [OF c] assms by (simp add: record_collected_def streamer_stage_def)
  assume "chan_stuck (record_stage H U ord) c"
  then show "phase c = SendRaw (evs ! 64) \<or> (\<exists>p. phase c = Crashed p)"
    using chan_blocked_at [OF c] assms by (auto simp: streamer_stage_def)
qed

theorem record_hangs_witness:
  "\<exists>c. chan_reach (record_stage no_http ascii_tables sorted_order) Map.empty (replicate 65 sample_close) c \<and>
     chan_stuck (record_stage no_http ascii_tables sorted_order) c \<and> record_collected c = None"
  using record_hangs [of "replicate 65 sample_close" no_http ascii_tables sorted_order] by auto

text \<open>
  Up to 64 events \<open>record\<close> works: every execution ends with the exchanges channel closed, and
  what has been collected from it is exactly what the streamer computes from the trace, in order.
\<close>

theorem record_complete:
  assumes "length evs \<le> 64" and "streamer_Run H U ord evs = Ret (raw, exs)"
  shows "wf {(c', c). chan_step (record_stage H U ord) c c'} \<and>
    (\<forall>c. chan_reach (record_stage H U ord) Map.empty evs c \<and> chan_stuck (record_stage H U ord) c \<longrightarrow>
       record_collected c = Some exs)"
proof (intro conjI allI impI)
  show "wf {(c', c). chan_step (record_stage H U ord) c c'}" by (rule chan_step_terminates)
next
  fix c assume "chan_reach (record_stage H U ord) Map.empty evs c \<and> chan_stuck (record_stage H U ord) c"
  moreover have "stage_outcome (record_stage H U ord) Map.empty evs = Ret exs"
    by (simp add: streamer_outcome assms(2))
  ultimately show "record_collected c = Some exs"
    using chan_complete [of "record_stage H U ord" Map.empty evs c exs] assms(1)
    by (auto simp: record_collected_def streamer_stage_def)
qed

theorem record_complete_witness:
  "\<exists>c. chan_reach (record_stage no_http ascii_tables sorted_order) Map.empty [sample_write, sample_read] c \<and>
     chan_stuck (record_stage no_http ascii_tables sorted_order) c \<and> record_collected c = Some [sample_exchange]"
  using record_complete [OF _ sample_flush]
    chan_ends [of "record_stage no_http ascii_tables sorted_order" Map.empty "[sample_write, sample_read]"] by auto

text \<open>
  In \<open>trace\<close>, where both channels of each stage are received from, nothing is lost and nothing
  blocks for good, however long the trace and however the goroutines interleave: both stages pass
  every event on in order, and deliver all their snapshots or exchanges.
\<close>

theorem trace_stages_complete:
  assumes "correlator_Run timeOf fsAt evs = Ret (evs, conns)" and "streamer_Run H U ord evs = Ret (evs, exs)"
  shows "(\<forall>c. chan_reach (correlator_stage timeOf fsAt) correlator_init evs c \<and>
       chan_stuck (correlator_stage timeOf fsAt) c \<longrightarrow>
       phase c = ChannelsClosed \<and> rawGot c = evs \<and> outGot c = conns) \<and>
    (\<forall>c. chan_reach (streamer_stage H U ord True) Map.empty evs c \<and> chan_stuck (streamer_stage H U ord True) c \<longrightarrow>
       phase c = ChannelsClosed \<and> rawGot c = evs \<and> outGot c = exs)"
proof -
  have "stage_outcome (correlator_stage timeOf fsAt) correlator_init evs = Ret conns"
    and "stage_outcome (streamer_stage H U ord True) Map.empty evs = Ret exs"
    by (simp_all add: correlator_outcome streamer_outcome assms)
  then show ?thesis
    using chan_complete [of "correlator_stage timeOf fsAt" correlator_init evs _ conns]
      chan_complete [of "streamer_stage H U ord True" Map.empty evs _ exs]
    by (simp add: correlator_stage_def streamer_stage_def)
qed

theorem trace_stages_complete_witness:
  "\<exists>c. chan_reach (streamer_stage no_http ascii_tables sorted_order True) Map.empty [sample_write, sample_read] c \<and>
     phase c = ChannelsClosed \<and> rawGot c = [sample_write, sample_read] \<and> outGot c = [sample_exchange]"
proof -
  obtain s conns where "run_stage (correlator_loop (\<lambda>_. 0) (\<lambda>_ _. None)) correlator_init [sample_write, sample_read] = Ret (s, conns)"
    using correlator_run_returns by metis
  then have "correlator_Run (\<lambda>_. 0) (\<lambda>_ _. None) [sample_write, sample_read] = Ret ([sample_write, sample_read], conns)"
    by (simp add: correlator_Run_def del: run_stage.simps)
  from trace_stages_complete [OF this sample_flush]
    chan_ends [of "streamer_stage no_http ascii_tables sorted_order True" Map.empty "[sample_write, sample_read]"]
  show ?thesis by blast
qed

end
