(* ===== verification/EndToEnd.thy ===== *)
theory EndToEnd
  imports Replay Channels
begin

text \<open>
  From a recording to its replay: the dependencies the \<open>run\<close> command takes from a test case, and
  what the proxy answers to a client that sends the recorded commands again. Writing the test case
  to YAML and reading it back is left to \<open>gopkg.in/yaml.v3\<close> and not part of the statements.
\<close>

section \<open>Definitions\<close>

text \<open>The loop of \<open>runCmd\<close> over the dependencies of the test case.\<close>

definition redisDeps :: "Dependency list \<Rightarrow> Dependency list" where
  "redisDeps deps = filter (\<lambda>dep. depType dep = ''redis'') deps"

section \<open>Lemmas\<close>

lemma find_map_indices:
  assumes "j < n" and "Q j" and "P (f j)" and "\<And>l. l < j \<Longrightarrow> Q l \<Longrightarrow> \<not> P (f l)"
  shows "find P (map f (filter Q [0..<n])) = Some (f j)"
proof -
  have "[0..<n] = [0..<j] @ j # [Suc j..<n]"
    using assms(1) by (metis le0 less_imp_le_nat upt_add_eq_append upt_conv_Cons le_add_diff_inverse)
  moreover have "find P (map f (filter Q [0..<j])) = None"
    using assms(4) by (auto simp: find_None_iff)
  ultimately show ?thesis using assms(2,3) by (simp add: find_append)
qed

lemma redisDeps_dependencies: "redisDeps (map dependency_of calls) = map dependency_of calls"
  by (simp add: redisDeps_def dependency_of_def)

text \<open>The proxy's reply to a data command whose text first occurs at index \<open>j\<close> of the recording.\<close>

lemma proxy_reply_recorded:
  assumes "deps = map dependency_of (expected_calls U cmds reps @ later)"
    and "j < length cmds" and "data_command U (cmds ! j)" and "data_command U cmd"
    and "command_text U (cmds ! j) = command_text U cmd"
    and "\<forall>l < j. data_command U (cmds ! l) \<longrightarrow> command_text U (cmds ! l) \<noteq> command_text U cmd"
  shows "proxy_reply U deps cmd = EncodeReply (reply_at reps j)"
proof -
  let ?P = "\<lambda>dep. strings_ToLower U (depRequest dep) = command_text U cmd"
  let ?f = "\<lambda>i. dependency_of \<lparr>Command = cmds ! i, Reply = reply_at reps i\<rparr>"
  have "find ?P (map ?f (filter (\<lambda>i. data_command U (cmds ! i)) [0..<length cmds])) = Some (?f j)"
    by (rule find_map_indices) (use assms(2-6) in \<open>auto simp: dependency_of_def command_text_def\<close>)
  then have "find ?P deps = Some (?f j)"
    unfolding assms(1) map_append by (simp add: find_append expected_calls_def comp_def)
  then show ?thesis
    using assms(4) by (simp add: proxy_reply_def data_command_def dependency_of_def)
qed

section \<open>Properties\<close>

lemma decode_commands:
  assumes "list_all command_ok cmds" and "cmds \<noteq> []" and "list_all resp_wf reps"
    and "parseRESPValue (bytes_reader p) = Ret (Inl e)" and "parseRESPValue (bytes_reader q) = Ret (Inl e')"
    and "\<not> snd (TryHTTP H (concat (map encode_value reps) @ q) (concat (map encode_command cmds) @ p))"
    and "decode H U pid fd (concat (map encode_value reps) @ q) (concat (map encode_command cmds) @ p) tr = Ret (ex, True)"
  shows "exProtocol ex = ProtocolRedis \<and> exRedis ex = expected_calls U cmds reps"
proof -
  have "TryRESP U (concat (map encode_command cmds) @ p) (concat (map encode_value reps) @ q) =
      Ret (expected_calls U cmds reps, expected_calls U cmds reps \<noteq> [])"
    by (rule TryRESP_encoded [OF assms(1-5)])
  then show ?thesis using assms(6,7) by (auto simp: decode_def split: prod.splits bool.splits)
qed

lemma recorded_reply:
  assumes "exProtocol ex = ProtocolRedis \<and> exRedis ex = expected_calls U cmds reps"
    and "\<forall>call \<in> set (redis_calls before). command_text U (Command call) \<noteq> command_text U cmd"
    and "Build unmarshal name (before @ ex # after) = (tc, None)"
    and "data_command U cmd" and "j < length cmds" and "data_command U (cmds ! j)"
    and "command_text U (cmds ! j) = command_text U cmd"
    and "\<forall>l < j. data_command U (cmds ! l) \<longrightarrow> command_text U (cmds ! l) \<noteq> command_text U cmd"
    and "j < length reps"
  shows "proxy_reply U (redisDeps (tcDependencies tc)) cmd = EncodeReply (resp_String (reps ! j))"
proof -
  have "redis_calls (before @ ex # after) = redis_calls before @ expected_calls U cmds reps @ redis_calls after"
    using assms(1) by (simp add: redis_calls_def)
  then have "tcDependencies tc = map dependency_of (redis_calls before @ expected_calls U cmds reps @ redis_calls after)"
    using assms(3) unfolding Build_def build_fold by (auto simp: Let_def with_deps_def split: if_splits)
  then have deps: "redisDeps (tcDependencies tc) =
      map dependency_of (redis_calls before) @ map dependency_of (expected_calls U cmds reps @ redis_calls after)"
    by (simp only: redisDeps_dependencies flip: map_append)
  have "find (\<lambda>dep. strings_ToLower U (depRequest dep) = command_text U cmd) (map dependency_of (redis_calls before)) = None"
    using assms(2) by (auto simp: find_None_iff dependency_of_def command_text_def)
  then have "proxy_reply U (redisDeps (tcDependencies tc)) cmd =
      proxy_reply U (map dependency_of (expected_calls U cmds reps @ redis_calls after)) cmd"
    unfolding deps by (simp add: proxy_reply_def find_append)
  also have "\<dots> = EncodeReply (reply_at reps j)" by (rule proxy_reply_recorded [OF refl assms(5,6,4,7,8)])
  finally show ?thesis using assms(9) by (simp add: reply_at_def)
qed

text \<open>
  C6: What a replay of a recording answers. Take a Redis connection whose captured streams hold the
  commands \<open>cmds\<close> and the replies \<open>reps\<close>, with what a cut-off capture leaves of the next value, in a
  recording from which a test case is built, and a data command whose text, up to letter case, is first that
  of \<open>cmds ! j\<close>: no command before it on this connection, and none on a connection assembled earlier, has
  it. An application that sends this command to the proxy with that test case's dependencies reads the
  reply captured for \<open>cmds ! j\<close> exactly as it was if and only if that reply is an error, an integer, a
  null bulk string, or a status whose text is not that of one of these. Any reply rendered as one
  line that does not look like one of these, such as a bulk string, is read as a status with the
  rendered text. A later, different reply to the same text is never served.
\<close>

theorem record_then_replay:
  assumes "list_all command_ok cmds" and "cmds \<noteq> []" and "list_all resp_wf reps"
    and "parseRESPValue (bytes_reader p) = Ret (Inl e)" and "parseRESPValue (bytes_reader q) = Ret (Inl e')"
    and "\<not> snd (TryHTTP H (concat (map encode_value reps) @ q) (concat (map encode_command cmds) @ p))"
    and "decode H U pid fd (concat (map encode_value reps) @ q) (concat (map encode_command cmds) @ p) tr = Ret (ex, True)"
    and "\<forall>call \<in> set (redis_calls before). command_text U (Command call) \<noteq> command_text U cmd"
    and "Build unmarshal name (before @ ex # after) = (tc, None)"
    and "data_command U cmd" and "j < length cmds" and "data_command U (cmds ! j)"
    and "command_text U (cmds ! j) = command_text U cmd"
    and "\<forall>l < j. data_command U (cmds ! l) \<longrightarrow> command_text U (cmds ! l) \<noteq> command_text U cmd"
    and "j < length reps"
    and out: "out = proxy_reply U (redisDeps (tcDependencies tc)) cmd"
  shows "(answers out (reps ! j) \<longleftrightarrow> exact_reply (reps ! j)) \<and>
    (one_line (resp_String (reps ! j)) \<and> \<not> looks_special (resp_String (reps ! j)) \<longrightarrow>
       answers out (RESPValue (CHR ''+'') (resp_String (reps ! j)) [] False))"
proof -
  have "resp_wf (reps ! j)" using assms(3,15) by (simp add: list_all_length)
  moreover have "out = EncodeReply (resp_String (reps ! j))"
    unfolding out by (rule recorded_reply [OF decode_commands [OF assms(1-7)] assms(8-15)])
  ultimately show ?thesis using replayed_exactly [of "reps ! j"] replayed_as_text [of "reps ! j"] by blast
qed

definition incr_twice :: "bytes list list" where
  "incr_twice = [[''incr'', ''n''], [''incr'', ''n'']]"

definition incr_replies :: "RESPValue list" where
  "incr_replies = [RESPValue (CHR '':'') ''1'' [] False, RESPValue (CHR '':'') ''2'' [] False]"

definition http_exchange :: Exchange where
  "http_exchange = \<lparr>exPID = 7, exFD = 9, exProtocol = ProtocolHTTP, exHTTP = Some noExchange, exRedis = [],
     exTruncated = False\<rparr>"

definition incr_exchange :: Exchange where
  "incr_exchange = \<lparr>exPID = 7, exFD = 5, exProtocol = ProtocolRedis, exHTTP = None,
     exRedis = expected_calls ascii_tables incr_twice incr_replies, exTruncated = False\<rparr>"

definition incr_case :: "bytes TestCase" where
  "incr_case = fst (Build (\<lambda>_. None) ''t'' ([] @ incr_exchange # [http_exchange]))"

theorem record_then_replay_witness:
  "parseRESPValue (bytes_reader (proxy_reply ascii_tables (redisDeps (tcDependencies incr_case)) [''INCR'', ''n''])) =
     Ret (Inr (RESPValue (CHR '':'') ''1'' [] False, bytes_reader []))"
proof -
  have cmds: "list_all command_ok incr_twice" "incr_twice \<noteq> []"
    by (simp_all add: incr_twice_def command_ok_def command_value_def bulk_value_def maxAlloc_def resp_value_size_def)
  have reps: "list_all resp_wf incr_replies" by (simp add: incr_replies_def one_line_def)
  have "expected_calls ascii_tables incr_twice incr_replies \<noteq> []" by code_simp
  with TryRESP_encoded [OF cmds reps bytes_reader_empty_error bytes_reader_empty_error]
  have decoded: "decode no_http ascii_tables 7 5 (concat (map encode_value incr_replies) @ [])
      (concat (map encode_command incr_twice) @ []) False = Ret (incr_exchange, True)"
    by (simp add: decode_def no_http_fails incr_exchange_def)
  have build: "Build (\<lambda>_. None) ''t'' ([] @ incr_exchange # [http_exchange]) = (incr_case, None)"
    by (simp add: incr_case_def Build_def build_step_def incr_exchange_def http_exchange_def)
  have "data_command ascii_tables [''INCR'', ''n'']" "data_command ascii_tables (incr_twice ! 0)"
    "command_text ascii_tables (incr_twice ! 0) = command_text ascii_tables [''INCR'', ''n'']"
    by code_simp+
  moreover have "0 < length incr_twice" "0 < length incr_replies"
    by (simp_all add: incr_twice_def incr_replies_def)
  ultimately have "answers (proxy_reply ascii_tables (redisDeps (tcDependencies incr_case)) [''INCR'', ''n'']) (incr_replies ! 0) \<longleftrightarrow>
      exact_reply (incr_replies ! 0)"
    using record_then_replay [OF cmds reps bytes_reader_empty_error bytes_reader_empty_error _ decoded _ build]
    by (simp add: no_http_fails redis_calls_def)
  then have "answers (proxy_reply ascii_tables (redisDeps (tcDependencies incr_case)) [''INCR'', ''n'']) (incr_replies ! 0)"
    by (simp add: incr_replies_def exact_reply_def)
  from answers_reader [OF this] show ?thesis by (simp add: incr_replies_def)
qed

end
