(* ===== verification/ProxyLife.thy ===== *)
theory ProxyLife
  imports Replay
begin

text \<open>
  \<open>Serve\<close> and \<open>Close\<close> of \<open>internal/replay/proxy.go\<close> as they run concurrently: the accept loop, one
  goroutine per connection, and the wait group that \<open>Close\<close> waits on. What a connection's goroutine
  does is \<open>handleConn\<close> in theory \<open>Replay\<close>; here it is running or finished.
\<close>

section \<open>Steps\<close>

text \<open>
  The accept loop: inside \<open>Accept\<close>, holding an accepted connection before \<open>wg.Add(1)\<close>, behind it
  before the \<open>go\<close> statement, or returned. \<open>Close\<close>: not called, \<open>done\<close> set, listener closed and
  waiting, or returned.
\<close>

datatype serve_phase = Accepting | Accepted | Added | ServeReturned

datatype close_phase = NotCalled | DoneSet | WaitingForHandlers | CloseReturned

record proxy_state =
  listening :: bool
  serving :: serve_phase
  wg :: nat
  handlers :: nat
  doneFlag :: bool
  closing :: close_phase

definition proxy_init :: proxy_state where
  "proxy_init = \<lparr>listening = True, serving = Accepting, wg = 0, handlers = 0, doneFlag = False,
     closing = NotCalled\<rparr>"

inductive proxy_step :: "proxy_state \<Rightarrow> proxy_state \<Rightarrow> bool" where
  accept: "serving s = Accepting \<Longrightarrow> listening s \<Longrightarrow> proxy_step s (s\<lparr>serving := Accepted\<rparr>)"
| accept_error: "serving s = Accepting \<Longrightarrow> proxy_step s (s\<lparr>serving := ServeReturned\<rparr>)"
| wg_add: "serving s = Accepted \<Longrightarrow> proxy_step s (s\<lparr>wg := wg s + 1, serving := Added\<rparr>)"
| spawn: "serving s = Added \<Longrightarrow> proxy_step s (s\<lparr>handlers := handlers s + 1, serving := Accepting\<rparr>)"
| handler_done: "0 < handlers s \<Longrightarrow> proxy_step s (s\<lparr>handlers := handlers s - 1, wg := wg s - 1\<rparr>)"
| close_begin: "closing s = NotCalled \<Longrightarrow> proxy_step s (s\<lparr>doneFlag := True, closing := DoneSet\<rparr>)"
| close_listener: "closing s = DoneSet \<Longrightarrow>
    proxy_step s (s\<lparr>listening := False, closing := WaitingForHandlers\<rparr>)"
| wait_returns: "closing s = WaitingForHandlers \<Longrightarrow> wg s = 0 \<Longrightarrow> proxy_step s (s\<lparr>closing := CloseReturned\<rparr>)"

inductive_cases proxy_stepE: "proxy_step s s'"

definition proxy_reach :: "proxy_state \<Rightarrow> bool" where
  "proxy_reach s \<longleftrightarrow> proxy_step\<^sup>*\<^sup>* proxy_init s"

section \<open>Invariant\<close>

text \<open>
  The wait group counts the running handlers and the one about to start; the listener is closed
  from the moment \<open>Close\<close> waits; and after \<open>Close\<close> has returned at most the one connection that had
  been accepted before can still come into a handler.
\<close>

primrec in_hand :: "serve_phase \<Rightarrow> nat" where
  "in_hand Accepting = 0"
| "in_hand Accepted = 1"
| "in_hand Added = 1"
| "in_hand ServeReturned = 0"

definition proxy_inv :: "proxy_state \<Rightarrow> bool" where
  "proxy_inv s \<longleftrightarrow>
     wg s = handlers s + (if serving s = Added then 1 else 0) \<and>
     (listening s \<longleftrightarrow> closing s = NotCalled \<or> closing s = DoneSet) \<and>
     (doneFlag s \<longleftrightarrow> closing s \<noteq> NotCalled) \<and>
     (closing s = CloseReturned \<longrightarrow> handlers s + in_hand (serving s) \<le> 1)"

lemma proxy_inv_step: "proxy_step s s' \<Longrightarrow> proxy_inv s \<Longrightarrow> proxy_inv s'"
proof (induction rule: proxy_step.induct)
  case (wait_returns s)
  then show ?case by (cases "serving s") (auto simp: proxy_inv_def)
qed (auto simp: proxy_inv_def)

lemma proxy_inv_init: "proxy_inv proxy_init"
  by (simp add: proxy_inv_def proxy_init_def)

lemma proxy_reach_inv: "proxy_reach s \<Longrightarrow> proxy_inv s"
  unfolding proxy_reach_def
  by (induction rule: rtranclp_induct) (auto intro: proxy_inv_init proxy_inv_step)

section \<open>Properties\<close>

text \<open>
  C39: However the accept loop, the handlers and \<open>Close\<close> interleave, the wait group counts exactly the
  connection handlers that are running or about to be started, so it never goes below zero;
  \<open>Close\<close> returns only at a moment when no handler is running, no connection is accepted after it
  has closed the listener, and at most one connection, accepted before, is still served after it.
\<close>

theorem proxy_close_waits:
  assumes "proxy_reach s"
  shows "wg s = handlers s + (if serving s = Added then 1 else 0) \<and>
    (\<forall>s'. proxy_step s s' \<and> closing s \<noteq> CloseReturned \<and> closing s' = CloseReturned \<longrightarrow> handlers s' = 0) \<and>
    (closing s = WaitingForHandlers \<or> closing s = CloseReturned \<longrightarrow>
       (\<forall>s'. proxy_step s s' \<longrightarrow> serving s' = Accepted \<longrightarrow> serving s = Accepted)) \<and>
    (closing s = CloseReturned \<longrightarrow> handlers s \<le> 1)"
  using proxy_reach_inv [OF assms] by (auto simp: proxy_inv_def elim!: proxy_stepE)

lemma proxy_reach_step: "proxy_reach s \<Longrightarrow> proxy_step s s' \<Longrightarrow> proxy_reach s'"
  unfolding proxy_reach_def by (rule rtranclp.rtrancl_into_rtrancl)

text \<open>\<open>Close\<close> waits while the handler of one connection is running.\<close>

definition one_handler :: proxy_state where
  "one_handler = \<lparr>listening = False, serving = Accepting, wg = 1, handlers = 1, doneFlag = True,
     closing = WaitingForHandlers\<rparr>"

lemma reach_one_handler: "proxy_reach one_handler"
proof -
  let ?s1 = "proxy_init\<lparr>serving := Accepted\<rparr>"
  let ?s2 = "?s1\<lparr>wg := wg ?s1 + 1, serving := Added\<rparr>"
  let ?s3 = "?s2\<lparr>handlers := handlers ?s2 + 1, serving := Accepting\<rparr>"
  let ?s4 = "?s3\<lparr>doneFlag := True, closing := DoneSet\<rparr>"
  have init: "proxy_reach proxy_init" by (simp add: proxy_reach_def)
  have 1: "proxy_step proxy_init ?s1" by (rule accept) (simp_all add: proxy_init_def)
  have 2: "proxy_step ?s1 ?s2" by (rule wg_add) simp
  have 3: "proxy_step ?s2 ?s3" by (rule spawn) simp
  have 4: "proxy_step ?s3 ?s4" by (rule close_begin) (simp add: proxy_init_def)
  have 5: "proxy_step ?s4 (?s4\<lparr>listening := False, closing := WaitingForHandlers\<rparr>)" by (rule close_listener) simp
  note init [THEN proxy_reach_step, OF 1, THEN proxy_reach_step, OF 2, THEN proxy_reach_step, OF 3, THEN proxy_reach_step, OF 4,
    THEN proxy_reach_step, OF 5]
  then show ?thesis by (simp add: one_handler_def proxy_init_def)
qed

theorem proxy_close_waits_witness:
  "\<exists>s s' s''. proxy_reach s \<and> closing s = WaitingForHandlers \<and> handlers s = 1 \<and> wg s = 1 \<and>
     \<not> (\<exists>t. proxy_step s t \<and> closing t = CloseReturned) \<and> proxy_step s s' \<and> wg s' = 0 \<and>
     proxy_step s' s'' \<and> closing s'' = CloseReturned \<and> handlers s'' = 0"
proof -
  let ?s' = "one_handler\<lparr>handlers := handlers one_handler - 1, wg := wg one_handler - 1\<rparr>"
  let ?s'' = "?s'\<lparr>closing := CloseReturned\<rparr>"
  have step: "proxy_step one_handler ?s'" by (rule handler_done) (simp add: one_handler_def)
  have step': "proxy_step ?s' ?s''" by (rule wait_returns) (simp_all add: one_handler_def)
  note waits = proxy_close_waits [OF reach_one_handler]
  have "\<not> (proxy_step one_handler t \<and> closing t = CloseReturned)" for t
  proof
    assume t: "proxy_step one_handler t \<and> closing t = CloseReturned"
    with waits have "handlers t = 0" by (simp add: one_handler_def)
    with t show False by (auto simp: one_handler_def elim!: proxy_stepE)
  qed
  moreover have "wg one_handler = 1" using waits by (simp add: one_handler_def)
  moreover have "handlers ?s'' = 0"
    using proxy_close_waits [OF proxy_reach_step [OF reach_one_handler step]] step' by (simp add: one_handler_def)
  ultimately show ?thesis
    using reach_one_handler step step' by (intro exI [of _ one_handler] exI [of _ ?s'] exI [of _ ?s'']) (simp add: one_handler_def)
qed

section \<open>Close returns\<close>

text \<open>What the goroutines still have to do once the listener is closed.\<close>

primrec serve_work :: "serve_phase \<Rightarrow> nat" where
  "serve_work Accepting = 1"
| "serve_work Accepted = 4"
| "serve_work Added = 3"
| "serve_work ServeReturned = 0"

definition close_work :: "proxy_state \<Rightarrow> nat" where
  "close_work s = serve_work (serving s) + handlers s + of_bool (closing s = WaitingForHandlers)"

definition listener_closed :: "proxy_state \<Rightarrow> bool" where
  "listener_closed s \<longleftrightarrow> closing s = WaitingForHandlers \<or> closing s = CloseReturned"

lemma close_work_step:
  assumes "proxy_step s s'" and "proxy_inv s" and "listener_closed s"
  shows "close_work s' < close_work s \<and> listener_closed s'"
  using assms by (cases rule: proxy_step.cases) (auto simp: close_work_def listener_closed_def proxy_inv_def)

lemma close_work_run:
  assumes "(proxy_step ^^ k) s s'" and "proxy_inv s" and "listener_closed s"
  shows "close_work s' + k \<le> close_work s \<and> listener_closed s' \<and> proxy_inv s'"
  using assms(1)
proof (induction k arbitrary: s')
  case (Suc k)
  then obtain t where "(proxy_step ^^ k) s t" and step: "proxy_step t s'" by auto
  with Suc.IH have t: "close_work t + k \<le> close_work s" "listener_closed t" "proxy_inv t" by blast+
  with close_work_step [OF step t(3,2)] proxy_inv_step [OF step t(3)] show ?case by simp
qed (use assms in simp)

lemma proxy_at_rest:
  assumes "proxy_inv s" and "\<And>t. \<not> proxy_step s t"
  shows "closing s = CloseReturned \<and> serving s = ServeReturned \<and> handlers s = 0 \<and> wg s = 0"
proof -
  have "handlers s = 0" using assms(2) handler_done by blast
  moreover have "serving s = ServeReturned"
    using assms(2) accept_error wg_add spawn by (cases "serving s") blast+
  ultimately have "wg s = 0" using assms(1) by (simp add: proxy_inv_def)
  moreover have "closing s = CloseReturned"
    using assms(2) close_begin close_listener wait_returns [OF _ \<open>wg s = 0\<close>] by (cases "closing s") blast+
  ultimately show ?thesis using \<open>handlers s = 0\<close> \<open>serving s = ServeReturned\<close> by blast
qed

text \<open>
  C33: \<open>Close\<close> returns, whatever the interleaving, when the clients disconnect (a handler that is running
  can always come to its end). The proxy can only come to rest with \<open>Close\<close> and the accept loop returned,
  no handler running and the wait group at zero: no handler is forgotten in the count and none counted
  twice, so that \<open>Close\<close> is never left waiting. And from the moment the listener is closed every
  execution comes to rest, after at most five steps more than there are handlers to finish.
\<close>

theorem proxy_close_returns:
  assumes "proxy_reach s"
  shows "((\<nexists>t. proxy_step s t) \<longrightarrow>
      closing s = CloseReturned \<and> serving s = ServeReturned \<and> handlers s = 0 \<and> wg s = 0) \<and>
    (closing s = WaitingForHandlers \<and> (proxy_step ^^ k) s s' \<longrightarrow> k \<le> handlers s + 5)"
proof -
  have inv: "proxy_inv s" by (rule proxy_reach_inv [OF assms])
  have "serve_work (serving s) \<le> 4" by (cases "serving s") simp_all
  then have "k \<le> handlers s + 5" if "closing s = WaitingForHandlers" "(proxy_step ^^ k) s s'"
    using close_work_run [OF that(2) inv] that(1) by (simp add: listener_closed_def close_work_def)
  with proxy_at_rest [OF inv] show ?thesis by blast
qed

theorem proxy_close_returns_witness:
  "\<exists>k s'. (proxy_step ^^ k) one_handler s' \<and> k \<le> 6 \<and> closing s' = CloseReturned \<and> handlers s' = 0 \<and> wg s' = 0"
proof -
  have "\<exists>s'. proxy_step\<^sup>*\<^sup>* s s' \<and> (\<nexists>t. proxy_step s' t)" if "proxy_inv s" "listener_closed s" for s
    using that
  proof (induction "close_work s" arbitrary: s rule: less_induct)
    case less
    show ?case
    proof (cases "\<exists>t. proxy_step s t")
      case True
      then obtain t where step: "proxy_step s t" ..
      with less close_work_step [OF step less.prems] proxy_inv_step [OF step] show ?thesis
        by (meson converse_rtranclp_into_rtranclp)
    qed blast
  qed
  moreover have "listener_closed one_handler" by (simp add: listener_closed_def one_handler_def)
  ultimately obtain s' where run: "proxy_step\<^sup>*\<^sup>* one_handler s'" and rest: "\<nexists>t. proxy_step s' t"
    using proxy_reach_inv [OF reach_one_handler] by blast
  then have "proxy_reach s'" using reach_one_handler unfolding proxy_reach_def by (meson rtranclp_trans)
  moreover obtain k where k: "(proxy_step ^^ k) one_handler s'" using run by (meson rtranclp_imp_relpowp)
  ultimately show ?thesis
    using proxy_close_returns [of s'] proxy_close_returns [OF reach_one_handler, of k s'] rest
    by (intro exI [of _ k] exI [of _ s']) (simp add: one_handler_def)
qed

section \<open>A race\<close>

text \<open>
  That one connection exists: \<open>Close\<close> can return while a handler is still to serve its
  connection, because \<open>wg.Add\<close> runs only after \<open>Accept\<close> has returned and \<open>wg.Wait\<close> may see the
  counter at zero in between.
\<close>

theorem proxy_close_races_accept:
  "\<exists>s. proxy_reach s \<and> closing s = CloseReturned \<and> handlers s = 1"
proof -
  let ?s1 = "proxy_init\<lparr>serving := Accepted\<rparr>"
  let ?s2 = "?s1\<lparr>doneFlag := True, closing := DoneSet\<rparr>"
  let ?s3 = "?s2\<lparr>listening := False, closing := WaitingForHandlers\<rparr>"
  let ?s4 = "?s3\<lparr>closing := CloseReturned\<rparr>"
  let ?s5 = "?s4\<lparr>wg := wg ?s4 + 1, serving := Added\<rparr>"
  let ?s6 = "?s5\<lparr>handlers := handlers ?s5 + 1, serving := Accepting\<rparr>"
  have "proxy_step proxy_init ?s1" by (rule accept) (simp_all add: proxy_init_def)
  moreover have "proxy_step ?s1 ?s2" by (rule close_begin) (simp add: proxy_init_def)
  moreover have "proxy_step ?s2 ?s3" by (rule close_listener) simp
  moreover have "proxy_step ?s3 ?s4" by (rule wait_returns) (simp_all add: proxy_init_def)
  moreover have "proxy_step ?s4 ?s5" by (rule wg_add) simp
  moreover have "proxy_step ?s5 ?s6" by (rule spawn) simp
  ultimately have "proxy_reach ?s6"
    unfolding proxy_reach_def by (meson converse_rtranclp_into_rtranclp rtranclp.rtrancl_refl)
  then show ?thesis by (intro exI [of _ ?s6]) (simp add: proxy_init_def)
qed

end
