(* ===== verification/Bindings.thy ===== *)
theory Bindings
  imports Prelude
begin

text \<open>
  \<open>internal/bpfgen\<close>: the bindings that bpf2go generates for the two kernel objects: the structs that
  hold the loaded programs and maps, and how they are closed. The two variants of each file (little
  and big endian) differ in the embedded object only. Loading is cilium/ebpf's.
\<close>

section \<open>Objects\<close>

text \<open>What the process holds of the kernel: programs and maps by name, links, ring buffer readers.\<close>

datatype bpf_obj = SyscallProgram bytes | SyscallMap bytes | TlsProgram bytes | TlsMap bytes

datatype handle =
  Obj bpf_obj | Tracepoint bytes "bpf_obj option" | Uprobe bytes bool "bpf_obj option" | SyscallReader | TlsReader

text \<open>The pointers of the structs; \<^const>\<open>None\<close> is nil, the zero value.\<close>

record SyscallPrograms =
  TraceEnterClose :: "bpf_obj option"
  TraceEnterConnect :: "bpf_obj option"
  TraceEnterRead :: "bpf_obj option"
  TraceEnterWrite :: "bpf_obj option"
  TraceExitRead :: "bpf_obj option"

record SyscallMaps =
  syscallEvents :: "bpf_obj option"
  ReadStash :: "bpf_obj option"

record SyscallObjects =
  syscallPrograms :: SyscallPrograms
  syscallMaps :: SyscallMaps

record TlsPrograms =
  TraceSslReadEnter :: "bpf_obj option"
  TraceSslReadExit :: "bpf_obj option"
  TraceSslWrite :: "bpf_obj option"

record TlsMaps =
  tlsEvents :: "bpf_obj option"
  SslReadStash :: "bpf_obj option"

record TlsObjects =
  tlsPrograms :: TlsPrograms
  tlsMaps :: TlsMaps

text \<open>Names of the programs and maps in the objects.\<close>

definition syscall_names :: "bpf_obj list" where
  "syscall_names =
     [SyscallMap ''events'', SyscallMap ''read_stash'', SyscallProgram ''trace_enter_close'',
      SyscallProgram ''trace_enter_connect'', SyscallProgram ''trace_enter_read'', SyscallProgram ''trace_enter_write'',
      SyscallProgram ''trace_exit_read'']"

definition tls_names :: "bpf_obj list" where
  "tls_names =
     [TlsMap ''events'', TlsMap ''ssl_read_stash'', TlsProgram ''trace_ssl_read_enter'',
      TlsProgram ''trace_ssl_read_exit'', TlsProgram ''trace_ssl_write'']"

text \<open>What \<open>LoadAndAssign\<close> puts into the structs: every field is the object its tag names.\<close>

definition assigned_syscall :: SyscallObjects where
  "assigned_syscall =
     \<lparr>syscallPrograms =
        \<lparr>TraceEnterClose = Some (SyscallProgram ''trace_enter_close''),
         TraceEnterConnect = Some (SyscallProgram ''trace_enter_connect''),
         TraceEnterRead = Some (SyscallProgram ''trace_enter_read''),
         TraceEnterWrite = Some (SyscallProgram ''trace_enter_write''),
         TraceExitRead = Some (SyscallProgram ''trace_exit_read'')\<rparr>,
      syscallMaps = \<lparr>syscallEvents = Some (SyscallMap ''events''), ReadStash = Some (SyscallMap ''read_stash'')\<rparr>\<rparr>"

definition assigned_tls :: TlsObjects where
  "assigned_tls =
     \<lparr>tlsPrograms =
        \<lparr>TraceSslReadEnter = Some (TlsProgram ''trace_ssl_read_enter''),
         TraceSslReadExit = Some (TlsProgram ''trace_ssl_read_exit''),
         TraceSslWrite = Some (TlsProgram ''trace_ssl_write'')\<rparr>,
      tlsMaps = \<lparr>tlsEvents = Some (TlsMap ''events''), SslReadStash = Some (TlsMap ''ssl_read_stash'')\<rparr>\<rparr>"

definition no_tls_objects :: TlsObjects where
  "no_tls_objects =
     \<lparr>tlsPrograms = \<lparr>TraceSslReadEnter = None, TraceSslReadExit = None, TraceSslWrite = None\<rparr>,
      tlsMaps = \<lparr>tlsEvents = None, SslReadStash = None\<rparr>\<rparr>"

section \<open>Closing\<close>

text \<open>
  An \<open>io.Closer\<close>: what is held afterwards, and the error. \<open>closeErr\<close> tells what closing an object
  reports; closing a single object releases it whatever it reports, and closing a nil pointer does nothing.
\<close>

type_synonym 'err closer = "handle set \<Rightarrow> handle set \<times> 'err option"

definition handle_Close :: "(handle \<Rightarrow> 'err option) \<Rightarrow> handle \<Rightarrow> 'err closer" where
  "handle_Close closeErr h held = (held - {h}, closeErr h)"

definition ptr_Close :: "(handle \<Rightarrow> 'err option) \<Rightarrow> bpf_obj option \<Rightarrow> 'err closer" where
  "ptr_Close closeErr p held = (case p of None \<Rightarrow> (held, None) | Some ob \<Rightarrow> handle_Close closeErr (Obj ob) held)"

text \<open>\<open>_SyscallClose\<close> and \<open>_TlsClose\<close>: the loop returns at the first error.\<close>

fun bindings_Close :: "'err closer list \<Rightarrow> 'err closer" where
  "bindings_Close [] held = (held, None)"
| "bindings_Close (cl # cls) held =
     (case cl held of
        (held', Some e) \<Rightarrow> (held', Some e)
      | (held', None) \<Rightarrow> bindings_Close cls held')"

definition SyscallPrograms_Close :: "(handle \<Rightarrow> 'err option) \<Rightarrow> SyscallPrograms \<Rightarrow> 'err closer" where
  "SyscallPrograms_Close closeErr p =
     bindings_Close
       [ptr_Close closeErr (TraceEnterClose p), ptr_Close closeErr (TraceEnterConnect p),
        ptr_Close closeErr (TraceEnterRead p), ptr_Close closeErr (TraceEnterWrite p), ptr_Close closeErr (TraceExitRead p)]"

definition SyscallMaps_Close :: "(handle \<Rightarrow> 'err option) \<Rightarrow> SyscallMaps \<Rightarrow> 'err closer" where
  "SyscallMaps_Close closeErr m = bindings_Close [ptr_Close closeErr (syscallEvents m), ptr_Close closeErr (ReadStash m)]"

definition SyscallObjects_Close :: "(handle \<Rightarrow> 'err option) \<Rightarrow> SyscallObjects \<Rightarrow> 'err closer" where
  "SyscallObjects_Close closeErr ob =
     bindings_Close [SyscallPrograms_Close closeErr (syscallPrograms ob), SyscallMaps_Close closeErr (syscallMaps ob)]"

definition TlsPrograms_Close :: "(handle \<Rightarrow> 'err option) \<Rightarrow> TlsPrograms \<Rightarrow> 'err closer" where
  "TlsPrograms_Close closeErr p =
     bindings_Close
       [ptr_Close closeErr (TraceSslReadEnter p), ptr_Close closeErr (TraceSslReadExit p), ptr_Close closeErr (TraceSslWrite p)]"

definition TlsMaps_Close :: "(handle \<Rightarrow> 'err option) \<Rightarrow> TlsMaps \<Rightarrow> 'err closer" where
  "TlsMaps_Close closeErr m = bindings_Close [ptr_Close closeErr (tlsEvents m), ptr_Close closeErr (SslReadStash m)]"

definition TlsObjects_Close :: "(handle \<Rightarrow> 'err option) \<Rightarrow> TlsObjects \<Rightarrow> 'err closer" where
  "TlsObjects_Close closeErr ob =
     bindings_Close [TlsPrograms_Close closeErr (tlsPrograms ob), TlsMaps_Close closeErr (tlsMaps ob)]"

section \<open>The contract of a closer\<close>

definition opt_list :: "'a option \<Rightarrow> 'a list" where
  "opt_list oh = (case oh of None \<Rightarrow> [] | Some h \<Rightarrow> [h])"

lemma set_opt_list [simp]: "set (opt_list oh) = set_option oh"
  by (cases oh) (simp_all add: opt_list_def)

text \<open>The errors of a sequence of closes: the first one counts, and what stands behind it is not closed.\<close>

primrec first_err :: "(handle \<Rightarrow> 'err option) \<Rightarrow> handle list \<Rightarrow> 'err option" where
  "first_err closeErr [] = None"
| "first_err closeErr (h # hs) = (case closeErr h of None \<Rightarrow> first_err closeErr hs | Some e \<Rightarrow> Some e)"

primrec closed_prefix :: "(handle \<Rightarrow> 'err option) \<Rightarrow> handle list \<Rightarrow> handle list" where
  "closed_prefix closeErr [] = []"
| "closed_prefix closeErr (h # hs) = h # (case closeErr h of None \<Rightarrow> closed_prefix closeErr hs | Some e \<Rightarrow> [])"

lemma first_err_append:
  "first_err closeErr (hs @ ks) = (case first_err closeErr hs of None \<Rightarrow> first_err closeErr ks | Some e \<Rightarrow> Some e)"
  by (induction hs) (auto split: option.splits)

lemma closed_prefix_append:
  "closed_prefix closeErr (hs @ ks) =
     closed_prefix closeErr hs @ (case first_err closeErr hs of None \<Rightarrow> closed_prefix closeErr ks | Some e \<Rightarrow> [])"
  by (induction hs) (auto split: option.splits)

lemma first_err_None: "first_err closeErr hs = None \<longleftrightarrow> (\<forall>h \<in> set hs. closeErr h = None)"
  by (induction hs) (auto split: option.splits)

lemma closed_prefix_None: "first_err closeErr hs = None \<Longrightarrow> closed_prefix closeErr hs = hs"
  by (induction hs) (auto split: option.splits)

lemma closed_prefix_subset: "set (closed_prefix closeErr hs) \<subseteq> set hs"
  by (induction hs) (auto split: option.splits)

text \<open>
  \<open>parts\<close> are the objects of a closer in the order in which it closes them. A closer stops behind the
  first object that reports an error, and returns that error.
\<close>

locale closer =
  fixes close :: "'err closer" and closeErr :: "handle \<Rightarrow> 'err option" and parts :: "handle list"
  assumes closes: "close held = (held - set (closed_prefix closeErr parts), first_err closeErr parts)"
begin

lemma clean: "first_err closeErr parts = None \<Longrightarrow> close held = (held - set parts, None)"
  by (simp add: closes closed_prefix_None)

lemma keeps_others: "x \<in> held \<Longrightarrow> x \<notin> set parts \<Longrightarrow> x \<in> fst (close held)"
  using closed_prefix_subset [of closeErr parts] by (auto simp: closes)

lemma releases_subset: "fst (close held) \<subseteq> held"
  by (auto simp: closes)

end

lemma closer_handle: "closer (handle_Close closeErr h) closeErr [h]"
  by unfold_locales (simp add: handle_Close_def split: option.splits)

lemma closer_ptr: "closer (ptr_Close closeErr p) closeErr (map Obj (opt_list p))"
  by unfold_locales (simp add: ptr_Close_def handle_Close_def opt_list_def split: option.splits)

text \<open>The loop over closers is a closer of all their objects.\<close>

lemma closer_Nil: "closer (bindings_Close []) closeErr []"
  by unfold_locales simp

lemma closer_Cons:
  assumes "closer cl closeErr ps" and "closer (bindings_Close cls) closeErr qs"
  shows "closer (bindings_Close (cl # cls)) closeErr (ps @ qs)"
proof
  fix held
  show "bindings_Close (cl # cls) held = (held - set (closed_prefix closeErr (ps @ qs)), first_err closeErr (ps @ qs))"
    using closer.closes [OF assms(1), of held] closer.closes [OF assms(2)]
    by (auto simp: closed_prefix_append first_err_append closed_prefix_None split: option.splits)
qed

definition syscall_parts :: "SyscallObjects \<Rightarrow> handle list" where
  "syscall_parts ob =
     (let p = syscallPrograms ob; m = syscallMaps ob in
      map Obj (opt_list (TraceEnterClose p) @ opt_list (TraceEnterConnect p) @ opt_list (TraceEnterRead p) @
        opt_list (TraceEnterWrite p) @ opt_list (TraceExitRead p) @ opt_list (syscallEvents m) @ opt_list (ReadStash m)))"

definition tls_parts :: "TlsObjects \<Rightarrow> handle list" where
  "tls_parts ob =
     (let p = tlsPrograms ob; m = tlsMaps ob in
      map Obj (opt_list (TraceSslReadEnter p) @ opt_list (TraceSslReadExit p) @ opt_list (TraceSslWrite p) @
        opt_list (tlsEvents m) @ opt_list (SslReadStash m)))"

lemmas closer_intros = closer_Cons closer_Nil closer_ptr

lemma closer_append_Nil: "closer cl closeErr (ps @ []) \<Longrightarrow> closer cl closeErr ps"
  by simp

interpretation syscall_objects: closer "SyscallObjects_Close closeErr ob" closeErr "syscall_parts ob" for closeErr ob
proof -
  have "closer (SyscallPrograms_Close closeErr p) closeErr
      (map Obj (opt_list (TraceEnterClose p)) @ map Obj (opt_list (TraceEnterConnect p)) @ map Obj (opt_list (TraceEnterRead p)) @
        map Obj (opt_list (TraceEnterWrite p)) @ map Obj (opt_list (TraceExitRead p)) @ [])" for p
    unfolding SyscallPrograms_Close_def by (intro closer_intros)
  moreover have "closer (SyscallMaps_Close closeErr m) closeErr
      (map Obj (opt_list (syscallEvents m)) @ map Obj (opt_list (ReadStash m)) @ [])" for m
    unfolding SyscallMaps_Close_def by (intro closer_intros)
  ultimately have "closer (SyscallObjects_Close closeErr ob) closeErr
     ((map Obj (opt_list (TraceEnterClose (syscallPrograms ob))) @ map Obj (opt_list (TraceEnterConnect (syscallPrograms ob))) @
       map Obj (opt_list (TraceEnterRead (syscallPrograms ob))) @ map Obj (opt_list (TraceEnterWrite (syscallPrograms ob))) @
       map Obj (opt_list (TraceExitRead (syscallPrograms ob))) @ []) @
      (map Obj (opt_list (syscallEvents (syscallMaps ob))) @ map Obj (opt_list (ReadStash (syscallMaps ob))) @ []) @ [])"
    unfolding SyscallObjects_Close_def by (intro closer_Cons closer_Nil)
  then show "closer (SyscallObjects_Close closeErr ob) closeErr (syscall_parts ob)"
    by (simp add: syscall_parts_def Let_def)
qed

interpretation tls_objects: closer "TlsObjects_Close closeErr ob" closeErr "tls_parts ob" for closeErr ob
proof -
  have "closer (TlsPrograms_Close closeErr p) closeErr
      (map Obj (opt_list (TraceSslReadEnter p)) @ map Obj (opt_list (TraceSslReadExit p)) @
        map Obj (opt_list (TraceSslWrite p)) @ [])" for p
    unfolding TlsPrograms_Close_def by (intro closer_intros)
  moreover have "closer (TlsMaps_Close closeErr m) closeErr
      (map Obj (opt_list (tlsEvents m)) @ map Obj (opt_list (SslReadStash m)) @ [])" for m
    unfolding TlsMaps_Close_def by (intro closer_intros)
  ultimately have "closer (TlsObjects_Close closeErr ob) closeErr
     ((map Obj (opt_list (TraceSslReadEnter (tlsPrograms ob))) @ map Obj (opt_list (TraceSslReadExit (tlsPrograms ob))) @
       map Obj (opt_list (TraceSslWrite (tlsPrograms ob))) @ []) @
      (map Obj (opt_list (tlsEvents (tlsMaps ob))) @ map Obj (opt_list (SslReadStash (tlsMaps ob))) @ []) @ [])"
    unfolding TlsObjects_Close_def by (intro closer_Cons closer_Nil)
  then show "closer (TlsObjects_Close closeErr ob) closeErr (tls_parts ob)"
    by (simp add: tls_parts_def Let_def)
qed

text \<open>The structs hold exactly the objects that the names list, each once.\<close>

lemma assigned_parts:
  "set (syscall_parts assigned_syscall) = Obj ` set syscall_names" "distinct (syscall_parts assigned_syscall)"
  "set (tls_parts assigned_tls) = Obj ` set tls_names" "distinct (tls_parts assigned_tls)"
  by (auto simp: syscall_parts_def tls_parts_def assigned_syscall_def assigned_tls_def syscall_names_def tls_names_def
      opt_list_def Let_def)

lemma no_tls_parts [simp]: "tls_parts no_tls_objects = []"
  by (simp add: tls_parts_def no_tls_objects_def opt_list_def Let_def)

text \<open>What stays held of a group after its \<open>Close\<close>.\<close>

definition behind_error :: "(handle \<Rightarrow> 'err option) \<Rightarrow> handle list \<Rightarrow> handle set" where
  "behind_error closeErr hs = set hs - set (closed_prefix closeErr hs)"

lemma behind_error_clean: "\<forall>h \<in> set hs. closeErr h = None \<Longrightarrow> behind_error closeErr hs = {}"
  by (simp add: behind_error_def closed_prefix_None first_err_None)

lemma behind_error_subset: "behind_error closeErr hs \<subseteq> set hs"
  by (auto simp: behind_error_def)

end
