(* ===== verification/Attach.thy ===== *)
theory Attach
  imports Collector Bindings
begin

text \<open>
  \<open>internal/collector\<close>: attaching the kernel programs (\<open>New\<close>, \<open>EnableTLS\<close>) and releasing them
  (\<open>Close\<close>), with the kernel objects the process holds as explicit state. The outcome of every call
  into cilium/ebpf and the system is a parameter: \<open>ok\<close> tells which calls succeed, \<open>closeErr\<close> what
  closing an object reports. A call that fails leaves nothing behind, as the library documents.
\<close>

section \<open>Calls\<close>

datatype bpf_call =
  RemoveMemlock | LoadSyscall | SetTargetPid uint32 | LoadSyscallObjects | LinkTracepoint bytes "bpf_obj option"
  | NewSyscallReader "bpf_obj option" | LoadTls | SetTlsTargetPid uint32 | LoadTlsObjects | OpenExecutable bytes
  | LinkUprobe bytes bool "bpf_obj option" | NewTlsReader "bpf_obj option"

datatype attach_error =
  PidZero | MemlockError | SpecError | TargetPidError | LoadError | ClockError | TracepointError bytes
  | ReaderError | FindLibssl maps_error | TlsSpecError | TlsTargetPidError | TlsLoadError
  | OpenError bytes | UprobeError bytes bool | TlsReaderError

record Collector =
  collPID :: uint32
  collObjs :: SyscallObjects
  collLinks :: "handle list"
  collRd :: "handle option"
  tlsEnabled :: bool
  tlsObjs :: TlsObjects
  tlsRd :: "handle option"
  collRef :: clock_ref

section \<open>Close\<close>

text \<open>One \<open>Close\<close> call, and the first error is kept.\<close>

definition close_one :: "'err closer \<Rightarrow> handle set \<times> 'err option \<Rightarrow> handle set \<times> 'err option" where
  "close_one cl s =
     (case s of (held, firstErr) \<Rightarrow>
        (case cl held of (held', e) \<Rightarrow> (held', if e \<noteq> None \<and> firstErr = None then e else firstErr)))"

definition close_opt :: "(handle \<Rightarrow> 'err option) \<Rightarrow> handle option \<Rightarrow> handle set \<times> 'err option \<Rightarrow> handle set \<times> 'err option" where
  "close_opt closeErr oh s = (case oh of None \<Rightarrow> s | Some h \<Rightarrow> close_one (handle_Close closeErr h) s)"

definition collector_Close :: "(handle \<Rightarrow> 'err option) \<Rightarrow> handle set \<Rightarrow> Collector \<Rightarrow> handle set \<times> 'err option" where
  "collector_Close closeErr held c =
     (let s1 = close_opt closeErr (collRd c) (held, None);
          s2 = close_opt closeErr (tlsRd c) s1;
          s3 = foldl (\<lambda>s l. close_one (handle_Close closeErr l) s) s2 (collLinks c);
          s4 = close_one (SyscallObjects_Close closeErr (collObjs c)) s3
      in if tlsEnabled c then close_one (TlsObjects_Close closeErr (tlsObjs c)) s4 else s4)"

section \<open>New\<close>

definition tracepoints :: "SyscallObjects \<Rightarrow> (bytes \<times> bpf_obj option) list" where
  "tracepoints objs =
     (let p = syscallPrograms objs in
      [(''sys_enter_connect'', TraceEnterConnect p), (''sys_enter_write'', TraceEnterWrite p),
       (''sys_enter_read'', TraceEnterRead p), (''sys_exit_read'', TraceExitRead p), (''sys_enter_close'', TraceEnterClose p)])"

text \<open>The loop over the tracepoints; the error of the \<open>c.Close()\<close> on the way out is dropped.\<close>

primrec attach_tracepoints ::
  "(bpf_call \<Rightarrow> bool) \<Rightarrow> (handle \<Rightarrow> 'err option) \<Rightarrow> handle set \<Rightarrow> Collector \<Rightarrow> (bytes \<times> bpf_obj option) list \<Rightarrow>
     handle set \<times> (attach_error + Collector)" where
  "attach_tracepoints ok closeErr held c [] = (held, Inr c)"
| "attach_tracepoints ok closeErr held c (tp # tps) =
     (case tp of (name, prog) \<Rightarrow>
        if ok (LinkTracepoint name prog)
        then attach_tracepoints ok closeErr (insert (Tracepoint name prog) held)
               (c\<lparr>collLinks := collLinks c @ [Tracepoint name prog]\<rparr>) tps
        else (fst (collector_Close closeErr held c), Inl (TracepointError name)))"

text \<open>
  \<open>New\<close>; \<open>clock\<close> is what \<open>clock_gettime(CLOCK_MONOTONIC)\<close> (seconds, nanoseconds; none if it fails)
  and then \<open>time.Now()\<close> give.
\<close>

definition collector_New ::
  "(bpf_call \<Rightarrow> bool) \<Rightarrow> (handle \<Rightarrow> 'err option) \<Rightarrow> (int \<times> int) option \<times> int \<Rightarrow> uint32 \<Rightarrow> handle set \<Rightarrow>
     handle set \<times> (attach_error + Collector)" where
  "collector_New ok closeErr clock pid held =
     (if pid = 0 then (held, Inl PidZero)
      else if \<not> ok RemoveMemlock then (held, Inl MemlockError)
      else if \<not> ok LoadSyscall then (held, Inl SpecError)
      else if \<not> ok (SetTargetPid pid) then (held, Inl TargetPidError)
      else if \<not> ok LoadSyscallObjects then (held, Inl LoadError)
      else let objs = assigned_syscall; held1 = set (syscall_parts objs) \<union> held in
        (case fst clock of
           None \<Rightarrow> (held1, Inl ClockError)
         | Some (sec, nsec) \<Rightarrow>
             (let c = \<lparr>collPID = pid, collObjs = objs, collLinks = [], collRd = None, tlsEnabled = False,
                       tlsObjs = no_tls_objects, tlsRd = None,
                       collRef = \<lparr>monoRefNs = mono_ns sec nsec, wallRef = snd clock\<rparr>\<rparr> in
              case attach_tracepoints ok closeErr held1 c (tracepoints objs) of
                (held2, Inl e) \<Rightarrow> (held2, Inl e)
              | (held2, Inr c') \<Rightarrow>
                  if ok (NewSyscallReader (syscallEvents (syscallMaps objs)))
                  then (insert SyscallReader held2, Inr (c'\<lparr>collRd := Some SyscallReader\<rparr>))
                  else (fst (collector_Close closeErr held2 c'), Inl ReaderError))))"

section \<open>EnableTLS\<close>

definition uprobes :: "TlsObjects \<Rightarrow> (bytes \<times> bpf_obj option \<times> bool) list" where
  "uprobes objs =
     (let p = tlsPrograms objs in
      [(''SSL_write'', TraceSslWrite p, False), (''SSL_read'', TraceSslReadEnter p, False),
       (''SSL_read'', TraceSslReadExit p, True)])"

text \<open>The collector is updated through a pointer, so what was attached before an error stays in it.\<close>

primrec attach_uprobes ::
  "(bpf_call \<Rightarrow> bool) \<Rightarrow> handle set \<Rightarrow> Collector \<Rightarrow> (bytes \<times> bpf_obj option \<times> bool) list \<Rightarrow>
     handle set \<times> Collector \<times> attach_error option" where
  "attach_uprobes ok held c [] = (held, c, None)"
| "attach_uprobes ok held c (u # us) =
     (case u of (symbol, prog, ret) \<Rightarrow>
        if ok (LinkUprobe symbol ret prog)
        then attach_uprobes ok (insert (Uprobe symbol ret prog) held) (c\<lparr>collLinks := collLinks c @ [Uprobe symbol ret prog]\<rparr>) us
        else (held, c, Some (UprobeError symbol ret)))"

definition EnableTLS ::
  "(bpf_call \<Rightarrow> bool) \<Rightarrow> filesystem \<Rightarrow> handle set \<Rightarrow> Collector \<Rightarrow> (handle set \<times> Collector \<times> attach_error option) exec" where
  "EnableTLS ok fs held c =
     map_exec_result (\<lambda>libssl.
       (case libssl of
          Inl e \<Rightarrow> (held, c, Some (FindLibssl e))
        | Inr path \<Rightarrow>
            if \<not> ok LoadTls then (held, c, Some TlsSpecError)
            else if \<not> ok (SetTlsTargetPid (collPID c)) then (held, c, Some TlsTargetPidError)
            else if \<not> ok LoadTlsObjects then (held, c, Some TlsLoadError)
            else let objs = assigned_tls; held1 = set (tls_parts objs) \<union> held;
                     c1 = c\<lparr>tlsObjs := objs, tlsEnabled := True\<rparr> in
              if \<not> ok (OpenExecutable path) then (held1, c1, Some (OpenError path))
              else (case attach_uprobes ok held1 c1 (uprobes objs) of
                      (held2, c2, Some e) \<Rightarrow> (held2, c2, Some e)
                    | (held2, c2, None) \<Rightarrow>
                        if ok (NewTlsReader (tlsEvents (tlsMaps objs)))
                        then (insert TlsReader held2, c2\<lparr>tlsRd := Some TlsReader\<rparr>, None)
                        else (held2, c2, Some TlsReaderError))))
       (findMappedLibrary fs (collPID c) ''libssl.so'')"

section \<open>What a collector owns\<close>

definition owned :: "Collector \<Rightarrow> handle set" where
  "owned c = set (collLinks c) \<union> set (syscall_parts (collObjs c)) \<union> set_option (collRd c) \<union> set_option (tlsRd c) \<union>
     (if tlsEnabled c then set (tls_parts (tlsObjs c)) else {})"

text \<open>The shape of a collector: only links among the links, only readers as readers, loaded objects.\<close>

definition collector_ok :: "Collector \<Rightarrow> bool" where
  "collector_ok c \<longleftrightarrow> collObjs c = assigned_syscall \<and> (tlsEnabled c \<longrightarrow> tlsObjs c = assigned_tls) \<and>
     (\<forall>l \<in> set (collLinks c). \<forall>ob. l \<noteq> Obj ob) \<and> collRd c \<in> {None, Some SyscallReader} \<and> tlsRd c \<in> {None, Some TlsReader}"

text \<open>What \<open>Close\<close> leaves: the programs and maps behind the first of a group whose closing reports an error.\<close>

definition unreleased :: "(handle \<Rightarrow> 'err option) \<Rightarrow> Collector \<Rightarrow> handle set" where
  "unreleased closeErr c = behind_error closeErr (syscall_parts (collObjs c)) \<union>
     (if tlsEnabled c then behind_error closeErr (tls_parts (tlsObjs c)) else {})"

definition close_order :: "Collector \<Rightarrow> handle list" where
  "close_order c =
     opt_list (collRd c) @ opt_list (tlsRd c) @ collLinks c @ syscall_parts (collObjs c) @
     (if tlsEnabled c then tls_parts (tlsObjs c) else [])"

abbreviation or_else :: "'a option \<Rightarrow> 'a option \<Rightarrow> 'a option" where
  "or_else a b \<equiv> (case a of None \<Rightarrow> b | Some x \<Rightarrow> Some x)"

lemma close_one_closer:
  assumes "closer cl closeErr parts"
  shows "close_one cl s = (fst s - set (closed_prefix closeErr parts), or_else (snd s) (first_err closeErr parts))"
  using closer.closes [OF assms] by (auto simp: close_one_def split: prod.splits option.splits)

lemmas close_objs = close_one_closer [OF syscall_objects.closer_axioms] close_one_closer [OF tls_objects.closer_axioms]

lemma close_one_handle:
  "close_one (handle_Close closeErr h) s = (fst s - {h}, or_else (snd s) (closeErr h))"
  using close_one_closer [OF closer_handle, of closeErr h s] by (simp split: option.splits)

lemma close_opt_eq:
  "close_opt closeErr oh s = (fst s - set_option oh, or_else (snd s) (first_err closeErr (opt_list oh)))"
  by (cases oh; cases s) (simp_all add: close_opt_def opt_list_def close_one_handle split: option.splits)

lemma foldl_close_eq:
  "foldl (\<lambda>s l. close_one (handle_Close closeErr l) s) s hs = (fst s - set hs, or_else (snd s) (first_err closeErr hs))"
  by (induction hs arbitrary: s) (auto simp: close_one_handle split: option.splits)

lemma Close_eq:
  "collector_Close closeErr held c =
     (held - set_option (collRd c) - set_option (tlsRd c) - set (collLinks c) -
        set (closed_prefix closeErr (syscall_parts (collObjs c))) -
        (if tlsEnabled c then set (closed_prefix closeErr (tls_parts (tlsObjs c))) else {}),
      first_err closeErr (close_order c))"
  by (auto simp: collector_Close_def close_order_def close_opt_eq foldl_close_eq close_objs first_err_append Let_def
      split: option.splits)

lemma syscall_tls_disjoint: "set (syscall_parts assigned_syscall) \<inter> set (tls_parts assigned_tls) = {}"
  by (auto simp: assigned_parts syscall_names_def tls_names_def)

lemma parts_Obj: "h \<in> set (syscall_parts ob) \<Longrightarrow> h \<in> range Obj" "h \<in> set (tls_parts ob') \<Longrightarrow> h \<in> range Obj"
  by (auto simp: syscall_parts_def tls_parts_def Let_def)

lemma Close_releases:
  assumes "collector_ok c"
  shows "collector_Close closeErr (owned c) c = (unreleased closeErr c, first_err closeErr (close_order c))"
proof -
  have links: "h \<notin> set (collLinks c)" "Some h \<noteq> collRd c" "Some h \<noteq> tlsRd c" if "h \<in> range Obj" for h
    using assms that by (auto simp: collector_ok_def)
  let ?S = "set (syscall_parts (collObjs c))" and ?T = "if tlsEnabled c then set (tls_parts (tlsObjs c)) else {}"
  have disj: "?S \<inter> ?T = {}" using assms syscall_tls_disjoint by (auto simp: collector_ok_def)
  have obj: "h \<in> ?S \<union> ?T \<Longrightarrow> h \<in> range Obj" for h using parts_Obj by (auto split: if_splits)
  have "set (closed_prefix closeErr (syscall_parts (collObjs c))) \<subseteq> ?S"
    "(if tlsEnabled c then set (closed_prefix closeErr (tls_parts (tlsObjs c))) else {}) \<subseteq> ?T"
    using closed_prefix_subset by auto
  then show ?thesis
    using disj obj links by (auto simp: Close_eq owned_def unreleased_def behind_error_def prod_eq_iff split: if_splits; blast)
qed

lemma unreleased_clean: "\<forall>ob. closeErr (Obj ob) = None \<Longrightarrow> unreleased closeErr c = {}"
proof -
  assume "\<forall>ob. closeErr (Obj ob) = None"
  then have "behind_error closeErr hs = {}" if "set hs \<subseteq> range Obj" for hs
    using that by (intro behind_error_clean) auto
  moreover have "set (syscall_parts ob) \<subseteq> range Obj" "set (tls_parts ob') \<subseteq> range Obj" for ob ob'
    using parts_Obj by blast+
  ultimately show ?thesis by (simp add: unreleased_def)
qed

lemma unreleased_fresh: "collObjs c = assigned_syscall \<Longrightarrow> \<not> tlsEnabled c \<Longrightarrow>
  unreleased closeErr c = behind_error closeErr (syscall_parts assigned_syscall)"
  by (simp add: unreleased_def)

text \<open>The tracepoint loop keeps the books: what is held is what the collector owns.\<close>

lemma attach_tracepoints_books:
  assumes "held = owned c" and "collector_ok c" and "\<not> tlsEnabled c"
  shows "case attach_tracepoints ok closeErr held c tps of
      (held', Inl e) \<Rightarrow> held' = behind_error closeErr (syscall_parts assigned_syscall) \<and> e \<in> TracepointError ` fst ` set tps
    | (held', Inr c') \<Rightarrow> held' = owned c' \<and> c' = c\<lparr>collLinks := collLinks c @ map (\<lambda>(name, prog). Tracepoint name prog) tps\<rparr>"
  using assms
proof (induction tps arbitrary: held c)
  case (Cons tp tps)
  obtain name prog where tp: "tp = (name, prog)" by (cases tp)
  let ?c = "c\<lparr>collLinks := collLinks c @ [Tracepoint name prog]\<rparr>"
  have "insert (Tracepoint name prog) held = owned ?c" using Cons.prems by (auto simp: owned_def)
  moreover have "collector_ok ?c" "\<not> tlsEnabled ?c" using Cons.prems by (auto simp: collector_ok_def)
  ultimately have IH: "case attach_tracepoints ok closeErr (insert (Tracepoint name prog) held) ?c tps of
      (held', Inl e) \<Rightarrow> held' = behind_error closeErr (syscall_parts assigned_syscall) \<and> e \<in> TracepointError ` fst ` set tps
    | (held', Inr c') \<Rightarrow> held' = owned c' \<and> c' = ?c\<lparr>collLinks := collLinks ?c @ map (\<lambda>(name, prog). Tracepoint name prog) tps\<rparr>"
    by (rule Cons.IH)
  have "collector_Close closeErr held c = (behind_error closeErr (syscall_parts assigned_syscall), first_err closeErr (close_order c))"
    using Close_releases [OF Cons.prems(2), of closeErr] unreleased_fresh [of c closeErr] Cons.prems by (simp add: collector_ok_def)
  with IH tp show ?case by (auto split: prod.splits sum.splits)
qed simp

lemma attach_uprobes_books:
  assumes "held = owned c" and "collector_ok c" and "attach_uprobes ok held c us = (held', c', r)"
  shows "held' = owned c' \<and> collector_ok c' \<and> tlsRd c' = tlsRd c \<and>
    (r = None \<longrightarrow> collLinks c' = collLinks c @ map (\<lambda>(symbol, prog, ret). Uprobe symbol ret prog) us)"
  using assms
proof (induction us arbitrary: held c)
  case (Cons u us)
  obtain symbol prog ret where u: "u = (symbol, prog, ret)" by (cases u)
  let ?c = "c\<lparr>collLinks := collLinks c @ [Uprobe symbol ret prog]\<rparr>"
  have 1: "insert (Uprobe symbol ret prog) held = owned ?c" using Cons.prems(1) by (auto simp: owned_def)
  have 2: "collector_ok ?c" using Cons.prems(2) by (auto simp: collector_ok_def)
  show ?case
  proof (cases "ok (LinkUprobe symbol ret prog)")
    case True
    then have "attach_uprobes ok (insert (Uprobe symbol ret prog) held) ?c us = (held', c', r)" using Cons.prems(3) u by simp
    from Cons.IH [OF 1 2 this] u show ?thesis by simp
  qed (use Cons.prems u in auto)
qed simp

definition New_fails :: "(handle \<Rightarrow> 'err option) \<Rightarrow> attach_error \<Rightarrow> handle set" where
  "New_fails closeErr e =
     (if e = ClockError then set (syscall_parts assigned_syscall)
      else if e = ReaderError \<or> (\<exists>name. e = TracepointError name) then behind_error closeErr (syscall_parts assigned_syscall)
      else {})"

lemma New_books:
  assumes "collector_New ok closeErr clock pid {} = (held, r)"
  shows "case r of
      Inl e \<Rightarrow> held = New_fails closeErr e
    | Inr c \<Rightarrow> held = owned c \<and> collector_ok c \<and> collRd c = Some SyscallReader \<and> collPID c = pid \<and> pid \<noteq> 0 \<and>
        collLinks c = map (\<lambda>(name, prog). Tracepoint name prog) (tracepoints assigned_syscall) \<and>
        \<not> tlsEnabled c \<and> tlsRd c = None"
proof -
  define c0 where "c0 sec nsec = \<lparr>collPID = pid, collObjs = assigned_syscall, collLinks = [], collRd = None, tlsEnabled = False,
      tlsObjs = no_tls_objects, tlsRd = None, collRef = \<lparr>monoRefNs = mono_ns sec nsec, wallRef = snd clock\<rparr>\<rparr>" for sec nsec
  have start: "set (syscall_parts assigned_syscall) = owned (c0 sec nsec)" "collector_ok (c0 sec nsec)"
    "\<not> tlsEnabled (c0 sec nsec)" for sec nsec
    by (simp_all add: owned_def c0_def collector_ok_def)
  note loop = attach_tracepoints_books [OF start, where ok = ok and closeErr = closeErr and tps = "tracepoints assigned_syscall"]
  show ?thesis
  proof (cases "fst clock")
    case None
    then show ?thesis using assms by (auto simp: collector_New_def New_fails_def Let_def split: if_splits)
  next
    case (Some a)
    obtain sec nsec where a: "a = (sec, nsec)" by (cases a)
    obtain held2 r2 where l: "attach_tracepoints ok closeErr (set (syscall_parts assigned_syscall)) (c0 sec nsec)
        (tracepoints assigned_syscall) = (held2, r2)"
      by (cases "attach_tracepoints ok closeErr (set (syscall_parts assigned_syscall)) (c0 sec nsec) (tracepoints assigned_syscall)")
    show ?thesis
    proof (cases r2)
      case (Inl e)
      with loop [of sec nsec] l show ?thesis
        using assms Some a
        by (auto simp: collector_New_def New_fails_def Let_def simp flip: c0_def split: if_splits)
    next
      case (Inr c)
      with loop [of sec nsec] l have c: "held2 = owned c"
        "c = (c0 sec nsec)\<lparr>collLinks := map (\<lambda>(name, prog). Tracepoint name prog) (tracepoints assigned_syscall)\<rparr>"
        by (simp_all add: c0_def)
      then have ok: "collector_ok c" and tls: "\<not> tlsEnabled c"
        by (auto simp: c0_def collector_ok_def tracepoints_def Let_def)
      have "insert SyscallReader held2 = owned (c\<lparr>collRd := Some SyscallReader\<rparr>)"
        "collector_ok (c\<lparr>collRd := Some SyscallReader\<rparr>)"
        using c ok by (auto simp: owned_def c0_def collector_ok_def)
      moreover have "fst (collector_Close closeErr held2 c) = behind_error closeErr (syscall_parts assigned_syscall)"
        using Close_releases [OF ok, of closeErr] c(1) unreleased_fresh [OF _ tls, of closeErr] ok by (simp add: collector_ok_def)
      ultimately show ?thesis
        using assms Some a l Inr c(2)
        by (auto simp: collector_New_def New_fails_def Let_def simp flip: c0_def split: if_splits) (simp_all add: c0_def)
    qed
  qed
qed

lemma EnableTLS_books:
  assumes "EnableTLS ok fs held c = Ret (held', c', r)" and "held = owned c" and "collector_ok c" and "tlsRd c = None"
    and "\<not> tlsEnabled c"
  shows "held' = owned c' \<and> collector_ok c' \<and>
    (r = None \<longrightarrow> collLinks c' = collLinks c @ map (\<lambda>(symbol, prog, ret). Uprobe symbol ret prog) (uprobes assigned_tls))"
proof -
  let ?c1 = "c\<lparr>tlsObjs := assigned_tls, tlsEnabled := True\<rparr>" and ?h1 = "set (tls_parts assigned_tls) \<union> held"
  obtain held2 c2 r2 where u: "attach_uprobes ok ?h1 ?c1 (uprobes assigned_tls) = (held2, c2, r2)"
    by (cases "attach_uprobes ok ?h1 ?c1 (uprobes assigned_tls)")
  have 1: "?h1 = owned ?c1" "collector_ok ?c1" using assms(2,3,5) by (auto simp: owned_def collector_ok_def)
  note 2 = attach_uprobes_books [OF 1 u]
  then have 3: "insert TlsReader held2 = owned (c2\<lparr>tlsRd := Some TlsReader\<rparr>)" "collector_ok (c2\<lparr>tlsRd := Some TlsReader\<rparr>)"
    using assms(4) by (auto simp: owned_def collector_ok_def)
  obtain lib where "findMappedLibrary fs (collPID c) ''libssl.so'' = Ret lib"
    using assms(1) by (cases "findMappedLibrary fs (collPID c) ''libssl.so''") (auto simp: EnableTLS_def)
  then show ?thesis
    using assms(1,2,3) 1 2 3 u by (auto simp: EnableTLS_def Let_def split: sum.splits if_splits option.splits)
qed

section \<open>Properties\<close>

text \<open>
  C32: Attaching fails cleanly, with one exception: when \<open>New\<close> returns an error and closing programs
  and maps reports none, nothing that it loaded, attached or opened stays held, except that the
  loaded programs and maps do when reading the monotonic clock fails; when it succeeds the process
  number is not 0, every tracepoint is attached to the program loaded for it, and what is held is
  exactly what the collector owns.
\<close>

theorem new_leaves_nothing:
  assumes "collector_New ok closeErr clock pid {} = (held, r)" and "\<forall>ob. closeErr (Obj ob) = None"
  shows "(\<forall>e. r = Inl e \<longrightarrow> held = (if e = ClockError then Obj ` set syscall_names else {})) \<and>
    (\<forall>c. r = Inr c \<longrightarrow> pid \<noteq> 0 \<and> held = owned c \<and>
       collLinks c = map (\<lambda>(name, prog). Tracepoint name prog) (tracepoints assigned_syscall))"
proof -
  have "behind_error closeErr (syscall_parts assigned_syscall) = {}"
    using assms(2) parts_Obj(1) by (fastforce intro!: behind_error_clean)
  with New_books [OF assms(1)] show ?thesis by (cases r) (auto simp: New_fails_def assigned_parts)
qed

text \<open>
  C30: What \<open>Close\<close> releases, also when \<open>EnableTLS\<close> was called and failed at whatever point: every
  reader and every link, whatever closing them reports, and the programs and maps of each of the two
  generated structs up to and including the first one whose closing reports an error. It returns
  the first error in the order readers, links, programs, maps, TLS programs, TLS maps.
\<close>

theorem close_releases_all:
  assumes "collector_New ok closeErr clock pid {} = (held, Inr c)"
    and "EnableTLS ok' fs held c = Ret (held', c', r)"
  shows "collector_Close closeErr held' c' =
      (behind_error closeErr (syscall_parts (collObjs c')) \<union>
         (if tlsEnabled c' then behind_error closeErr (tls_parts (tlsObjs c')) else {}),
       first_err closeErr (close_order c')) \<and>
    ((\<forall>ob. closeErr (Obj ob) = None) \<longrightarrow> fst (collector_Close closeErr held' c') = {})"
proof -
  have "held = owned c" "collector_ok c" "tlsRd c = None" "\<not> tlsEnabled c" using New_books [OF assms(1)] by auto
  from EnableTLS_books [OF assms(2) this] have "held' = owned c'" "collector_ok c'" by simp_all
  then have "collector_Close closeErr held' c' = (unreleased closeErr c', first_err closeErr (close_order c'))"
    by (simp add: Close_releases)
  then show ?thesis using unreleased_clean [of closeErr c'] by (simp add: unreleased_def)
qed

theorem new_leaves_nothing_witness:
  "fst (collector_New (\<lambda>_. True) (\<lambda>_. None :: nat option) (None, 0) 7 {}) = Obj ` set syscall_names"
proof -
  have "collector_New (\<lambda>_. True) (\<lambda>_. None :: nat option) (None, 0) 7 {} = (set (syscall_parts assigned_syscall), Inl ClockError)"
    by (simp add: collector_New_def Let_def)
  from new_leaves_nothing [OF this] this show ?thesis by simp
qed

theorem close_releases_all_witness:
  "\<exists>held c. collector_New (\<lambda>_. True) (\<lambda>h. if h = Obj (SyscallProgram ''trace_exit_read'') then Some h else None) (Some (0, 0), 0) 7 {} =
       (held, Inr c) \<and>
     fst (collector_Close (\<lambda>h. if h = Obj (SyscallProgram ''trace_exit_read'') then Some h else None) held c) =
       {Obj (SyscallMap ''events''), Obj (SyscallMap ''read_stash'')}"
proof -
  let ?err = "\<lambda>h. if h = Obj (SyscallProgram ''trace_exit_read'') then Some h else None"
  obtain held c where new: "collector_New (\<lambda>_. True) ?err (Some (0, 0), 0) 7 {} = (held, Inr c)"
    by (simp add: collector_New_def tracepoints_def Let_def)
  then have c: "collObjs c = assigned_syscall" "\<not> tlsEnabled c" using New_books [OF new] by (auto simp: collector_ok_def)
  have tls: "EnableTLS (\<lambda>call. True) (\<lambda>_. None) held c = Ret (held, c, Some (FindLibssl OpenMaps))"
    by (simp add: EnableTLS_def findMappedLibrary_def)
  have "behind_error ?err (syscall_parts assigned_syscall) = {Obj (SyscallMap ''events''), Obj (SyscallMap ''read_stash'')}"
    by (auto simp: behind_error_def syscall_parts_def assigned_syscall_def opt_list_def Let_def)
  with close_releases_all [OF new tls] c new show ?thesis by auto
qed

end
