(* ===== verification/Launcher.thy ===== *)
theory Launcher
  imports Collector "HOL-Library.Char_ord" "HOL-Library.List_Lexorder"
begin

text \<open>
  \<open>internal/launcher\<close>: listing processes and recordings (\<open>proc.go\<close>), and the menu that assembles a
  command line (\<open>launcher.go\<close>). The widgets of the bubbles library (lists with a filter, a text
  input) are parameters: the operations the menu calls on them, as a record \<open>bubbles\<close>.
\<close>

section \<open>Processes and recordings\<close>

record Process =
  procPID :: uint32
  procComm :: bytes

text \<open>\<open>strconv.ParseUint(s, 10, 32)\<close>.\<close>

definition ParseUint32 :: "bytes \<Rightarrow> uint32 option" where
  "ParseUint32 s =
     (case digits_val s of None \<Rightarrow> None | Some n \<Rightarrow> if n < 2 ^ 32 then Some (of_nat n) else None)"

text \<open>
  One entry of \<open>/proc\<close>. For a name of digits \<open>filepath.Join\<close> is the plain concatenation.
\<close>

definition process_of :: "filesystem \<Rightarrow> bytes \<Rightarrow> Process option" where
  "process_of fs name =
     (case ParseUint32 name of
        None \<Rightarrow> None
      | Some pid \<Rightarrow>
          (case ReadFile fs (''/proc/'' @ name @ ''/comm'') of
             None \<Rightarrow> None
           | Some data \<Rightarrow> Some \<lparr>procPID = pid, procComm = TrimSpace data\<rparr>))"

text \<open>
  \<open>dir\<close> is the result of \<open>os.ReadDir("/proc")\<close>. \<open>sort.Slice\<close> does not fix the order of equal
  elements; two entries of \<open>/proc\<close> never have the same number, so a stable sort is the same.
\<close>

definition ListProcesses :: "filesystem \<Rightarrow> bytes list option \<Rightarrow> Process list option" where
  "ListProcesses fs dir =
     (case dir of
        None \<Rightarrow> None
      | Some names \<Rightarrow> Some (sort_key procPID (List.map_filter (process_of fs) names)))"

text \<open>\<open>filepath.Ext\<close> of a name without slashes: from the last dot on.\<close>

definition Ext :: "bytes \<Rightarrow> bytes" where
  "Ext name = (if CHR ''.'' \<in> set name then CHR ''.'' # rev (takeWhile (\<lambda>c. c \<noteq> CHR ''.'') (rev name)) else [])"

text \<open>A directory entry: its name and whether it is a directory. Strings are ordered bytewise.\<close>

definition findFirstYAML :: "(bytes \<times> bool) list option \<Rightarrow> bytes" where
  "findFirstYAML dir =
     (case dir of
        None \<Rightarrow> []
      | Some entries \<Rightarrow>
          (let names = map fst (filter (\<lambda>(name, isDir). \<not> isDir \<and> (Ext name = ''.yaml'' \<or> Ext name = ''.yml'')) entries)
           in if names = [] then [] else hd (sort names)))"

section \<open>The menu\<close>

datatype Mode = ModeTraceTUI | ModeTraceNoTUI | ModeTraceTLS | ModeRecord | ModeRun

record Result =
  Args :: "bytes list"
  NeedsSudo :: bool

datatype stage = stageMode | stageTarget | stageOutput | stageYAML | stageCommand | stageDone | stageQuit

text \<open>
  What the menu calls on its widgets: the selected item of each list (none when nothing is
  selectable), whether the process list is being filtered, forwarding a message, resizing; the
  text of the input, setting it, its placeholder, and moving the cursor and the focus to it.
\<close>

record ('ml, 'pl, 'ti, 'm) bubbles =
  modeSelected :: "'ml \<Rightarrow> Mode option"
  procSelected :: "'pl \<Rightarrow> Process option"
  procFiltering :: "'pl \<Rightarrow> bool"
  modeUpdate :: "'ml \<Rightarrow> 'm \<Rightarrow> 'ml"
  procUpdate :: "'pl \<Rightarrow> 'm \<Rightarrow> 'pl"
  textUpdate :: "'ti \<Rightarrow> 'm \<Rightarrow> 'ti"
  modeSetSize :: "'ml \<Rightarrow> int \<Rightarrow> int \<Rightarrow> 'ml"
  procSetSize :: "'pl \<Rightarrow> int \<Rightarrow> int \<Rightarrow> 'pl"
  textValue :: "'ti \<Rightarrow> bytes"
  textSetValue :: "'ti \<Rightarrow> bytes \<Rightarrow> 'ti"
  textPlaceholder :: "'ti \<Rightarrow> bytes \<Rightarrow> 'ti"
  textFocusEnd :: "'ti \<Rightarrow> 'ti"

record ('ml, 'pl, 'ti) launcher =
  stage :: stage
  modeList :: 'ml
  procList :: 'pl
  textIn :: 'ti
  mode :: Mode
  launchPID :: uint32
  yamlPath :: bytes
  result :: Result

definition noResult :: Result where
  "noResult = \<lparr>Args = [], NeedsSudo = False\<rparr>"

text \<open>The items of the two lists; a mode item is its mode, title and description.\<close>

definition modeItems :: "(Mode \<times> bytes \<times> bytes) list" where
  "modeItems =
     [(ModeTraceTUI, ''Trace (interactive TUI)'', ''Live syscall trace with the terminal UI''),
      (ModeTraceNoTUI, ''Trace (plain text)'', ''Live syscall trace, printed as plain text''),
      (ModeTraceTLS, ''Trace with TLS'', ''Trace plus decrypted SSL_write/SSL_read plaintext''),
      (ModeRecord, ''Record a test case'', ''Capture one HTTP request + Redis deps as YAML''),
      (ModeRun, ''Replay a test case (run)'', ''Serve a recorded test case'' @ [CHR 0x27] @ ''s Redis deps to a command'')]"

definition procTitle :: "Process \<Rightarrow> bytes" where
  "procTitle p = Itoa (uint (procPID p)) @ ''  '' @ procComm p"

definition procFilterValue :: "Process \<Rightarrow> bytes" where
  "procFilterValue p = Itoa (uint (procPID p)) @ '' '' @ procComm p"

text \<open>
  \<open>newModes\<close> and \<open>newProcs\<close> build the list widgets from the items and the title (the dash of the
  first title is U+2014), a process item with its title and filter text; \<open>ti\<close> is the empty input.
\<close>

definition launcher_newModel ::
  "((Mode \<times> bytes \<times> bytes) list \<Rightarrow> bytes \<Rightarrow> 'ml) \<Rightarrow> ((Process \<times> bytes \<times> bytes) list \<Rightarrow> bytes \<Rightarrow> 'pl) \<Rightarrow> 'ti \<Rightarrow>
     Process list \<Rightarrow> bytes \<Rightarrow> ('ml, 'pl, 'ti) launcher" where
  "launcher_newModel newModes newProcs ti processes yamlDefault =
     \<lparr>stage = stageMode, modeList = newModes modeItems (''eTraceReplay '' @ encode_rune 0x2014 @ '' choose a mode''),
      procList = newProcs (map (\<lambda>p. (p, procTitle p, procFilterValue p)) processes) ''choose a target process (type to filter)'',
      textIn = ti, mode = ModeTraceTUI, launchPID = 0, yamlPath = yamlDefault, result = noResult\<rparr>"

definition traceArgs :: "Mode \<Rightarrow> uint32 \<Rightarrow> bytes list" where
  "traceArgs m pid =
     [''trace'', ''--pid'', Itoa (uint pid)] @
     (if m = ModeTraceNoTUI then [''--no-tui''] else if m = ModeTraceTLS then [''--tls''] else [])"

text \<open>
  A message: a resize, a key press with its name, or anything else; \<open>'m\<close> is the message as the
  widgets get it. \<open>Quit\<close> is the command that ends the program, \<open>Forwarded\<close> that of a widget.
\<close>

datatype 'm launcher_msg = WindowSizeMsg int int | KeyMsg bytes 'm | OtherMsg 'm

datatype launcher_cmd = NoCmd | Quit | Forwarded

definition forward ::
  "('ml, 'pl, 'ti, 'm) bubbles \<Rightarrow> ('ml, 'pl, 'ti) launcher \<Rightarrow> 'm \<Rightarrow> ('ml, 'pl, 'ti) launcher \<times> launcher_cmd" where
  "forward B m msg =
     (case stage m of
        stageMode \<Rightarrow> (m\<lparr>modeList := modeUpdate B (modeList m) msg\<rparr>, Forwarded)
      | stageTarget \<Rightarrow> (m\<lparr>procList := procUpdate B (procList m) msg\<rparr>, Forwarded)
      | stageDone \<Rightarrow> (m, NoCmd)
      | stageQuit \<Rightarrow> (m, NoCmd)
      | _ \<Rightarrow> (m\<lparr>textIn := textUpdate B (textIn m) msg\<rparr>, Forwarded))"

text \<open>\<open>SetValue\<close>, \<open>Placeholder\<close>, \<open>CursorEnd\<close>, \<open>Focus\<close> on the text input.\<close>

definition prompt :: "('ml, 'pl, 'ti, 'm) bubbles \<Rightarrow> 'ti \<Rightarrow> bytes \<Rightarrow> bytes \<Rightarrow> 'ti" where
  "prompt B ti val placeholder = textFocusEnd B (textPlaceholder B (textSetValue B ti val) placeholder)"

definition confirm_mode :: "('ml, 'pl, 'ti, 'm) bubbles \<Rightarrow> ('ml, 'pl, 'ti) launcher \<Rightarrow> ('ml, 'pl, 'ti) launcher \<times> launcher_cmd" where
  "confirm_mode B m =
     (case modeSelected B (modeList m) of
        None \<Rightarrow> (m, NoCmd)
      | Some md \<Rightarrow>
          if md = ModeRun
          then (m\<lparr>mode := md, textIn := prompt B (textIn m) (yamlPath m) ''test.yaml'', stage := stageYAML\<rparr>, NoCmd)
          else (m\<lparr>mode := md, stage := stageTarget\<rparr>, NoCmd))"

text \<open>\<open>now\<close> is \<open>time.Now().Unix()\<close>.\<close>

definition confirm_target ::
  "('ml, 'pl, 'ti, 'm) bubbles \<Rightarrow> int \<Rightarrow> ('ml, 'pl, 'ti) launcher \<Rightarrow> ('ml, 'pl, 'ti) launcher \<times> launcher_cmd" where
  "confirm_target B now m =
     (case procSelected B (procList m) of
        None \<Rightarrow> (m, NoCmd)
      | Some p \<Rightarrow>
          if mode m = ModeRecord
          then (m\<lparr>launchPID := procPID p,
                  textIn := prompt B (textIn m) (''recorded-'' @ Itoa now @ ''.yaml'') ''output path'',
                  stage := stageOutput\<rparr>, NoCmd)
          else (m\<lparr>launchPID := procPID p,
                  result := \<lparr>Args = traceArgs (mode m) (procPID p), NeedsSudo = True\<rparr>,
                  stage := stageDone\<rparr>, Quit))"

definition confirm_output :: "('ml, 'pl, 'ti, 'm) bubbles \<Rightarrow> ('ml, 'pl, 'ti) launcher \<Rightarrow> ('ml, 'pl, 'ti) launcher \<times> launcher_cmd" where
  "confirm_output B m =
     (let out = TrimSpace (textValue B (textIn m)) in
      if out = [] then (m, NoCmd)
      else (m\<lparr>result := \<lparr>Args = [''record'', ''--pid'', Itoa (uint (launchPID m)), ''-o'', out], NeedsSudo = True\<rparr>,
              stage := stageDone\<rparr>, Quit))"

definition confirm_yaml :: "('ml, 'pl, 'ti, 'm) bubbles \<Rightarrow> ('ml, 'pl, 'ti) launcher \<Rightarrow> ('ml, 'pl, 'ti) launcher \<times> launcher_cmd" where
  "confirm_yaml B m =
     (let path = TrimSpace (textValue B (textIn m)) in
      if path = [] then (m, NoCmd)
      else (m\<lparr>yamlPath := path,
              textIn := textPlaceholder B (textSetValue B (textIn m) []) ''command to run, e.g. ./your-app'',
              stage := stageCommand\<rparr>, NoCmd))"

definition confirm_command :: "('ml, 'pl, 'ti, 'm) bubbles \<Rightarrow> ('ml, 'pl, 'ti) launcher \<Rightarrow> ('ml, 'pl, 'ti) launcher \<times> launcher_cmd" where
  "confirm_command B m =
     (let cmdLine = TrimSpace (textValue B (textIn m)) in
      if cmdLine = [] then (m, NoCmd)
      else (m\<lparr>result := \<lparr>Args = [''run'', ''--test'', yamlPath m, ''--''] @ Fields cmdLine, NeedsSudo = False\<rparr>,
              stage := stageDone\<rparr>, Quit))"

definition launcher_Update ::
  "('ml, 'pl, 'ti, 'm) bubbles \<Rightarrow> int \<Rightarrow> ('ml, 'pl, 'ti) launcher \<Rightarrow> 'm launcher_msg \<Rightarrow> ('ml, 'pl, 'ti) launcher \<times> launcher_cmd" where
  "launcher_Update B now m msg =
     (case msg of
        WindowSizeMsg w h \<Rightarrow>
          (m\<lparr>modeList := modeSetSize B (modeList m) w (h - 2), procList := procSetSize B (procList m) w (h - 2)\<rparr>, NoCmd)
      | OtherMsg k \<Rightarrow> forward B m k
      | KeyMsg name k \<Rightarrow>
          if name = ''ctrl+c'' then (m\<lparr>stage := stageQuit\<rparr>, Quit)
          else if name = ''esc'' then
            if stage m = stageTarget \<and> procFiltering B (procList m) then forward B m k
            else (m\<lparr>stage := stageQuit\<rparr>, Quit)
          else if name = ''enter'' then
            (case stage m of
               stageMode \<Rightarrow> confirm_mode B m
             | stageTarget \<Rightarrow> if procFiltering B (procList m) then forward B m k else confirm_target B now m
             | stageOutput \<Rightarrow> confirm_output B m
             | stageYAML \<Rightarrow> confirm_yaml B m
             | stageCommand \<Rightarrow> confirm_command B m
             | _ \<Rightarrow> forward B m k)
          else forward B m k)"

text \<open>A session: the messages the program gets, each with the time it is handled at.\<close>

definition launcher_session ::
  "('ml, 'pl, 'ti, 'm) bubbles \<Rightarrow> ('ml, 'pl, 'ti) launcher \<Rightarrow> (int \<times> 'm launcher_msg) list \<Rightarrow> ('ml, 'pl, 'ti) launcher" where
  "launcher_session B = foldl (\<lambda>m (now, msg). fst (launcher_Update B now m msg))"

text \<open>\<open>View\<close>, from the texts of the widgets.\<close>

definition launcher_View ::
  "('ml \<Rightarrow> bytes) \<Rightarrow> ('pl \<Rightarrow> bytes) \<Rightarrow> ('ti \<Rightarrow> bytes) \<Rightarrow> ('ml, 'pl, 'ti) launcher \<Rightarrow> bytes" where
  "launcher_View modeView procView textView m =
     (let hint = [LF, LF] @ ''(enter to confirm, esc to quit)'' in
      case stage m of
        stageMode \<Rightarrow> modeView (modeList m)
      | stageTarget \<Rightarrow> procView (procList m)
      | stageOutput \<Rightarrow> ''Output path for the recorded test case:'' @ [LF, LF] @ textView (textIn m) @ hint
      | stageYAML \<Rightarrow> ''Path to the recorded YAML test case to replay:'' @ [LF, LF] @ textView (textIn m) @ hint
      | stageCommand \<Rightarrow> ''Command to run (its Redis deps will be served from '' @ yamlPath m @ ''):'' @ [LF, LF] @
          textView (textIn m) @ hint
      | _ \<Rightarrow> [])"

text \<open>
  \<open>Run\<close>: \<open>procDir\<close> and \<open>cwd\<close> are what \<open>os.ReadDir\<close> gives for \<open>/proc\<close> and the current directory,
  \<open>newM\<close> is \<open>newModel\<close> and \<open>program\<close> runs the menu to its final model. \<^const>\<open>None\<close> is an error.
\<close>

definition launcher_Run ::
  "filesystem \<Rightarrow> bytes list option \<Rightarrow> (bytes \<times> bool) list option \<Rightarrow> (Process list \<Rightarrow> bytes \<Rightarrow> ('ml, 'pl, 'ti) launcher) \<Rightarrow>
     (('ml, 'pl, 'ti) launcher \<Rightarrow> ('ml, 'pl, 'ti) launcher option) \<Rightarrow> (Result \<times> bool) option" where
  "launcher_Run fs procDir cwd newM program =
     (case ListProcesses fs procDir of
        None \<Rightarrow> None
      | Some processes \<Rightarrow>
          (case program (newM processes (findFirstYAML cwd)) of
             None \<Rightarrow> None
           | Some fm \<Rightarrow> Some (if stage fm \<noteq> stageDone then (noResult, False) else (result fm, True))))"

section \<open>Invariant of the menu\<close>

text \<open>The command line a completed selection of a mode stands for.\<close>

definition command_for :: "Mode \<Rightarrow> uint32 \<Rightarrow> bytes \<Rightarrow> Result \<Rightarrow> bool" where
  "command_for md pid yaml r \<longleftrightarrow>
     (case md of
        ModeRecord \<Rightarrow> \<exists>out. out \<noteq> [] \<and>
          r = \<lparr>Args = [''record'', ''--pid'', Itoa (uint pid), ''-o'', out], NeedsSudo = True\<rparr>
      | ModeRun \<Rightarrow> yaml \<noteq> [] \<and> (\<exists>words. words \<noteq> [] \<and>
          r = \<lparr>Args = [''run'', ''--test'', yaml, ''--''] @ words, NeedsSudo = False\<rparr>)
      | _ \<Rightarrow> r = \<lparr>Args = traceArgs md pid, NeedsSudo = True\<rparr>)"

definition launcher_inv :: "('ml, 'pl, 'ti) launcher \<Rightarrow> bool" where
  "launcher_inv m \<longleftrightarrow>
     (case stage m of
        stageTarget \<Rightarrow> mode m \<noteq> ModeRun
      | stageOutput \<Rightarrow> mode m = ModeRecord
      | stageYAML \<Rightarrow> mode m = ModeRun
      | stageCommand \<Rightarrow> mode m = ModeRun \<and> yamlPath m \<noteq> []
      | stageDone \<Rightarrow> command_for (mode m) (launchPID m) (yamlPath m) (result m)
      | _ \<Rightarrow> True)"

lemma forward_keeps:
  "stage (fst (forward B m k)) = stage m" "mode (fst (forward B m k)) = mode m"
  "launchPID (fst (forward B m k)) = launchPID m" "yamlPath (fst (forward B m k)) = yamlPath m"
  "result (fst (forward B m k)) = result m"
  by (simp_all add: forward_def split: stage.splits)

lemma forward_inv: "launcher_inv m \<Longrightarrow> launcher_inv (fst (forward B m k))"
  by (cases "stage m") (simp_all add: launcher_inv_def forward_keeps)

lemma confirm_inv:
  "launcher_inv (fst (confirm_mode B m))" if "stage m = stageMode"
  using that by (cases "modeSelected B (modeList m)") (auto simp: confirm_mode_def launcher_inv_def)

lemma confirm_target_inv:
  assumes "stage m = stageTarget" and "launcher_inv m"
  shows "launcher_inv (fst (confirm_target B now m))"
  using assms by (cases "procSelected B (procList m)")
    (auto simp: confirm_target_def launcher_inv_def command_for_def split: Mode.splits)

lemma confirm_output_inv:
  assumes "stage m = stageOutput" and "launcher_inv m"
  shows "launcher_inv (fst (confirm_output B m))"
  using assms by (auto simp: confirm_output_def launcher_inv_def command_for_def Let_def)

lemma confirm_yaml_inv:
  assumes "stage m = stageYAML" and "launcher_inv m"
  shows "launcher_inv (fst (confirm_yaml B m))"
  using assms by (auto simp: confirm_yaml_def launcher_inv_def Let_def)

lemma confirm_command_inv:
  assumes "stage m = stageCommand" and "launcher_inv m"
  shows "launcher_inv (fst (confirm_command B m))"
  using assms Fields_TrimSpace [of "textValue B (textIn m)"]
  by (auto simp: confirm_command_def launcher_inv_def command_for_def Let_def)

lemma launcher_inv_Update:
  assumes "launcher_inv m"
  shows "launcher_inv (fst (launcher_Update B now m msg))"
proof (cases msg)
  case (WindowSizeMsg w h)
  with assms show ?thesis by (simp add: launcher_Update_def launcher_inv_def split: stage.splits)
next
  case (OtherMsg k)
  with assms show ?thesis by (simp add: launcher_Update_def forward_inv)
next
  case (KeyMsg name k)
  have quit: "launcher_inv (m\<lparr>stage := stageQuit\<rparr>)" by (simp add: launcher_inv_def)
  have "launcher_inv (fst (case stage m of stageMode \<Rightarrow> confirm_mode B m
      | stageTarget \<Rightarrow> if procFiltering B (procList m) then forward B m k else confirm_target B now m
      | stageOutput \<Rightarrow> confirm_output B m | stageYAML \<Rightarrow> confirm_yaml B m
      | stageCommand \<Rightarrow> confirm_command B m | _ \<Rightarrow> forward B m k))"
    using assms by (cases "stage m")
      (auto simp: confirm_inv confirm_target_inv confirm_output_inv confirm_yaml_inv confirm_command_inv forward_inv)
  with KeyMsg quit assms show ?thesis by (auto simp: launcher_Update_def forward_inv)
qed

lemma launcher_inv_session: "launcher_inv m \<Longrightarrow> launcher_inv (launcher_session B m msgs)"
  unfolding launcher_session_def
  by (induction msgs arbitrary: m) (auto intro: launcher_inv_Update split: prod.splits)

lemma launcher_quit_stays:
  "stage m = stageQuit \<Longrightarrow> stage (fst (launcher_Update B now m msg)) = stageQuit"
  by (cases msg) (auto simp: launcher_Update_def forward_keeps)

lemma launcher_quit_session: "stage m = stageQuit \<Longrightarrow> stage (launcher_session B m msgs) = stageQuit"
  unfolding launcher_session_def
  by (induction msgs arbitrary: m) (auto simp: launcher_quit_stays split: prod.splits)

section \<open>What was confirmed\<close>

text \<open>
  The stages come in an order: a message leaves the menu in its stage or moves it on.
\<close>

primrec stage_rank :: "stage \<Rightarrow> nat" where
  "stage_rank stageMode = 0"
| "stage_rank stageTarget = 1"
| "stage_rank stageOutput = 2"
| "stage_rank stageYAML = 1"
| "stage_rank stageCommand = 2"
| "stage_rank stageDone = 3"
| "stage_rank stageQuit = 4"

lemma Update_rank:
  "stage (fst (launcher_Update B now m msg)) = stage m \<or> stage_rank (stage m) < stage_rank (stage (fst (launcher_Update B now m msg)))"
proof (cases msg)
  case (KeyMsg name k)
  have "stage m = stageQuit \<or> stage_rank (stage m) < stage_rank stageQuit" by (cases "stage m") simp_all
  moreover have "stage (fst (launcher_Update B now m (KeyMsg ''enter'' k))) = stage m \<or>
      stage_rank (stage m) < stage_rank (stage (fst (launcher_Update B now m (KeyMsg ''enter'' k))))"
    by (cases "stage m") (simp_all add: launcher_Update_def confirm_mode_def confirm_target_def confirm_output_def
        confirm_yaml_def confirm_command_def Let_def forward_keeps split: option.split)
  ultimately show ?thesis
    by (cases "name = ''enter''") (auto simp: KeyMsg launcher_Update_def forward_keeps)
qed (simp_all add: launcher_Update_def forward_keeps)

lemma session_rank: "stage_rank (stage m) \<le> stage_rank (stage (launcher_session B m msgs))"
proof (induction msgs arbitrary: m)
  case (Cons x msgs)
  obtain now msg where x: "x = (now, msg)" by (cases x)
  have "stage_rank (stage m) \<le> stage_rank (stage (fst (launcher_Update B now m msg)))"
    using Update_rank [of B now m msg] by auto
  also have "\<dots> \<le> stage_rank (stage (launcher_session B m (x # msgs)))"
    using Cons.IH [of "fst (launcher_Update B now m msg)"] by (simp add: launcher_session_def x)
  finally show ?case .
qed (simp add: launcher_session_def)

text \<open>
  Enter ends a stage of a session: \<open>mm\<close> is the state of the menu, in stage \<open>st\<close>, in which it is pressed
  and moves the menu on. That happens at most once in each stage.
\<close>

definition entered ::
  "('ml, 'pl, 'ti, 'm) bubbles \<Rightarrow> ('ml, 'pl, 'ti) launcher \<Rightarrow> (int \<times> 'm launcher_msg) list \<Rightarrow> stage \<Rightarrow>
     ('ml, 'pl, 'ti) launcher \<Rightarrow> bool" where
  "entered B m0 msgs st mm \<longleftrightarrow> stage mm = st \<and>
     (\<exists>xs now k ys. msgs = xs @ (now, KeyMsg ''enter'' k) # ys \<and> mm = launcher_session B m0 xs \<and>
        stage (fst (launcher_Update B now mm (KeyMsg ''enter'' k))) \<noteq> st)"

lemma entered_mono: "entered B m0 msgs st mm \<Longrightarrow> entered B m0 (msgs @ rest) st mm"
  unfolding entered_def by fastforce

lemma entered_now:
  "m = launcher_session B m0 msgs \<Longrightarrow> stage (fst (launcher_Update B now m (KeyMsg ''enter'' k))) \<noteq> stage m \<Longrightarrow>
     entered B m0 (msgs @ [(now, KeyMsg ''enter'' k)]) (stage m) m"
  unfolding entered_def by blast

lemma entered_not_later:
  assumes "xs1 @ (now, msg) # ys1 = xs2 @ ys2" and "length xs1 < length xs2"
    and "stage (fst (launcher_Update B now (launcher_session B m0 xs1) msg)) \<noteq> stage (launcher_session B m0 xs1)"
  shows "stage (launcher_session B m0 xs2) \<noteq> stage (launcher_session B m0 xs1)"
proof -
  obtain zs where "xs2 = xs1 @ zs" "zs @ ys2 = (now, msg) # ys1"
    using assms(1,2) by (auto simp: append_eq_append_conv2)
  then obtain us where xs2: "xs2 = xs1 @ (now, msg) # us" using assms(2) by (cases zs) auto
  have "stage_rank (stage (launcher_session B m0 xs1)) <
      stage_rank (stage (fst (launcher_Update B now (launcher_session B m0 xs1) msg)))"
    using Update_rank [of B now "launcher_session B m0 xs1" msg] assms(3) by blast
  also have "\<dots> \<le> stage_rank (stage (launcher_session B m0 xs2))"
    using session_rank [of "fst (launcher_Update B now (launcher_session B m0 xs1) msg)" B us]
    by (simp add: launcher_session_def xs2)
  finally show ?thesis by auto
qed

lemma entered_unique:
  assumes "entered B m0 msgs st m1" and "entered B m0 msgs st m2"
  shows "m1 = m2"
proof -
  obtain xs1 n1 k1 ys1 where 1: "msgs = xs1 @ (n1, KeyMsg ''enter'' k1) # ys1" "m1 = launcher_session B m0 xs1" "stage m1 = st"
      "stage (fst (launcher_Update B n1 m1 (KeyMsg ''enter'' k1))) \<noteq> st" using assms(1) unfolding entered_def by blast
  obtain xs2 n2 k2 ys2 where 2: "msgs = xs2 @ (n2, KeyMsg ''enter'' k2) # ys2" "m2 = launcher_session B m0 xs2" "stage m2 = st"
      "stage (fst (launcher_Update B n2 m2 (KeyMsg ''enter'' k2))) \<noteq> st" using assms(2) unfolding entered_def by blast
  have "\<not> length xs1 < length xs2"
    using entered_not_later [of xs1 n1 "KeyMsg ''enter'' k1" ys1 xs2 _ B m0] 1 2 by metis
  moreover have "\<not> length xs2 < length xs1"
    using entered_not_later [of xs2 n2 "KeyMsg ''enter'' k2" ys2 xs1 _ B m0] 1 2 by metis
  ultimately have "length xs1 = length xs2" by simp
  then have "xs1 = xs2" using 1(1) 2(1) by simp
  then show ?thesis using 1(2) 2(2) by simp
qed

text \<open>The model holds what was selected and typed at these moments.\<close>

definition mode_chosen where
  "mode_chosen B m0 msgs md \<longleftrightarrow> (\<exists>mm. entered B m0 msgs stageMode mm \<and> modeSelected B (modeList mm) = Some md)"

definition target_chosen where
  "target_chosen B m0 msgs pid \<longleftrightarrow> (\<exists>tm p. entered B m0 msgs stageTarget tm \<and> \<not> procFiltering B (procList tm) \<and>
     procSelected B (procList tm) = Some p \<and> procPID p = pid)"

definition text_chosen where
  "text_chosen B m0 msgs st s \<longleftrightarrow> (\<exists>tm. entered B m0 msgs st tm \<and> TrimSpace (textValue B (textIn tm)) = s \<and> s \<noteq> [])"

lemmas chosen_defs = mode_chosen_def target_chosen_def text_chosen_def

definition launcher_history ::
  "('ml, 'pl, 'ti, 'm) bubbles \<Rightarrow> ('ml, 'pl, 'ti) launcher \<Rightarrow> (int \<times> 'm launcher_msg) list \<Rightarrow> ('ml, 'pl, 'ti) launcher \<Rightarrow> bool" where
  "launcher_history B m0 msgs m \<longleftrightarrow>
     (stage m \<noteq> stageMode \<and> stage m \<noteq> stageQuit \<longrightarrow> mode_chosen B m0 msgs (mode m)) \<and>
     (stage m = stageOutput \<or> stage m = stageDone \<and> mode m \<noteq> ModeRun \<longrightarrow> target_chosen B m0 msgs (launchPID m)) \<and>
     (stage m = stageCommand \<or> stage m = stageDone \<and> mode m = ModeRun \<longrightarrow> text_chosen B m0 msgs stageYAML (yamlPath m)) \<and>
     (stage m = stageDone \<and> mode m = ModeRecord \<longrightarrow> (\<exists>out. text_chosen B m0 msgs stageOutput out \<and>
        Args (result m) = [''record'', ''--pid'', Itoa (uint (launchPID m)), ''-o'', out])) \<and>
     (stage m = stageDone \<and> mode m = ModeRun \<longrightarrow> (\<exists>line. text_chosen B m0 msgs stageCommand line \<and>
        Args (result m) = [''run'', ''--test'', yamlPath m, ''--''] @ Fields line))"

lemma chosen_unique:
  "mode_chosen B m0 msgs md \<Longrightarrow> mode_chosen B m0 msgs md' \<Longrightarrow> md = md'"
  "target_chosen B m0 msgs pid \<Longrightarrow> target_chosen B m0 msgs pid' \<Longrightarrow> pid = pid'"
  "text_chosen B m0 msgs st s \<Longrightarrow> text_chosen B m0 msgs st s' \<Longrightarrow> s = s'"
  unfolding chosen_defs by (auto dest: entered_unique)

lemma chosen_mono:
  "mode_chosen B m0 msgs md \<Longrightarrow> mode_chosen B m0 (msgs @ rest) md"
  "target_chosen B m0 msgs pid \<Longrightarrow> target_chosen B m0 (msgs @ rest) pid"
  "text_chosen B m0 msgs st s \<Longrightarrow> text_chosen B m0 (msgs @ rest) st s"
  unfolding chosen_defs using entered_mono by blast+

lemma history_keeps:
  assumes "launcher_history B m0 msgs m" and "stage m' = stage m" and "mode m' = mode m" and "launchPID m' = launchPID m"
    and "yamlPath m' = yamlPath m" and "result m' = result m"
  shows "launcher_history B m0 (msgs @ rest) m'"
  using assms(1) chosen_mono(1) [of B m0 msgs "mode m" rest] chosen_mono(2) [of B m0 msgs "launchPID m" rest]
    chosen_mono(3) [of B m0 msgs _ _ rest]
  unfolding launcher_history_def assms(2-6) by blast

lemma history_enter:
  assumes "launcher_history B m0 msgs m" and "launcher_inv m" and m: "m = launcher_session B m0 msgs"
  shows "launcher_history B m0 (msgs @ [(now, KeyMsg ''enter'' k)]) (fst (launcher_Update B now m (KeyMsg ''enter'' k)))"
proof -
  let ?msgs = "msgs @ [(now, KeyMsg ''enter'' k)]"
  note now = entered_now [OF m, of now k]
  have keeps: "launcher_history B m0 ?msgs m" by (rule history_keeps [OF assms(1)]) simp_all
  have fwd: "launcher_history B m0 ?msgs (fst (forward B m k))" by (rule history_keeps [OF assms(1)]) (simp_all add: forward_keeps)
  show ?thesis
  proof (cases "stage m")
    case stageMode
    then have "mode_chosen B m0 ?msgs md" if "modeSelected B (modeList m) = Some md" for md
      using now that unfolding mode_chosen_def
      by (cases "md = ModeRun") (auto simp: launcher_Update_def confirm_mode_def)
    with stageMode keeps show ?thesis
      by (cases "modeSelected B (modeList m)") (auto simp: launcher_Update_def confirm_mode_def launcher_history_def)
  next
    case stageTarget
    then have "target_chosen B m0 ?msgs (procPID p)"
      if "procSelected B (procList m) = Some p" "\<not> procFiltering B (procList m)" for p
      using now that unfolding target_chosen_def
      by (cases "mode m = ModeRecord") (auto simp: launcher_Update_def confirm_target_def)
    note chosen = this
    have md: "mode_chosen B m0 ?msgs (mode m)" "mode m \<noteq> ModeRun"
      using keeps assms(2) stageTarget by (simp_all add: launcher_history_def launcher_inv_def)
    show ?thesis
    proof (cases "procFiltering B (procList m)")
      case True
      with fwd stageTarget show ?thesis by (simp add: launcher_Update_def)
    next
      case False
      show ?thesis
      proof (cases "procSelected B (procList m)")
        case None
        with False keeps stageTarget show ?thesis by (simp add: launcher_Update_def confirm_target_def)
      next
        case (Some p)
        with False stageTarget md chosen [OF Some False] show ?thesis
          by (auto simp: launcher_Update_def confirm_target_def launcher_history_def)
      qed
    qed
  next
    case stageOutput
    then have "text_chosen B m0 ?msgs stageOutput (TrimSpace (textValue B (textIn m)))" if "TrimSpace (textValue B (textIn m)) \<noteq> []"
      using now that unfolding text_chosen_def by (auto simp: launcher_Update_def confirm_output_def)
    with stageOutput keeps assms(2) show ?thesis
      by (auto simp: launcher_Update_def confirm_output_def launcher_history_def launcher_inv_def Let_def)
  next
    case stageYAML
    then have "text_chosen B m0 ?msgs stageYAML (TrimSpace (textValue B (textIn m)))" if "TrimSpace (textValue B (textIn m)) \<noteq> []"
      using now that unfolding text_chosen_def by (auto simp: launcher_Update_def confirm_yaml_def)
    with stageYAML keeps show ?thesis
      by (auto simp: launcher_Update_def confirm_yaml_def launcher_history_def Let_def)
  next
    case stageCommand
    then have "text_chosen B m0 ?msgs stageCommand (TrimSpace (textValue B (textIn m)))" if "TrimSpace (textValue B (textIn m)) \<noteq> []"
      using now that unfolding text_chosen_def by (auto simp: launcher_Update_def confirm_command_def)
    with stageCommand keeps assms(2) show ?thesis
      by (auto simp: launcher_Update_def confirm_command_def launcher_history_def launcher_inv_def Let_def)
  qed (use fwd in \<open>simp_all add: launcher_Update_def\<close>)
qed

lemma history_Update:
  assumes "launcher_history B m0 msgs m" and "launcher_inv m" and "m = launcher_session B m0 msgs"
  shows "launcher_history B m0 (msgs @ [(now, msg)]) (fst (launcher_Update B now m msg))"
proof -
  note keeps = history_keeps [OF assms(1), of _ "[(now, msg)]"]
  have fwd: "launcher_history B m0 (msgs @ [(now, msg)]) (fst (forward B m k))" for k
    by (rule keeps) (simp_all add: forward_keeps)
  have quit: "launcher_history B m0 (msgs @ [(now, msg)]) (m\<lparr>stage := stageQuit\<rparr>)" by (simp add: launcher_history_def)
  show ?thesis
  proof (cases msg)
    case (KeyMsg name k)
    show ?thesis
    proof (cases "name = ''enter''")
      case True
      with history_enter [OF assms] show ?thesis by (simp add: KeyMsg)
    next
      case False
      with fwd quit show ?thesis unfolding KeyMsg by (auto simp: launcher_Update_def)
    qed
  next
    case (WindowSizeMsg w h)
    have "launcher_history B m0 (msgs @ [(now, msg)])
        (m\<lparr>modeList := modeSetSize B (modeList m) w (h - 2), procList := procSetSize B (procList m) w (h - 2)\<rparr>)"
      by (rule keeps) simp_all
    with WindowSizeMsg show ?thesis by (simp add: launcher_Update_def)
  qed (use fwd in \<open>simp add: launcher_Update_def\<close>)
qed

lemma history_session:
  assumes "stage m0 = stageMode"
  shows "launcher_history B m0 msgs (launcher_session B m0 msgs) \<and> launcher_inv (launcher_session B m0 msgs)"
proof (induction msgs rule: rev_induct)
  case Nil
  then show ?case using assms by (simp add: launcher_session_def launcher_history_def launcher_inv_def)
next
  case (snoc x msgs)
  obtain now msg where x: "x = (now, msg)" by (cases x)
  have "launcher_session B m0 (msgs @ [x]) = fst (launcher_Update B now (launcher_session B m0 msgs) msg)"
    by (simp add: launcher_session_def x)
  with snoc history_Update [of B m0 msgs "launcher_session B m0 msgs"] launcher_inv_Update [of "launcher_session B m0 msgs" B now msg]
  show ?case by (simp add: x)
qed

section \<open>Properties\<close>

text \<open>
  Whatever the user does in the menu and however the widgets behave, a completed session hands
  back the command line of the mode that was chosen: a trace of the selected process with that
  mode's flag, a recording of it to a non-empty path, or a replay of a non-empty path with a
  non-empty command; privileges are asked for exactly in the first two; and a session in which
  Ctrl-C was pressed never hands back anything.
\<close>

theorem launcher_result:
  assumes "ListProcesses fs procDir = Some ps"
    and newM: "newM = launcher_newModel newModes newProcs ti"
    and m: "m = launcher_session B (newM ps (findFirstYAML cwd)) msgs"
    and "program (newM ps (findFirstYAML cwd)) = Some m"
  shows "\<exists>r ok. launcher_Run fs procDir cwd newM program = Some (r, ok) \<and>
    (ok \<longrightarrow> command_for (mode m) (launchPID m) (yamlPath m) r) \<and>
    (\<forall>now k. (now, KeyMsg ''ctrl+c'' k) \<in> set msgs \<longrightarrow> \<not> ok)"
proof (intro exI conjI allI impI)
  show "launcher_Run fs procDir cwd newM program =
      Some (if stage m \<noteq> stageDone then noResult else result m, stage m = stageDone)"
    using assms(1,4) by (simp add: launcher_Run_def)
next
  have "launcher_inv (newM ps (findFirstYAML cwd))" by (simp add: newM launcher_inv_def launcher_newModel_def)
  then have "launcher_inv m" unfolding m by (rule launcher_inv_session)
  moreover assume "stage m = stageDone"
  ultimately show "command_for (mode m) (launchPID m) (yamlPath m) (if stage m \<noteq> stageDone then noResult else result m)"
    by (simp add: launcher_inv_def)
next
  fix now k assume "(now, KeyMsg ''ctrl+c'' k) \<in> set msgs"
  then obtain xs ys where msgs: "msgs = xs @ (now, KeyMsg ''ctrl+c'' k) # ys" by (meson split_list)
  let ?m = "fst (launcher_Update B now (launcher_session B (newM ps (findFirstYAML cwd)) xs) (KeyMsg ''ctrl+c'' k))"
  have "m = launcher_session B ?m ys" using m msgs by (simp add: launcher_session_def)
  moreover have "stage ?m = stageQuit" by (simp add: launcher_Update_def)
  ultimately have "stage m = stageQuit" by (simp add: launcher_quit_session)
  then show "stage m \<noteq> stageDone" by simp
qed

definition plain_bubbles :: "(unit, unit, bytes, bytes) bubbles" where
  "plain_bubbles = \<lparr>modeSelected = (\<lambda>_. Some ModeRun), procSelected = (\<lambda>_. None), procFiltering = (\<lambda>_. False),
     modeUpdate = (\<lambda>l _. l), procUpdate = (\<lambda>l _. l), textUpdate = (\<lambda>t k. t @ k),
     modeSetSize = (\<lambda>l _ _. l), procSetSize = (\<lambda>l _ _. l), textValue = id, textSetValue = (\<lambda>_ v. v),
     textPlaceholder = (\<lambda>t _. t), textFocusEnd = id\<rparr>"

definition sample_keys :: "(int \<times> bytes launcher_msg) list" where
  "sample_keys = [(0, KeyMsg ''enter'' []), (0, KeyMsg ''enter'' []), (0, KeyMsg ''a'' ''app''), (0, KeyMsg ''enter'' [])]"

theorem launcher_result_witness:
  "\<exists>r. launcher_Run (\<lambda>_. None) (Some []) (Some [(''t.yaml'', False)]) (launcher_newModel (\<lambda>_ _. ()) (\<lambda>_ _. ()) [])
       (\<lambda>m. Some (launcher_session plain_bubbles m sample_keys)) = Some (r, True) \<and>
     command_for ModeRun 0 ''t.yaml'' r"
proof -
  let ?newM = "launcher_newModel (\<lambda>_ _. ()) (\<lambda>_ _. ()) []" and ?cwd = "Some [(''t.yaml'', False)]"
    and ?program = "\<lambda>m. Some (launcher_session plain_bubbles m sample_keys)"
  have cwd: "findFirstYAML ?cwd = ''t.yaml''" by (simp add: findFirstYAML_def Ext_def)
  have ps: "ListProcesses (\<lambda>_. None) (Some []) = Some []" by (simp add: ListProcesses_def List.map_filter_def)
  define m where "m = launcher_session plain_bubbles (?newM [] (findFirstYAML ?cwd)) sample_keys"
  have "mode m = ModeRun \<and> launchPID m = 0 \<and> yamlPath m = ''t.yaml'' \<and> stage m = stageDone"
    unfolding m_def cwd
    by (simp add: launcher_session_def launcher_newModel_def sample_keys_def launcher_Update_def
        confirm_mode_def confirm_yaml_def confirm_command_def forward_def prompt_def plain_bubbles_def
        graphic_def TrimSpace_graphic Fields_graphic Let_def)
  moreover have "launcher_Run (\<lambda>_. None) (Some []) ?cwd ?newM ?program = Some (result m, True)"
    using calculation by (simp add: launcher_Run_def ps flip: m_def)
  ultimately show ?thesis using launcher_result [OF ps refl m_def, of ?program] by (auto simp: m_def)
qed

text \<open>
  The target list is a faithful snapshot: exactly the entries of \<open>/proc\<close> that are process numbers
  and whose name could be read, each once, in ascending order of the number.
\<close>

theorem list_processes_snapshot:
  assumes "ListProcesses fs (Some names) = Some procs"
  shows "sorted (map procPID procs) \<and> mset procs = mset (List.map_filter (process_of fs) names) \<and>
    (\<forall>p \<in> set procs. \<exists>name \<in> set names. ParseUint32 name = Some (procPID p) \<and>
       (\<exists>data. ReadFile fs (''/proc/'' @ name @ ''/comm'') = Some data \<and> procComm p = TrimSpace data))"
proof -
  have procs: "procs = sort_key procPID (List.map_filter (process_of fs) names)"
    using assms by (simp add: ListProcesses_def)
  have "\<exists>name \<in> set names. ParseUint32 name = Some (procPID p) \<and>
       (\<exists>data. ReadFile fs (''/proc/'' @ name @ ''/comm'') = Some data \<and> procComm p = TrimSpace data)"
    if "p \<in> set procs" for p
  proof -
    have "p \<in> set (List.map_filter (process_of fs) names)" using that by (simp add: procs)
    then obtain name where "name \<in> set names" and "process_of fs name = Some p"
      by (auto simp: List.map_filter_def)
    then show ?thesis
      by (intro bexI [of _ name]) (auto simp: process_of_def split: option.splits)
  qed
  then show ?thesis by (simp add: procs)
qed

definition proc_files :: filesystem where
  "proc_files = (\<lambda>p. if p = ''/proc/20/comm'' then Some \<lparr>content = ''b'', read_fails = False\<rparr>
                   else if p = ''/proc/3/comm'' then Some \<lparr>content = ''a'', read_fails = False\<rparr> else None)"

theorem list_processes_snapshot_witness:
  "sorted (map procPID [\<lparr>procPID = 3, procComm = ''a''\<rparr>, \<lparr>procPID = 20, procComm = ''b''\<rparr>])"
proof -
  have "ListProcesses proc_files (Some [''20'', ''3'', ''self'']) =
      Some [\<lparr>procPID = 3, procComm = ''a''\<rparr>, \<lparr>procPID = 20, procComm = ''b''\<rparr>]"
    by (simp add: ListProcesses_def List.map_filter_def process_of_def ParseUint32_def digits_val_def digit_val_def
        ReadFile_def proc_files_def graphic_def TrimSpace_graphic)
  from list_processes_snapshot [OF this] show ?thesis by (rule conjunct1)
qed

end
