(* ===== verification/Printer.thy ===== *)
theory Printer
  imports Collector
begin

text \<open>
  \<open>internal/printer\<close>: one line of plain text per event, with the pieces of \<open>fmt\<close>, \<open>strconv\<close> and
  \<open>time\<close> it is put together from. Which runes above U+00FF count as printable is data of the Go
  release (\<open>P\<close>, like the case tables), and the offset of the local time zone belongs to the
  machine (\<open>tz\<close>, in seconds, by time).
\<close>

section \<open>Formatting\<close>

definition hex_char :: "nat \<Rightarrow> char" where
  "hex_char d = char_of (if d < 10 then 48 + d else 87 + d)"

fun hex_nat :: "nat \<Rightarrow> bytes" where
  "hex_nat n = (if n < 16 then [hex_char n] else hex_nat (n div 16) @ [hex_char (n mod 16)])"

declare hex_nat.simps [simp del]

text \<open>The lowest \<open>k\<close> hexadecimal digits.\<close>

primrec hex_digits :: "nat \<Rightarrow> nat \<Rightarrow> bytes" where
  "hex_digits 0 n = []"
| "hex_digits (Suc k) n = hex_digits k (n div 16) @ [hex_char (n mod 16)]"

abbreviation dquote :: char where "dquote \<equiv> CHR 0x22"
abbreviation backslash :: char where "backslash \<equiv> CHR 0x5C"

definition IsPrint :: "(rune \<Rightarrow> bool) \<Rightarrow> rune \<Rightarrow> bool" where
  "IsPrint P r =
     (if r \<le> 0xFF then 0x20 \<le> r \<and> r < 0x7F \<or> 0xA1 \<le> r \<and> r \<noteq> 0xAD else P r)"

text \<open>
  \<open>strconv.appendEscapedRune\<close> for a double-quoted string. Its case of an invalid rune cannot come up:
  the runes are decoded from UTF-8.
\<close>

definition escaped_rune :: "(rune \<Rightarrow> bool) \<Rightarrow> rune \<Rightarrow> bytes" where
  "escaped_rune P r =
     (if r = of_char dquote \<or> r = of_char backslash then [backslash, char_of r]
      else if IsPrint P r then encode_rune r
      else if r = 7 then [backslash, CHR ''a'']
      else if r = 8 then [backslash, CHR ''b'']
      else if r = 12 then [backslash, CHR ''f'']
      else if r = 10 then [backslash, CHR ''n'']
      else if r = 13 then [backslash, CHR ''r'']
      else if r = 9 then [backslash, CHR ''t'']
      else if r = 11 then [backslash, CHR ''v'']
      else if r < 0x20 \<or> r = 0x7F then [backslash, CHR ''x''] @ hex_digits 2 r
      else if r < 0x10000 then [backslash, CHR ''u''] @ hex_digits 4 r
      else [backslash, CHR ''U''] @ hex_digits 8 r)"

function quote_body :: "(rune \<Rightarrow> bool) \<Rightarrow> bytes \<Rightarrow> bytes" where
  "quote_body P s =
     (if s = [] then []
      else let (r, width) = DecodeRune s in
        (if width = 1 \<and> r = RuneError then [backslash, CHR ''x''] @ hex_digits 2 (of_char (hd s))
         else escaped_rune P r) @ quote_body P (drop width s))"
  by pat_completeness auto
termination quote_body
proof (relation "measure (\<lambda>(P, s). length s)")
  fix P :: "rune \<Rightarrow> bool" and s :: bytes and x r width
  assume "s \<noteq> []" and "x = DecodeRune s" and "(r, width) = x"
  with DecodeRune_width [OF \<open>s \<noteq> []\<close>] have "0 < width" by (metis snd_conv)
  with \<open>s \<noteq> []\<close> show "((P, drop width s), (P, s)) \<in> measure (\<lambda>(P, s). length s)" by simp
qed simp

declare quote_body.simps [simp del]

text \<open>\<open>%q\<close> of a byte slice.\<close>

definition quoted :: "(rune \<Rightarrow> bool) \<Rightarrow> bytes \<Rightarrow> bytes" where
  "quoted P s = dquote # quote_body P s @ [dquote]"

text \<open>\<open>%d\<close> with a fixed number of digits, and \<open>t.Format("15:04:05.000")\<close> of a time in nanoseconds.\<close>

primrec dec_digits :: "nat \<Rightarrow> nat \<Rightarrow> bytes" where
  "dec_digits 0 n = []"
| "dec_digits (Suc k) n = dec_digits k (n div 10) @ [digit_char (n mod 10)]"

definition clock_time :: "(int \<Rightarrow> int) \<Rightarrow> int \<Rightarrow> bytes" where
  "clock_time tz t =
     (let secs = t div 10 ^ 9; day = nat ((secs + tz secs) mod 86400); ms = nat (t mod 10 ^ 9 div 10 ^ 6)
      in dec_digits 2 (day div 3600) @ '':'' @ dec_digits 2 (day div 60 mod 60) @ '':'' @
         dec_digits 2 (day mod 60) @ ''.'' @ dec_digits 3 ms)"

section \<open>Lines\<close>

text \<open>\<open>"%d bytes: %q"\<close> of an event's data.\<close>

definition bytes_text :: "(rune \<Rightarrow> bool) \<Rightarrow> event \<Rightarrow> bytes exec" where
  "bytes_text P ev =
     map_exec_result (\<lambda>payload. Itoa (uint (DataLen ev)) @ '' bytes: '' @ quoted P payload) (Payload ev)"

definition hex_ptr :: "uint64 \<Rightarrow> bytes" where
  "hex_ptr p = ''0x'' @ hex_nat (unat p)"

definition Format :: "(rune \<Rightarrow> bool) \<Rightarrow> (int \<Rightarrow> int) \<Rightarrow> event \<Rightarrow> bytes \<Rightarrow> int \<Rightarrow> bytes exec" where
  "Format P tz ev comm t =
     (let prefix = ''['' @ clock_time tz t @ ''] PID '' @ Itoa (uint (PID ev)) @ '' ('' @ comm @ '') fd='' @
                   Itoa (sint (FD ev)) in
      if Operation ev = OpConnect then Ret (prefix @ '' CONNECT -> '' @ RemoteAddrString ev)
      else if Operation ev = OpWrite then map_exec_result (\<lambda>s. prefix @ '' WRITE '' @ s) (bytes_text P ev)
      else if Operation ev = OpRead then map_exec_result (\<lambda>s. prefix @ '' READ '' @ s) (bytes_text P ev)
      else if Operation ev = OpClose then Ret (prefix @ '' CLOSE'')
      else if Operation ev = OpSSLWrite then
        map_exec_result (\<lambda>s. prefix @ '' SSL_WRITE(ssl='' @ hex_ptr (SSLPtr ev) @ '') '' @ s) (bytes_text P ev)
      else if Operation ev = OpSSLRead then
        map_exec_result (\<lambda>s. prefix @ '' SSL_READ(ssl='' @ hex_ptr (SSLPtr ev) @ '') '' @ s) (bytes_text P ev)
      else Ret (prefix @ '' UNKNOWN(op='' @ Itoa (uint (Operation ev)) @ '')''))"

text \<open>\<open>Print\<close>: what is written for the events of a trace; \<open>fsAt\<close> as in theory \<open>Correlator\<close>.\<close>

primrec Print ::
  "(rune \<Rightarrow> bool) \<Rightarrow> (int \<Rightarrow> int) \<Rightarrow> (event \<Rightarrow> filesystem) \<Rightarrow> (event \<Rightarrow> int) \<Rightarrow> event list \<Rightarrow> bytes exec" where
  "Print P tz fsAt timeOf [] = Ret []"
| "Print P tz fsAt timeOf (ev # evs) =
     (case Format P tz ev (Comm (fsAt ev) (PID ev)) (timeOf ev) of
        Panic p \<Rightarrow> Panic p
      | Ret line \<Rightarrow> map_exec_result (\<lambda>rest. line @ [LF] @ rest) (Print P tz fsAt timeOf evs))"

section \<open>No control characters\<close>

definition no_control :: "bytes \<Rightarrow> bool" where
  "no_control s \<longleftrightarrow> list_all (\<lambda>c. 32 \<le> byte_val c \<and> byte_val c \<noteq> 127) s"

lemma no_control_append [simp]: "no_control (s @ t) \<longleftrightarrow> no_control s \<and> no_control t"
  by (simp add: no_control_def)

lemma no_control_Cons [simp]: "no_control (c # s) \<longleftrightarrow> 32 \<le> byte_val c \<and> byte_val c \<noteq> 127 \<and> no_control s"
  by (simp add: no_control_def)

lemma no_control_Nil [simp]: "no_control []"
  by (simp add: no_control_def)

lemma no_control_LF: "no_control s \<Longrightarrow> LF \<notin> set s"
  by (auto simp: no_control_def list_all_iff)

lemma no_control_hex_char: "d < 16 \<Longrightarrow> 32 \<le> byte_val (hex_char d) \<and> byte_val (hex_char d) \<noteq> 127"
  by (simp add: hex_char_def)

lemma no_control_hex_nat: "no_control (hex_nat n)"
proof (induction n rule: hex_nat.induct)
  case (1 n)
  then show ?case using no_control_hex_char by (subst hex_nat.simps) simp
qed

lemma no_control_hex_digits: "no_control (hex_digits k n)"
  using no_control_hex_char by (induction k arbitrary: n) simp_all

lemma no_control_digit: "d < 10 \<Longrightarrow> 32 \<le> byte_val (digit_char d) \<and> byte_val (digit_char d) \<noteq> 127"
  by (simp add: digit_char_def)

lemma no_control_itoa_nat: "no_control (itoa_nat n)"
proof (induction n rule: itoa_nat.induct)
  case (1 n)
  then show ?case using no_control_digit by (subst itoa_nat.simps) simp
qed

lemma no_control_Itoa: "no_control (Itoa i)"
  by (simp add: Itoa_def no_control_itoa_nat)

lemma no_control_dec_digits: "no_control (dec_digits k n)"
  using no_control_digit by (induction k arbitrary: n) simp_all

lemma no_control_encode_rune: "IsPrint P r \<Longrightarrow> no_control (encode_rune r)"
  unfolding no_control_def list_all_iff
  by (auto simp: IsPrint_def dest!: encode_rune_small split: if_splits)

lemma no_control_escaped_rune: "no_control (escaped_rune P r)"
proof (cases "r = of_char dquote \<or> r = of_char backslash")
  case True
  then show ?thesis by (auto simp: escaped_rune_def)
next
  case False
  then show ?thesis by (simp add: escaped_rune_def no_control_encode_rune no_control_hex_digits)
qed

lemma no_control_quote_body: "no_control (quote_body P s)"
proof (induction P s rule: quote_body.induct)
  case (1 P s)
  show ?case
  proof (cases "s = []")
    case False
    obtain r width where d: "DecodeRune s = (r, width)" by (cases "DecodeRune s")
    with "1.IH" [OF False d [symmetric] refl] False show ?thesis
      by (subst quote_body.simps) (simp add: no_control_escaped_rune no_control_hex_digits)
  qed (simp add: quote_body.simps)
qed

lemma no_control_quoted: "no_control (quoted P s)"
  by (simp add: quoted_def no_control_quote_body)

lemma no_control_address: "no_control (RemoteAddrString ev)"
  by (simp add: RemoteAddrString_def FormatIPv4Port_def no_control_Itoa)

text \<open>The control characters of a text, in order.\<close>

definition controls :: "bytes \<Rightarrow> bytes" where
  "controls s = filter (\<lambda>c. byte_val c < 32 \<or> byte_val c = 127) s"

lemma controls_append: "controls (s @ t) = controls s @ controls t"
  by (simp add: controls_def)

lemma controls_none: "no_control s \<longleftrightarrow> controls s = []"
  by (auto simp: controls_def no_control_def list_all_iff filter_empty_conv)

lemma controls_between:
  "no_control a \<Longrightarrow> no_control b \<Longrightarrow> no_control c \<Longrightarrow> controls (a @ s @ b @ c) = controls s"
  by (simp add: controls_append controls_none)

lemma LF_controls: "count_list (controls s) LF = count_list s LF"
  by (induction s) (auto simp: controls_def)

lemma bytes_text_clean: "data_ok ev \<Longrightarrow> \<exists>s. bytes_text P ev = Ret s \<and> no_control s"
  by (simp add: bytes_text_def no_control_Itoa no_control_quoted)

lemma Format_controls:
  assumes "data_ok ev"
  shows "\<exists>line. Format P tz ev comm t = Ret line \<and> controls line = controls comm"
proof -
  obtain s where s: "bytes_text P ev = Ret s" and clean: "no_control s" using bytes_text_clean [OF assms] by blast
  let ?pre = "''['' @ clock_time tz t @ ''] PID '' @ Itoa (uint (PID ev)) @ '' (''" and ?fd = "'') fd='' @ Itoa (sint (FD ev))"
  have "no_control ?pre" "no_control ?fd"
    by (simp_all add: clock_time_def Let_def no_control_dec_digits no_control_Itoa)
  note line = controls_between [OF this]
  have tails: "no_control ('' CONNECT -> '' @ RemoteAddrString ev)" "no_control ('' WRITE '' @ s)" "no_control ('' READ '' @ s)"
    "no_control '' CLOSE''" "no_control ('' SSL_WRITE(ssl='' @ hex_ptr (SSLPtr ev) @ '') '' @ s)"
    "no_control ('' SSL_READ(ssl='' @ hex_ptr (SSLPtr ev) @ '') '' @ s)"
    "no_control ('' UNKNOWN(op='' @ Itoa (uint (Operation ev)) @ '')'')"
    using clean by (simp_all add: no_control_address no_control_Itoa hex_ptr_def no_control_hex_nat)
  from tails [THEN line, of comm] show ?thesis by (simp add: Format_def Let_def s)
qed

section \<open>Properties\<close>

text \<open>
  C34: Captured data cannot forge output. For events with a captured length within the array, such as all that the
  kernel programs submit, \<open>Print\<close> writes the formatted texts of the events in order, each ended by one
  line feed; and whatever bytes were captured, the ASCII control characters in such a text, line feeds
  and escapes included, are exactly those of the command name, which alone is not quoted. So an event takes
  one line and one more for every line feed in its command name, exactly one if there is none.
\<close>

theorem print_one_line_per_event:
  assumes "\<forall>ev \<in> set evs. data_ok ev"
  shows "\<exists>lines. Print P tz fsAt timeOf evs = Ret (concat (map (\<lambda>line. line @ [LF]) lines)) \<and>
    list_all2 (\<lambda>ev line. Format P tz ev (Comm (fsAt ev) (PID ev)) (timeOf ev) = Ret line \<and>
      controls line = controls (Comm (fsAt ev) (PID ev)) \<and>
      count_list line LF = count_list (Comm (fsAt ev) (PID ev)) LF) evs lines"
  using assms
proof (induction evs)
  case Nil
  then show ?case by simp
next
  case (Cons ev evs)
  let ?comm = "Comm (fsAt ev) (PID ev)"
  obtain lines where rest: "Print P tz fsAt timeOf evs = Ret (concat (map (\<lambda>line. line @ [LF]) lines))"
    and all: "list_all2 (\<lambda>ev line. Format P tz ev (Comm (fsAt ev) (PID ev)) (timeOf ev) = Ret line \<and>
      controls line = controls (Comm (fsAt ev) (PID ev)) \<and>
      count_list line LF = count_list (Comm (fsAt ev) (PID ev)) LF) evs lines"
    using Cons by auto
  obtain line where "Format P tz ev ?comm (timeOf ev) = Ret line" and "controls line = controls ?comm"
    using Format_controls [of ev P tz ?comm "timeOf ev"] Cons.prems by auto
  with rest all LF_controls [of line] LF_controls [of ?comm] show ?case by (intro exI [of _ "line # lines"]) simp
qed

definition forged_event :: event where
  "forged_event = sample_event\<lparr>Data := [LF] @ ''[00'' @ replicate 4092 (CHR 0x1B)\<rparr>"

text \<open>One event whose data begin with a line feed, of a process whose name holds an escape character.\<close>

theorem print_one_line_per_event_witness:
  "\<exists>line. Print (\<lambda>_. True) (\<lambda>_. 0) (\<lambda>_ _. Some \<lparr>content = ''a'' @ [CHR 0x1B] @ ''b'', read_fails = False\<rparr>) (\<lambda>_. 0) [forged_event] =
       Ret (line @ [LF]) \<and> controls line = [CHR 0x1B] \<and> count_list line LF = 0"
proof -
  let ?fs = "\<lambda>_ _. Some \<lparr>content = ''a'' @ [CHR 0x1B] @ ''b'', read_fails = False\<rparr>"
  have "\<forall>ev \<in> set [forged_event]. data_ok ev" by (simp add: forged_event_def sample_event_def data_ok_def dataCap_def)
  from print_one_line_per_event [OF this, of "\<lambda>_. True" "\<lambda>_. 0" ?fs "\<lambda>_. 0"] obtain lines
    where out: "Print (\<lambda>_. True) (\<lambda>_. 0) ?fs (\<lambda>_. 0) [forged_event] = Ret (concat (map (\<lambda>line. line @ [LF]) lines))"
      and "list_all2 (\<lambda>ev line. Format (\<lambda>_. True) (\<lambda>_. 0) ev (Comm (?fs ev) (PID ev)) 0 = Ret line \<and>
        controls line = controls (Comm (?fs ev) (PID ev)) \<and> count_list line LF = count_list (Comm (?fs ev) (PID ev)) LF)
        [forged_event] lines"
    by (elim exE conjE)
  then obtain line where "lines = [line]" "controls line = controls (Comm (?fs forged_event) (PID forged_event))"
      "count_list line LF = count_list (Comm (?fs forged_event) (PID forged_event)) LF"
    by (auto simp: list_all2_Cons1)
  moreover have "TrimSpace (''a'' @ [CHR 0x1B] @ ''b'') = ''a'' @ [CHR 0x1B] @ ''b''"
    by (rule TrimSpace_ends)
      (use graphic_no_space [of "''ab''" "CHR ''a''"] graphic_no_space [of "''ab''" "CHR ''b''"] in \<open>simp_all add: graphic_def\<close>)
  then have "Comm (?fs forged_event) pid = ''a'' @ [CHR 0x1B] @ ''b''" for pid by (simp add: Comm_def ReadFile_def)
  ultimately show ?thesis using out by (simp add: controls_def del: Print.simps)
qed

end
