(* ===== verification/Tui.thy ===== *)
theory Tui
  imports Correlator Streamer Printer
begin

text \<open>
  \<open>internal/tui\<close>: the rows of the three tables of the live view, how they are kept up to date from
  the channels, the keys, and the coloring of a rendered table. The table widget of the bubbles
  library (\<open>'tb\<close>) and the terminal styling of lipgloss are parameters.
\<close>

section \<open>Rows\<close>

definition maxRows :: nat where
  "maxRows = 500"

type_synonym row = "bytes list"

definition opName :: "uint32 \<Rightarrow> bytes" where
  "opName opn =
     (if opn = OpConnect then ''CONNECT'' else if opn = OpWrite then ''WRITE'' else if opn = OpRead then ''READ''
      else if opn = OpClose then ''CLOSE'' else if opn = OpSSLWrite then ''SSL_WRITE''
      else if opn = OpSSLRead then ''SSL_READ'' else ''OP('' @ Itoa (uint opn) @ '')'')"

definition eventDetail :: "(rune \<Rightarrow> bool) \<Rightarrow> event \<Rightarrow> bytes exec" where
  "eventDetail P ev =
     (if Operation ev = OpConnect then Ret (''-> '' @ RemoteAddrString ev)
      else if Operation ev = OpWrite \<or> Operation ev = OpRead then bytes_text P ev
      else if Operation ev = OpSSLWrite \<or> Operation ev = OpSSLRead
      then map_exec_result (\<lambda>s. ''ssl='' @ hex_ptr (SSLPtr ev) @ '' '' @ s) (bytes_text P ev)
      else Ret [])"

definition eventRow :: "(rune \<Rightarrow> bool) \<Rightarrow> (int \<Rightarrow> int) \<Rightarrow> filesystem \<Rightarrow> event \<Rightarrow> int \<Rightarrow> row exec" where
  "eventRow P tz fs ev t =
     map_exec_result (\<lambda>detail. [clock_time tz t, Itoa (uint (PID ev)), Comm fs (PID ev), Itoa (sint (FD ev)),
       opName (Operation ev), detail]) (eventDetail P ev)"

definition connRow :: "Connection \<Rightarrow> row" where
  "connRow c =
     [Itoa (uint (cPID c)), cComm c, Itoa (sint (cFD c)), conn_RemoteAddrString c, Itoa (uint (BytesOut c)),
      Itoa (uint (BytesIn c)), if cClosed c then ''closed'' else ''open'']"

definition httpRow :: "Exchange \<Rightarrow> row" where
  "httpRow ex =
     (let req = Option.bind (exHTTP ex) Request; resp = Option.bind (exHTTP ex) Response;
          body0 = (case (req, exHTTP ex) of (Some q, Some h) \<Rightarrow> RequestBody h | _ \<Rightarrow> []);
          body = (case (resp, exHTTP ex) of (Some p, Some h) \<Rightarrow> ResponseBody h | _ \<Rightarrow> body0);
          preview = (if 37 < length body then take 37 body @ ''...'' else body)
      in [Itoa (uint (exPID ex)), Itoa (sint (exFD ex)),
          case req of None \<Rightarrow> ''-'' | Some q \<Rightarrow> Method q, case req of None \<Rightarrow> ''-'' | Some q \<Rightarrow> URLPath q,
          case resp of None \<Rightarrow> ''-'' | Some p \<Rightarrow> Itoa (StatusCode p), preview,
          if exTruncated ex then ''yes'' else []])"

section \<open>Tabs\<close>

text \<open>
  The messages of the program: what the three wait commands deliver, key presses, resizes, and
  anything else. \<open>EventMsg\<close> carries the event's time and, as in theory \<open>Correlator\<close>, the file system at the moment
  the row is made.
\<close>

datatype 'm tui_msg =
  EventMsg event int filesystem | EventsClosed | ConnMsg Connection | ConnsClosed | HttpMsg Exchange | HttpClosed
  | KeyPress bytes 'm | WindowSize int int | OtherTui 'm

text \<open>The operations of the table widget: rows, scrolling to the end, a message, its size.\<close>

record ('tb, 'm) tables =
  SetRows :: "'tb \<Rightarrow> row list \<Rightarrow> 'tb"
  GotoBottom :: "'tb \<Rightarrow> 'tb"
  tableUpdate :: "'tb \<Rightarrow> 'm tui_msg \<Rightarrow> 'tb"
  SetWidth :: "'tb \<Rightarrow> int \<Rightarrow> 'tb"
  SetHeight :: "'tb \<Rightarrow> int \<Rightarrow> 'tb"

text \<open>The command a tab returns: wait for the next message of its channel, none, or the table's.\<close>

datatype tab_cmd = WaitNext | NoTabCmd | TableCmd

record 'tb eventsTab =
  eTable :: 'tb
  eRows :: "row list"
  eClosed :: bool

record 'tb connsTab =
  cTable :: 'tb
  cIndex :: "uint64 \<rightharpoonup> nat"
  cRows :: "row list"
  cClosedTab :: bool

record 'tb httpTab =
  hTable :: 'tb
  hRows :: "row list"
  hClosed :: bool

text \<open>Appending a row and dropping the oldest ones beyond \<open>maxRows\<close>.\<close>

definition append_row :: "'a list \<Rightarrow> 'a \<Rightarrow> 'a list" where
  "append_row rows r =
     (let rows' = rows @ [r] in if maxRows < length rows' then drop (length rows' - maxRows) rows' else rows')"

definition events_update ::
  "(rune \<Rightarrow> bool) \<Rightarrow> (int \<Rightarrow> int) \<Rightarrow> ('tb, 'm) tables \<Rightarrow> 'tb eventsTab \<Rightarrow> 'm tui_msg \<Rightarrow> ('tb eventsTab \<times> tab_cmd) exec" where
  "events_update P tz W m msg =
     (case msg of
        EventMsg ev t fs \<Rightarrow>
          map_exec_result (\<lambda>r. let rows = append_row (eRows m) r in
            (m\<lparr>eRows := rows, eTable := GotoBottom W (SetRows W (eTable m) rows)\<rparr>, WaitNext)) (eventRow P tz fs ev t)
      | EventsClosed \<Rightarrow> Ret (m\<lparr>eClosed := True\<rparr>, NoTabCmd)
      | _ \<Rightarrow> Ret (m\<lparr>eTable := tableUpdate W (eTable m) msg\<rparr>, TableCmd))"

text \<open>A row index out of range panics.\<close>

definition conns_update :: "('tb, 'm) tables \<Rightarrow> 'tb connsTab \<Rightarrow> 'm tui_msg \<Rightarrow> ('tb connsTab \<times> tab_cmd) exec" where
  "conns_update W m msg =
     (case msg of
        ConnMsg c \<Rightarrow>
          (case cIndex m (cSeq c) of
             Some idx \<Rightarrow>
               if idx < length (cRows m)
               then let rows = (cRows m)[idx := connRow c] in
                 Ret (m\<lparr>cRows := rows, cTable := SetRows W (cTable m) rows\<rparr>, WaitNext)
               else Panic IndexRange
           | None \<Rightarrow>
               let rows = cRows m @ [connRow c] in
                 Ret (m\<lparr>cIndex := (cIndex m)(cSeq c \<mapsto> length (cRows m)), cRows := rows,
                        cTable := SetRows W (cTable m) rows\<rparr>, WaitNext))
      | ConnsClosed \<Rightarrow> Ret (m\<lparr>cClosedTab := True\<rparr>, NoTabCmd)
      | _ \<Rightarrow> Ret (m\<lparr>cTable := tableUpdate W (cTable m) msg\<rparr>, TableCmd))"

definition http_update :: "('tb, 'm) tables \<Rightarrow> 'tb httpTab \<Rightarrow> 'm tui_msg \<Rightarrow> 'tb httpTab \<times> tab_cmd" where
  "http_update W m msg =
     (case msg of
        HttpMsg ex \<Rightarrow>
          if exProtocol ex = ProtocolHTTP
          then let rows = append_row (hRows m) (httpRow ex) in
            (m\<lparr>hRows := rows, hTable := GotoBottom W (SetRows W (hTable m) rows)\<rparr>, WaitNext)
          else (m, WaitNext)
      | HttpClosed \<Rightarrow> (m\<lparr>hClosed := True\<rparr>, NoTabCmd)
      | _ \<Rightarrow> (m\<lparr>hTable := tableUpdate W (hTable m) msg\<rparr>, TableCmd))"

section \<open>The program\<close>

datatype tab = tabEvents | tabConnections | tabHTTP

primrec next_tab :: "tab \<Rightarrow> tab" where
  "next_tab tabEvents = tabConnections"
| "next_tab tabConnections = tabHTTP"
| "next_tab tabHTTP = tabEvents"

record 'tb tui_model =
  active :: tab
  eventsT :: "'tb eventsTab"
  connsT :: "'tb connsTab"
  httpT :: "'tb httpTab"
  tuiWidth :: int
  tuiHeight :: int

text \<open>The three tables that the constructors of the tabs build are arguments.\<close>

definition tui_newModel :: "'tb \<Rightarrow> 'tb \<Rightarrow> 'tb \<Rightarrow> 'tb tui_model" where
  "tui_newModel t1 t2 t3 =
     \<lparr>active = tabEvents, eventsT = \<lparr>eTable = t1, eRows = [], eClosed = False\<rparr>,
      connsT = \<lparr>cTable = t2, cIndex = Map.empty, cRows = [], cClosedTab = False\<rparr>,
      httpT = \<lparr>hTable = t3, hRows = [], hClosed = False\<rparr>, tuiWidth = 80, tuiHeight = 24\<rparr>"

definition chromeHeight :: int where "chromeHeight = 2 + 1 + 1 + 1"
definition chromeWidth :: int where "chromeWidth = 4"

definition resize :: "('tb, 'm) tables \<Rightarrow> 'tb \<Rightarrow> int \<Rightarrow> int \<Rightarrow> 'tb" where
  "resize W t w h = SetHeight W (SetWidth W t (max 1 (w - chromeWidth))) (max 1 (h - chromeHeight))"

definition set_size :: "('tb, 'm) tables \<Rightarrow> 'tb tui_model \<Rightarrow> int \<Rightarrow> int \<Rightarrow> 'tb tui_model" where
  "set_size W m w h =
     m\<lparr>tuiWidth := w, tuiHeight := h,
       eventsT := (eventsT m)\<lparr>eTable := resize W (eTable (eventsT m)) w h\<rparr>,
       connsT := (connsT m)\<lparr>cTable := resize W (cTable (connsT m)) w h\<rparr>,
       httpT := (httpT m)\<lparr>hTable := resize W (hTable (httpT m)) w h\<rparr>\<rparr>"

datatype tui_cmd = TuiQuit | NoTui | Batch tab_cmd tab_cmd tab_cmd

text \<open>The message is given to every tab.\<close>

definition update_tabs ::
  "(rune \<Rightarrow> bool) \<Rightarrow> (int \<Rightarrow> int) \<Rightarrow> ('tb, 'm) tables \<Rightarrow> 'tb tui_model \<Rightarrow> 'm tui_msg \<Rightarrow> ('tb tui_model \<times> tui_cmd) exec" where
  "update_tabs P tz W m msg =
     (case events_update P tz W (eventsT m) msg of
        Panic p \<Rightarrow> Panic p
      | Ret (e, c0) \<Rightarrow>
          (case conns_update W (connsT m) msg of
             Panic p \<Rightarrow> Panic p
           | Ret (c, c1) \<Rightarrow>
               (case http_update W (httpT m) msg of
                  (h, c2) \<Rightarrow> Ret (m\<lparr>eventsT := e, connsT := c, httpT := h\<rparr>, Batch c0 c1 c2))))"

definition tui_Update ::
  "(rune \<Rightarrow> bool) \<Rightarrow> (int \<Rightarrow> int) \<Rightarrow> ('tb, 'm) tables \<Rightarrow> 'tb tui_model \<Rightarrow> 'm tui_msg \<Rightarrow> ('tb tui_model \<times> tui_cmd) exec" where
  "tui_Update P tz W m msg =
     (case msg of
        KeyPress key k \<Rightarrow>
          if key = ''ctrl+c'' \<or> key = ''q'' then Ret (m, TuiQuit)
          else if key = ''tab'' then Ret (m\<lparr>active := next_tab (active m)\<rparr>, NoTui)
          else update_tabs P tz W m msg
      | WindowSize w h \<Rightarrow> update_tabs P tz W (set_size W m w h) msg
      | _ \<Rightarrow> update_tabs P tz W m msg)"

section \<open>What the messages carried\<close>

definition event_msgs :: "'m tui_msg list \<Rightarrow> (event \<times> int \<times> filesystem) list" where
  "event_msgs = List.map_filter (\<lambda>msg. case msg of EventMsg ev t fs \<Rightarrow> Some (ev, t, fs) | _ \<Rightarrow> None)"

definition conn_msgs :: "'m tui_msg list \<Rightarrow> Connection list" where
  "conn_msgs = List.map_filter (\<lambda>msg. case msg of ConnMsg c \<Rightarrow> Some c | _ \<Rightarrow> None)"

definition http_msgs :: "'m tui_msg list \<Rightarrow> Exchange list" where
  "http_msgs = List.map_filter (\<lambda>msg. case msg of HttpMsg ex \<Rightarrow> Some ex | _ \<Rightarrow> None)"

lemma msgs_Nil [simp]: "event_msgs [] = []" "conn_msgs [] = []" "http_msgs [] = []"
  by (simp_all add: event_msgs_def conn_msgs_def http_msgs_def List.map_filter_def)

lemma msgs_snoc [simp]:
  "event_msgs (msgs @ [msg]) = event_msgs msgs @ (case msg of EventMsg ev t fs \<Rightarrow> [(ev, t, fs)] | _ \<Rightarrow> [])"
  "conn_msgs (msgs @ [msg]) = conn_msgs msgs @ (case msg of ConnMsg c \<Rightarrow> [c] | _ \<Rightarrow> [])"
  "http_msgs (msgs @ [msg]) = http_msgs msgs @ (case msg of HttpMsg ex \<Rightarrow> [ex] | _ \<Rightarrow> [])"
  by (cases msg; simp add: event_msgs_def conn_msgs_def http_msgs_def List.map_filter_def)+

text \<open>The rows of all of a sequence that a bounded table keeps, and the rows of the connections table.\<close>

definition last_rows :: "'a list \<Rightarrow> 'a list" where
  "last_rows rows = drop (length rows - maxRows) rows"

definition first_seqs :: "Connection list \<Rightarrow> uint64 list" where
  "first_seqs cs = rev (remdups (rev (map cSeq cs)))"

definition latest :: "Connection list \<Rightarrow> uint64 \<Rightarrow> Connection" where
  "latest cs s = last (filter (\<lambda>c. cSeq c = s) cs)"

definition conn_rows :: "Connection list \<Rightarrow> row list" where
  "conn_rows cs = map (\<lambda>s. connRow (latest cs s)) (first_seqs cs)"

lemma append_row_last: "append_row (last_rows rows) r = last_rows (rows @ [r])"
  by (cases "maxRows \<le> length rows") (auto simp: append_row_def last_rows_def Let_def Suc_diff_le)

lemma map_append_row: "map f (append_row rows r) = append_row (map f rows) (f r)"
  by (simp add: append_row_def Let_def drop_map maxRows_def)

lemma length_last_rows: "length (last_rows rows) \<le> maxRows"
  by (simp add: last_rows_def)

lemma first_seqs_snoc:
  "first_seqs (cs @ [c]) = (if cSeq c \<in> cSeq ` set cs then first_seqs cs else first_seqs cs @ [cSeq c])"
  by (auto simp: first_seqs_def)

lemma set_first_seqs: "set (first_seqs cs) = cSeq ` set cs"
  by (simp add: first_seqs_def)

lemma distinct_first_seqs: "distinct (first_seqs cs)"
  by (simp add: first_seqs_def)

lemma latest_snoc: "latest (cs @ [c]) s = (if s = cSeq c then c else latest cs s)"
  by (simp add: latest_def)

text \<open>The index of the connections tab points at the row of each sequence number.\<close>

definition conns_inv :: "Connection list \<Rightarrow> 'tb connsTab \<Rightarrow> bool" where
  "conns_inv cs m \<longleftrightarrow> cRows m = conn_rows cs \<and>
     (\<forall>s i. cIndex m s = Some i \<longleftrightarrow> i < length (first_seqs cs) \<and> first_seqs cs ! i = s)"

lemma conns_inv_known:
  assumes inv: "conns_inv cs m" and known: "cIndex m (cSeq c) = Some i"
  shows "i < length (cRows m) \<and> conns_inv (cs @ [c]) (m\<lparr>cRows := (cRows m)[i := connRow c], cTable := t\<rparr>)"
proof -
  have i: "i < length (first_seqs cs)" and s: "first_seqs cs ! i = cSeq c"
    using inv known by (auto simp: conns_inv_def)
  then have seqs: "first_seqs (cs @ [c]) = first_seqs cs"
    using nth_mem [OF i] by (simp add: first_seqs_snoc set_first_seqs)
  have "first_seqs cs ! j \<noteq> cSeq c" if "j < length (first_seqs cs)" and "j \<noteq> i" for j
    using that i s distinct_first_seqs [of cs] by (simp add: nth_eq_iff_index_eq flip: s)
  then have "(conn_rows cs)[i := connRow c] = conn_rows (cs @ [c])"
    using i s by (intro nth_equalityI) (auto simp: conn_rows_def seqs latest_snoc nth_list_update)
  then show ?thesis using inv i by (simp add: conns_inv_def seqs) (simp add: conn_rows_def)
qed

lemma conns_inv_new:
  assumes inv: "conns_inv cs m" and new: "cIndex m (cSeq c) = None"
  shows "conns_inv (cs @ [c])
    (m\<lparr>cIndex := (cIndex m)(cSeq c \<mapsto> length (cRows m)), cRows := cRows m @ [connRow c], cTable := t\<rparr>)"
proof -
  have "cSeq c \<notin> set (first_seqs cs)"
    using inv new unfolding conns_inv_def in_set_conv_nth by (metis option.distinct(1))
  then have seqs: "first_seqs (cs @ [c]) = first_seqs cs @ [cSeq c]" and fresh: "cSeq c \<notin> cSeq ` set cs"
    by (auto simp: first_seqs_snoc set_first_seqs)
  have "s \<noteq> cSeq c" if "s \<in> set (first_seqs cs)" for s
    using that fresh set_first_seqs by metis
  then have "map (\<lambda>s. connRow (latest (cs @ [c]) s)) (first_seqs cs) = conn_rows cs"
    by (simp add: conn_rows_def latest_snoc)
  then have "conn_rows (cs @ [c]) = conn_rows cs @ [connRow c]"
    by (simp add: conn_rows_def seqs latest_snoc)
  moreover have "length (conn_rows cs) = length (first_seqs cs)" by (simp add: conn_rows_def)
  moreover have "first_seqs cs ! i \<noteq> cSeq c" if "i < length (first_seqs cs)" for i
    using nth_mem [OF that] fresh set_first_seqs by metis
  ultimately show ?thesis using inv by (auto simp: conns_inv_def seqs nth_append less_Suc_eq)
qed


section \<open>Invariant of the tables\<close>

text \<open>
  What the code relies on of the table widget: it shows the rows it was last given; moving its
  cursor, resizing it and handing it other messages do not change them.
\<close>

definition keeps_rows :: "('tb, 'm) tables \<Rightarrow> ('tb \<Rightarrow> row list) \<Rightarrow> bool" where
  "keeps_rows W shown \<longleftrightarrow>
     (\<forall>t rs. shown (SetRows W t rs) = rs) \<and> (\<forall>t. shown (GotoBottom W t) = shown t) \<and>
     (\<forall>t msg. shown (tableUpdate W t msg) = shown t) \<and>
     (\<forall>t n. shown (SetWidth W t n) = shown t \<and> shown (SetHeight W t n) = shown t)"

definition tui_inv ::
  "(rune \<Rightarrow> bool) \<Rightarrow> (int \<Rightarrow> int) \<Rightarrow> ('tb \<Rightarrow> row list) \<Rightarrow> 'm tui_msg list \<Rightarrow> 'tb tui_model \<Rightarrow> bool" where
  "tui_inv P tz shown msgs m \<longleftrightarrow>
     map Ret (eRows (eventsT m)) = last_rows (map (\<lambda>(ev, t, fs). eventRow P tz fs ev t) (event_msgs msgs)) \<and>
     hRows (httpT m) = last_rows (map httpRow (filter (\<lambda>ex. exProtocol ex = ProtocolHTTP) (http_msgs msgs))) \<and>
     conns_inv (conn_msgs msgs) (connsT m) \<and>
     shown (eTable (eventsT m)) = eRows (eventsT m) \<and> shown (cTable (connsT m)) = cRows (connsT m) \<and>
     shown (hTable (httpT m)) = hRows (httpT m)"

definition msg_ok :: "'m tui_msg \<Rightarrow> bool" where
  "msg_ok msg \<longleftrightarrow> (case msg of EventMsg ev t fs \<Rightarrow> data_ok ev | _ \<Rightarrow> True)"

lemma eventDetail_returns: "data_ok ev \<Longrightarrow> \<exists>s. eventDetail P ev = Ret s"
  by (simp add: eventDetail_def bytes_text_def)

lemma eventRow_returns: "data_ok ev \<Longrightarrow> \<exists>r. eventRow P tz fs ev t = Ret r"
  using eventDetail_returns [of ev P] by (auto simp: eventRow_def)

lemma tui_inv_init:
  assumes "shown t1 = []" and "shown t2 = []" and "shown t3 = []"
  shows "tui_inv P tz shown [] (tui_newModel t1 t2 t3)"
  using assms by (simp add: tui_inv_def tui_newModel_def last_rows_def conns_inv_def conn_rows_def first_seqs_def)

lemma tui_inv_set_size: "keeps_rows W shown \<Longrightarrow> tui_inv P tz shown msgs m \<Longrightarrow> tui_inv P tz shown msgs (set_size W m w h)"
  by (simp add: tui_inv_def set_size_def conns_inv_def resize_def keeps_rows_def)

lemmas tab_update_defs = update_tabs_def events_update_def conns_update_def http_update_def

lemma tui_inv_event:
  assumes W: "keeps_rows W shown" and inv: "tui_inv P tz shown msgs m" and r: "eventRow P tz fs ev t = Ret r"
    and msg: "msg = EventMsg ev t fs"
  shows "\<exists>m' cmd. update_tabs P tz W m msg = Ret (m', cmd) \<and> tui_inv P tz shown (msgs @ [msg]) m'"
  using inv r W append_row_last [of "map (\<lambda>(ev, t, fs). eventRow P tz fs ev t) (event_msgs msgs)" "Ret r"]
  by (auto simp: tui_inv_def tab_update_defs msg keeps_rows_def Let_def conns_inv_def map_append_row)

lemma tui_inv_conn:
  assumes W: "keeps_rows W shown" and inv: "tui_inv P tz shown msgs m" and msg: "msg = ConnMsg c"
  shows "\<exists>m' cmd. update_tabs P tz W m msg = Ret (m', cmd) \<and> tui_inv P tz shown (msgs @ [msg]) m'"
proof -
  have c: "conns_inv (conn_msgs msgs) (connsT m)" using inv by (simp add: tui_inv_def)
  have msgs: "conn_msgs (msgs @ [msg]) = conn_msgs msgs @ [c]" "event_msgs (msgs @ [msg]) = event_msgs msgs"
    "http_msgs (msgs @ [msg]) = http_msgs msgs" by (simp_all add: msg)
  show ?thesis
  proof (cases "cIndex (connsT m) (cSeq c)")
    case None
    from conns_inv_new [OF c this] show ?thesis
      using inv W None by (auto simp: tui_inv_def tab_update_defs msg keeps_rows_def Let_def)
  next
    case (Some i)
    from conns_inv_known [OF c this] show ?thesis
      using inv W Some by (auto simp: tui_inv_def tab_update_defs msg keeps_rows_def Let_def)
  qed
qed

lemma tui_inv_other:
  assumes W: "keeps_rows W shown" and inv: "tui_inv P tz shown msgs m"
    and "case msg of EventMsg ev t fs \<Rightarrow> False | ConnMsg c \<Rightarrow> False | _ \<Rightarrow> True"
  shows "\<exists>m' cmd. update_tabs P tz W m msg = Ret (m', cmd) \<and> tui_inv P tz shown (msgs @ [msg]) m'"
  using assms
  by (cases msg) (simp_all add: tui_inv_def tab_update_defs keeps_rows_def Let_def conns_inv_def append_row_last)

lemma tui_inv_tabs:
  assumes "keeps_rows W shown" and "tui_inv P tz shown msgs m" and "msg_ok msg"
  shows "\<exists>m' cmd. update_tabs P tz W m msg = Ret (m', cmd) \<and> tui_inv P tz shown (msgs @ [msg]) m'"
proof (cases msg)
  case (EventMsg ev t fs)
  with assms(3) have "data_ok ev" by (simp add: msg_ok_def)
  with eventRow_returns obtain r where "eventRow P tz fs ev t = Ret r" by metis
  from tui_inv_event [OF assms(1,2) this EventMsg] show ?thesis .
next
  case (ConnMsg c)
  from tui_inv_conn [OF assms(1,2) this] show ?thesis .
qed (use tui_inv_other [OF assms(1,2)] in auto)

lemma tui_inv_Update:
  assumes W: "keeps_rows W shown" and inv: "tui_inv P tz shown msgs m" and ok: "msg_ok msg"
  shows "\<exists>m' cmd. tui_Update P tz W m msg = Ret (m', cmd) \<and> tui_inv P tz shown (msgs @ [msg]) m'"
proof (cases msg)
  case (KeyPress key k)
  then have "tui_inv P tz shown (msgs @ [msg]) (m\<lparr>active := a\<rparr>)" for a
    using inv by (simp add: tui_inv_def)
  from this [of "active m"] this [of "next_tab (active m)"] show ?thesis
    using tui_inv_tabs [OF assms] KeyPress by (auto simp: tui_Update_def)
next
  case (WindowSize w h)
  with tui_inv_tabs [OF W tui_inv_set_size [OF W inv] ok] show ?thesis by (simp add: tui_Update_def)
qed (use tui_inv_tabs [OF assms] in \<open>simp_all add: tui_Update_def\<close>)

section \<open>The three channels\<close>

text \<open>
  The program with its channels: what each will still deliver before it is closed, and how many
  wait commands are outstanding on it (each runs in a goroutine of its own). A delivery hands the
  next value, or the end of the channel, to the program; \<open>issue\<close> starts the commands it returns.
  The user's messages come in between.
\<close>

record 'tb tui_sys =
  ui :: "'tb tui_model"
  waitE :: nat
  waitC :: nat
  waitH :: nat
  evIn :: "(event \<times> int \<times> filesystem) list"
  connIn :: "Connection list"
  exIn :: "Exchange list"

primrec waiting :: "tab_cmd \<Rightarrow> nat" where
  "waiting WaitNext = 1"
| "waiting NoTabCmd = 0"
| "waiting TableCmd = 0"

primrec issue :: "tui_cmd \<Rightarrow> 'tb tui_sys \<Rightarrow> 'tb tui_sys" where
  "issue TuiQuit s = s"
| "issue NoTui s = s"
| "issue (Batch c0 c1 c2) s =
     s\<lparr>waitE := waitE s + waiting c0, waitC := waitC s + waiting c1, waitH := waitH s + waiting c2\<rparr>"

text \<open>\<open>Init\<close> waits on every channel.\<close>

definition events_init :: tab_cmd where
  [simp]: "events_init = WaitNext"

definition conns_init :: tab_cmd where
  [simp]: "conns_init = WaitNext"

definition http_init :: tab_cmd where
  [simp]: "http_init = WaitNext"

definition tui_Init :: tui_cmd where
  "tui_Init = Batch events_init conns_init http_init"

definition sys_init :: "'tb tui_model \<Rightarrow> (event \<times> int \<times> filesystem) list \<Rightarrow> Connection list \<Rightarrow> Exchange list \<Rightarrow> 'tb tui_sys" where
  "sys_init m es cs hs =
     issue tui_Init \<lparr>ui = m, waitE = 0, waitC = 0, waitH = 0, evIn = es, connIn = cs, exIn = hs\<rparr>"

inductive tui_deliver ::
  "(rune \<Rightarrow> bool) \<Rightarrow> (int \<Rightarrow> int) \<Rightarrow> ('tb, 'm) tables \<Rightarrow> 'tb tui_sys \<Rightarrow> 'tb tui_sys \<Rightarrow> bool"
  for P tz W where
  event: "waitE s = Suc n \<Longrightarrow> evIn s = (ev, t, fs) # es \<Longrightarrow> tui_Update P tz W (ui s) (EventMsg ev t fs) = Ret (m, cmd) \<Longrightarrow>
    tui_deliver P tz W s (issue cmd (s\<lparr>ui := m, waitE := n, evIn := es\<rparr>))"
| events_end: "waitE s = Suc n \<Longrightarrow> evIn s = [] \<Longrightarrow> tui_Update P tz W (ui s) EventsClosed = Ret (m, cmd) \<Longrightarrow>
    tui_deliver P tz W s (issue cmd (s\<lparr>ui := m, waitE := n\<rparr>))"
| conn: "waitC s = Suc n \<Longrightarrow> connIn s = c # cs \<Longrightarrow> tui_Update P tz W (ui s) (ConnMsg c) = Ret (m, cmd) \<Longrightarrow>
    tui_deliver P tz W s (issue cmd (s\<lparr>ui := m, waitC := n, connIn := cs\<rparr>))"
| conns_end: "waitC s = Suc n \<Longrightarrow> connIn s = [] \<Longrightarrow> tui_Update P tz W (ui s) ConnsClosed = Ret (m, cmd) \<Longrightarrow>
    tui_deliver P tz W s (issue cmd (s\<lparr>ui := m, waitC := n\<rparr>))"
| exchange: "waitH s = Suc n \<Longrightarrow> exIn s = ex # hs \<Longrightarrow> tui_Update P tz W (ui s) (HttpMsg ex) = Ret (m, cmd) \<Longrightarrow>
    tui_deliver P tz W s (issue cmd (s\<lparr>ui := m, waitH := n, exIn := hs\<rparr>))"
| exchanges_end: "waitH s = Suc n \<Longrightarrow> exIn s = [] \<Longrightarrow> tui_Update P tz W (ui s) HttpClosed = Ret (m, cmd) \<Longrightarrow>
    tui_deliver P tz W s (issue cmd (s\<lparr>ui := m, waitH := n\<rparr>))"

primrec by_user :: "'m tui_msg \<Rightarrow> bool" where
  "by_user (EventMsg ev t fs) = False"
| "by_user EventsClosed = False"
| "by_user (ConnMsg c) = False"
| "by_user ConnsClosed = False"
| "by_user (HttpMsg ex) = False"
| "by_user HttpClosed = False"
| "by_user (KeyPress key k) = True"
| "by_user (WindowSize w h) = True"
| "by_user (OtherTui k) = True"

inductive tui_sys_step ::
  "(rune \<Rightarrow> bool) \<Rightarrow> (int \<Rightarrow> int) \<Rightarrow> ('tb, 'm) tables \<Rightarrow> 'tb tui_sys \<Rightarrow> 'tb tui_sys \<Rightarrow> bool"
  for P tz W where
  delivery: "tui_deliver P tz W s s' \<Longrightarrow> tui_sys_step P tz W s s'"
| user: "by_user msg \<Longrightarrow> tui_Update P tz W (ui s) msg = Ret (m, cmd) \<Longrightarrow> cmd \<noteq> TuiQuit \<Longrightarrow>
    tui_sys_step P tz W s (issue cmd (s\<lparr>ui := m\<rparr>))"


inductive_cases tui_sys_stepE: "tui_sys_step P tz W s s'"

definition sys_reach ::
  "(rune \<Rightarrow> bool) \<Rightarrow> (int \<Rightarrow> int) \<Rightarrow> ('tb, 'm) tables \<Rightarrow> 'tb tui_sys \<Rightarrow> 'tb tui_sys \<Rightarrow> bool" where
  "sys_reach P tz W = (tui_sys_step P tz W)\<^sup>*\<^sup>*"

text \<open>How many waits a message restarts, and what it leaves of a tab's closed flag.\<close>

definition restarts :: "'m tui_msg \<Rightarrow> nat \<times> nat \<times> nat" where
  "restarts msg = (case msg of EventMsg ev t fs \<Rightarrow> (1, 0, 0) | ConnMsg c \<Rightarrow> (0, 1, 0) | HttpMsg ex \<Rightarrow> (0, 0, 1) | _ \<Rightarrow> (0, 0, 0))"

definition closed_flags :: "'tb tui_model \<Rightarrow> bool \<times> bool \<times> bool" where
  "closed_flags m = (eClosed (eventsT m), cClosedTab (connsT m), hClosed (httpT m))"

definition closing :: "'m tui_msg \<Rightarrow> bool \<times> bool \<times> bool \<Rightarrow> bool \<times> bool \<times> bool" where
  "closing msg fl = (case (msg, fl) of
      (EventsClosed, (e, c, h)) \<Rightarrow> (True, c, h) | (ConnsClosed, (e, c, h)) \<Rightarrow> (e, True, h)
    | (HttpClosed, (e, c, h)) \<Rightarrow> (e, c, True) | _ \<Rightarrow> fl)"

definition cmd_waits :: "tui_cmd \<Rightarrow> nat \<times> nat \<times> nat" where
  "cmd_waits cmd = (case cmd of Batch c0 c1 c2 \<Rightarrow> (waiting c0, waiting c1, waiting c2) | _ \<Rightarrow> (0, 0, 0))"

lemma update_tabs_waits:
  assumes "update_tabs P tz W m msg = Ret (m', cmd)"
  shows "cmd_waits cmd = restarts msg \<and> closed_flags m' = closing msg (closed_flags m) \<and> active m' = active m"
  using assms
  by (cases msg) (auto simp: tab_update_defs restarts_def closing_def closed_flags_def cmd_waits_def Let_def
      split: exec.splits option.splits if_splits)

lemma set_size_keeps: "closed_flags (set_size W m w h) = closed_flags m" "active (set_size W m w h) = active m"
  by (simp_all add: closed_flags_def set_size_def)

lemma tui_Update_waits:
  assumes "tui_Update P tz W m msg = Ret (m', cmd)"
  shows "cmd_waits cmd = restarts msg \<and> closed_flags m' = closing msg (closed_flags m)"
proof (cases msg)
  case (KeyPress key k)
  have "closed_flags (m\<lparr>active := a\<rparr>) = closed_flags m" for a by (simp add: closed_flags_def)
  then show ?thesis
    using KeyPress assms update_tabs_waits [of P tz W m msg m' cmd]
    by (auto simp: tui_Update_def restarts_def closing_def cmd_waits_def split: if_splits)
next
  case (WindowSize w h)
  then show ?thesis
    using assms update_tabs_waits [of P tz W "set_size W m w h" msg m' cmd] set_size_keeps [of W m w h]
    by (simp add: tui_Update_def)
qed (use assms update_tabs_waits [of P tz W m msg m' cmd] in \<open>simp_all add: tui_Update_def\<close>)

lemma issue_simps:
  "ui (issue cmd s) = ui s" "evIn (issue cmd s) = evIn s" "connIn (issue cmd s) = connIn s"
  "exIn (issue cmd s) = exIn s"
  "waitE (issue cmd s) = waitE s + fst (cmd_waits cmd)"
  "waitC (issue cmd s) = waitC s + fst (snd (cmd_waits cmd))"
  "waitH (issue cmd s) = waitH s + snd (snd (cmd_waits cmd))"
  by (cases cmd; simp add: cmd_waits_def)+

text \<open>
  The invariant: the tables hold what was delivered, nothing is lost, and every channel that is not
  closed has exactly one wait outstanding, so that its values are handled in the order they come.
\<close>

definition sys_inv ::
  "(rune \<Rightarrow> bool) \<Rightarrow> (int \<Rightarrow> int) \<Rightarrow> ('tb \<Rightarrow> row list) \<Rightarrow> 'm itself \<Rightarrow> (event \<times> int \<times> filesystem) list \<Rightarrow> Connection list \<Rightarrow>
     Exchange list \<Rightarrow> 'tb tui_sys \<Rightarrow> bool" where
  "sys_inv P tz shown ty es cs hs s \<longleftrightarrow>
     (\<exists>msgs :: 'm tui_msg list. tui_inv P tz shown msgs (ui s) \<and>
        es = event_msgs msgs @ evIn s \<and> cs = conn_msgs msgs @ connIn s \<and> hs = http_msgs msgs @ exIn s) \<and>
     (case closed_flags (ui s) of (e, c, h) \<Rightarrow>
        waitE s = of_bool (\<not> e) \<and> waitC s = of_bool (\<not> c) \<and> waitH s = of_bool (\<not> h) \<and>
        (e \<longrightarrow> evIn s = []) \<and> (c \<longrightarrow> connIn s = []) \<and> (h \<longrightarrow> exIn s = []))"

lemma sys_inv_init:
  assumes "shown t1 = []" and "shown t2 = []" and "shown t3 = []"
  shows "sys_inv P tz shown ty es cs hs (sys_init (tui_newModel t1 t2 t3) es cs hs)"
  using tui_inv_init [of shown t1 t2 t3 P tz] assms
  by (auto simp: sys_inv_def sys_init_def tui_Init_def tui_newModel_def closed_flags_def intro!: exI [of _ "[]"])


lemma sys_inv_message:
  fixes ty :: "'m itself" and W :: "('tb, 'm) tables"
  assumes W: "keeps_rows W shown" and ok: "msg_ok msg" and U: "tui_Update P tz W (ui s) msg = Ret (m, cmd)"
    and inv: "tui_inv P tz shown msgs (ui s)"
    and streams: "es = event_msgs (msgs @ [msg]) @ evIn s'" "cs = conn_msgs (msgs @ [msg]) @ connIn s'"
      "hs = http_msgs (msgs @ [msg]) @ exIn s'"
    and ui: "ui s' = m"
    and waits: "case closing msg (closed_flags (ui s)) of (e, c, h) \<Rightarrow>
        waitE s' + fst (restarts msg) = of_bool (\<not> e) \<and> waitC s' + fst (snd (restarts msg)) = of_bool (\<not> c) \<and>
        waitH s' + snd (snd (restarts msg)) = of_bool (\<not> h) \<and>
        (e \<longrightarrow> evIn s' = []) \<and> (c \<longrightarrow> connIn s' = []) \<and> (h \<longrightarrow> exIn s' = [])"
  shows "sys_inv P tz shown ty es cs hs (issue cmd s')"
proof -
  have "tui_inv P tz shown (msgs @ [msg]) m"
    using tui_inv_Update [OF W inv ok] U by auto
  with tui_Update_waits [OF U] waits streams ui show ?thesis
    unfolding sys_inv_def by (intro conjI exI [of _ "msgs @ [msg]"]) (simp_all add: issue_simps)
qed

lemma sys_inv_step:
  assumes step: "tui_sys_step P tz (W :: ('tb, 'm) tables) s s'" and W: "keeps_rows W shown"
    and ok: "list_all (\<lambda>(ev, t, fs). data_ok ev) es" and inv: "sys_inv P tz shown TYPE('m) es cs hs s"
  shows "sys_inv P tz shown TYPE('m) es cs hs s'"
proof -
  obtain msgs :: "'m tui_msg list" and e c h where msgs: "tui_inv P tz shown msgs (ui s)" "es = event_msgs msgs @ evIn s"
      "cs = conn_msgs msgs @ connIn s" "hs = http_msgs msgs @ exIn s"
    and fl: "closed_flags (ui s) = (e, c, h)" "waitE s = of_bool (\<not> e)" "waitC s = of_bool (\<not> c)"
      "waitH s = of_bool (\<not> h)" "e \<longrightarrow> evIn s = []" "c \<longrightarrow> connIn s = []" "h \<longrightarrow> exIn s = []"
    using inv unfolding sys_inv_def by (auto split: prod.splits)
  note go = sys_inv_message [OF W _ _ msgs(1)]
  note simps = msgs(2-4) fl closing_def restarts_def msg_ok_def
  from step show ?thesis
  proof (cases rule: tui_sys_step.cases)
    case delivery
    then show ?thesis
    proof (cases rule: tui_deliver.cases)
      case (event n ev t fs es' m cmd)
      with ok have ok': "msg_ok (EventMsg ev t fs)" by (simp add: msg_ok_def msgs(2))
      show ?thesis unfolding event(1)
        by (rule go [OF ok' event(4)]) (use event in \<open>auto simp: simps of_bool_def split: if_splits\<close>)
    next
      case (events_end n m cmd)
      show ?thesis unfolding events_end(1)
        by (rule go [OF _ events_end(4)]) (use events_end in \<open>auto simp: simps of_bool_def split: if_splits\<close>)
    next
      case (conn n c' cs' m cmd)
      show ?thesis unfolding conn(1)
        by (rule go [OF _ conn(4)]) (use conn in \<open>auto simp: simps of_bool_def split: if_splits\<close>)
    next
      case (conns_end n m cmd)
      show ?thesis unfolding conns_end(1)
        by (rule go [OF _ conns_end(4)]) (use conns_end in \<open>auto simp: simps of_bool_def split: if_splits\<close>)
    next
      case (exchange n ex hs' m cmd)
      show ?thesis unfolding exchange(1)
        by (rule go [OF _ exchange(4)]) (use exchange in \<open>auto simp: simps of_bool_def split: if_splits\<close>)
    next
      case (exchanges_end n m cmd)
      show ?thesis unfolding exchanges_end(1)
        by (rule go [OF _ exchanges_end(4)]) (use exchanges_end in \<open>auto simp: simps of_bool_def split: if_splits\<close>)
    qed
  next
    case (user msg m cmd)
    then have ok': "msg_ok msg" by (cases msg) (simp_all add: msg_ok_def)
    show ?thesis unfolding user(1)
      by (rule go [OF ok' user(3)]) (use user in \<open>cases msg; simp add: simps\<close>)+
  qed
qed

lemma sys_reach_inv:
  assumes "sys_reach P tz (W :: ('tb, 'm) tables) s s'" and "keeps_rows W shown"
    and "list_all (\<lambda>(ev, t, fs). data_ok ev) es" and "sys_inv P tz shown TYPE('m) es cs hs s"
  shows "sys_inv P tz shown TYPE('m) es cs hs s'"
  using assms(1) unfolding sys_reach_def
  by (induction rule: rtranclp_induct) (use assms(2-4) sys_inv_step in blast)+

text \<open>A delivery is possible as long as a channel has not been closed, and there are finitely many.\<close>

lemma tui_deliver_possible:
  assumes W: "keeps_rows (W :: ('tb, 'm) tables) shown" and ok: "list_all (\<lambda>(ev, t, fs). data_ok ev) es"
    and inv: "sys_inv P tz shown TYPE('m) es cs hs s" and "closed_flags (ui s) \<noteq> (True, True, True)"
  shows "\<exists>s'. tui_deliver P tz W s s'"
proof -
  obtain msgs :: "'m tui_msg list" and e c h where msgs: "tui_inv P tz shown msgs (ui s)" "es = event_msgs msgs @ evIn s"
    and fl: "closed_flags (ui s) = (e, c, h)" "waitE s = of_bool (\<not> e)" "waitC s = of_bool (\<not> c)"
      "waitH s = of_bool (\<not> h)"
    using inv unfolding sys_inv_def by (auto split: prod.splits)
  have U: "\<exists>m cmd. tui_Update P tz W (ui s) msg = Ret (m, cmd)" if "msg_ok msg" for msg
    using tui_inv_Update [OF W msgs(1) that] by blast
  consider "\<not> e" | "\<not> c" | "\<not> h" using assms(4) fl by auto
  then show ?thesis
  proof cases
    case 1
    show ?thesis
    proof (cases "evIn s")
      case Nil
      with 1 U [of EventsClosed] fl show ?thesis by (auto simp: msg_ok_def dest: tui_deliver.events_end)
    next
      case (Cons x xs)
      with ok msgs(2) U [of "EventMsg (fst x) (fst (snd x)) (snd (snd x))"] 1 fl show ?thesis
        by (cases x) (auto simp: msg_ok_def dest: tui_deliver.event)
    qed
  next
    case 2
    then show ?thesis using U [of ConnsClosed] U [of "ConnMsg (hd (connIn s))"] fl
      by (cases "connIn s") (auto simp: msg_ok_def dest: tui_deliver.conns_end tui_deliver.conn)
  next
    case 3
    then show ?thesis using U [of HttpClosed] U [of "HttpMsg (hd (exIn s))"] fl
      by (cases "exIn s") (auto simp: msg_ok_def dest: tui_deliver.exchanges_end tui_deliver.exchange)
  qed
qed

definition to_deliver :: "'tb tui_sys \<Rightarrow> nat" where
  "to_deliver s = length (evIn s) + length (connIn s) + length (exIn s) + waitE s + waitC s + waitH s"

lemma tui_deliver_decreases: "tui_deliver P tz W s s' \<Longrightarrow> to_deliver s' < to_deliver s"
  by (cases rule: tui_deliver.cases)
    (auto simp: to_deliver_def issue_simps restarts_def dest!: tui_Update_waits)


lemma sys_ends: "\<exists>s'. sys_reach P tz W s s' \<and> (\<forall>s''. \<not> tui_deliver P tz W s' s'')"
proof (induction "to_deliver s" arbitrary: s rule: less_induct)
  case less
  show ?case
  proof (cases "\<exists>s1. tui_deliver P tz W s s1")
    case True
    then obtain s1 where s1: "tui_deliver P tz W s s1" by blast
    with less tui_deliver_decreases obtain s' where "sys_reach P tz W s1 s'" and "\<forall>s''. \<not> tui_deliver P tz W s' s''"
      by metis
    with s1 show ?thesis unfolding sys_reach_def by (metis converse_rtranclp_into_rtranclp tui_sys_step.delivery)
  next
    case False
    then show ?thesis unfolding sys_reach_def by blast
  qed
qed

section \<open>The correlator's snapshots in the connections table\<close>

definition seqs_upto :: "nat \<Rightarrow> uint64 list" where
  "seqs_upto n = map (\<lambda>i. of_nat (Suc i)) [0..<n]"

definition snapshots_inv :: "event list \<Rightarrow> correlator_state \<Rightarrow> Connection list \<Rightarrow> bool" where
  "snapshots_inv evs s cs \<longleftrightarrow> first_seqs cs = seqs_upto (length (connects evs)) \<and>
     (\<forall>k c. tracked s k = Some c \<longrightarrow> cSeq c \<in> cSeq ` set cs)"

lemma snapshots_inv_step:
  assumes inv: "snapshots_inv evs s cs" and sinv: "seq_inv timeOf fsAt evs s cs"
    and few: "length (connects (evs @ [ev])) < 2 ^ 64"
    and step: "correlator_step timeOf fsAt s ev = (s', cs')"
  shows "snapshots_inv (evs @ [ev]) s' (cs @ cs')"
proof (cases "Operation ev = OpConnect")
  case True
  define c where "c = opened timeOf fsAt (nextSeq s + 1) ev"
  have s': "s' = s\<lparr>nextSeq := nextSeq s + 1, tracked := (tracked s)(conn_key ev \<mapsto> c)\<rparr>" and cs': "cs' = [c]"
    using step True by (auto simp: correlator_step_def Let_def c_def)
  have "length (connects evs) + 1 < 2 ^ 64" using few True by (simp add: connects_def)
  from seq_inv_connect [OF sinv True this c_def] have "cSeq c \<notin> cSeq ` set cs" by auto
  moreover have "cSeq c = of_nat (Suc (length (connects evs)))"
    using sinv by (simp add: c_def opened_def seq_inv_def)
  ultimately show ?thesis
    using inv True by (auto simp: snapshots_inv_def s' cs' first_seqs_snoc seqs_upto_def connects_def)
next
  case False
  then have same: "connects (evs @ [ev]) = connects evs" by (simp add: connects_def)
  show ?thesis
  proof (cases "tracked s (conn_key ev)")
    case None
    then show ?thesis using False step inv same by (auto simp: snapshots_inv_def correlator_step_def Let_def split: if_splits)
  next
    case (Some c)
    have "\<not> cClosed c" using seq_inv_tracked [OF sinv Some] by simp
    from Some this False step show ?thesis
    proof (cases rule: correlator_step_tracked)
      case skip
      then show ?thesis using inv same by (simp add: snapshots_inv_def)
    next
      case (update c' m)
      from update(1) have "cSeq c' = cSeq c" using identity_simps(1) by metis
      moreover have "cSeq c \<in> cSeq ` set cs" using inv Some unfolding snapshots_inv_def by blast
      ultimately show ?thesis
        using inv update same by (auto simp: snapshots_inv_def first_seqs_snoc split: if_splits)
    qed
  qed
qed

lemma snapshots_inv_run:
  assumes "run_stage (correlator_loop timeOf fsAt) correlator_init evs = Ret (s, cs)"
    and "length (connects evs) < 2 ^ 64"
  shows "snapshots_inv evs s cs"
  using assms
proof (induction evs arbitrary: s cs rule: rev_induct)
  case Nil
  then show ?case
    by (auto simp: snapshots_inv_def first_seqs_def seqs_upto_def connects_def correlator_init_def)
next
  case (snoc ev evs)
  then obtain s1 cs1 cs2 where 1: "run_stage (correlator_loop timeOf fsAt) correlator_init evs = Ret (s1, cs1)"
    and 2: "correlator_step timeOf fsAt s1 ev = (s, cs2)" and cs: "cs = cs1 @ cs2"
    unfolding run_stage_snoc_Ret correlator_loop_Ret by blast
  from snoc.prems(2) have few: "length (connects evs) < 2 ^ 64" by (simp add: connects_def split: if_splits)
  show ?case unfolding cs
    by (rule snapshots_inv_step [OF snoc.IH [OF 1 few] conjunct1 [OF seq_inv_run [OF 1 few]] snoc.prems(2) 2])
qed

lemma latest_in: "s \<in> cSeq ` set cs \<Longrightarrow> latest cs s \<in> set cs \<and> cSeq (latest cs s) = s"
proof -
  assume "s \<in> cSeq ` set cs"
  then have "filter (\<lambda>c. cSeq c = s) cs \<noteq> []" by (auto simp: filter_empty_conv)
  from last_in_set [OF this] show ?thesis by (simp add: latest_def)
qed


section \<open>Properties\<close>

lemma view_drained:
  fixes W :: "('tb, 'm) tables"
  assumes "keeps_rows W shown" and "shown t1 = []" and "shown t2 = []" and "shown t3 = []"
    and "list_all (\<lambda>(ev, t, fs). data_ok ev) es"
    and "sys_reach P tz W (sys_init (tui_newModel t1 t2 t3) es cs hs) s" and "\<And>s'. \<not> tui_deliver P tz W s s'"
  shows "eClosed (eventsT (ui s)) \<and> cClosedTab (connsT (ui s)) \<and> hClosed (httpT (ui s)) \<and>
    map Ret (shown (eTable (eventsT (ui s)))) = last_rows (map (\<lambda>(ev, t, fs). eventRow P tz fs ev t) es) \<and>
    shown (cTable (connsT (ui s))) = conn_rows cs \<and>
    shown (hTable (httpT (ui s))) = last_rows (map httpRow (filter (\<lambda>ex. exProtocol ex = ProtocolHTTP) hs))"
proof -
  have inv: "sys_inv P tz shown TYPE('m) es cs hs s"
    by (rule sys_reach_inv [OF assms(6,1,5) sys_inv_init]) (rule assms(2-4))+
  have "closed_flags (ui s) = (True, True, True)"
    using tui_deliver_possible [OF assms(1,5) inv] assms(7) by metis
  with inv show ?thesis by (auto simp: sys_inv_def tui_inv_def conns_inv_def closed_flags_def)
qed

text \<open>
  C16: The live view consumes all three channels to their end, whichever tab is shown, whatever keys
  are pressed short of quitting, and however the deliveries interleave: every execution in which no
  delivery is left has handled every value and the end of each channel, and the tables show the
  last 500 events in order, the last 500 HTTP exchanges in order (and no Redis ones), and one row
  per connection, in the order of their first snapshots, with the latest snapshot.
\<close>

theorem tui_drains:
  fixes W :: "('tb, 'm) tables"
  assumes "keeps_rows W shown" and "shown t1 = []" and "shown t2 = []" and "shown t3 = []"
    and "list_all (\<lambda>(ev, t, fs). data_ok ev) es"
    and "sys_reach P tz W (sys_init (tui_newModel t1 t2 t3) es cs hs) s" and "\<And>s'. \<not> tui_deliver P tz W s s'"
  shows "eClosed (eventsT (ui s)) \<and> cClosedTab (connsT (ui s)) \<and> hClosed (httpT (ui s)) \<and>
    map Ret (shown (eTable (eventsT (ui s)))) = last_rows (map (\<lambda>(ev, t, fs). eventRow P tz fs ev t) es) \<and>
    shown (cTable (connsT (ui s))) = conn_rows cs \<and>
    shown (hTable (httpT (ui s))) = last_rows (map httpRow (filter (\<lambda>ex. exProtocol ex = ProtocolHTTP) hs))"
  by (rule view_drained [OF assms])

text \<open>
  At every moment each channel that is still open has exactly one receive outstanding (a second
  one would let two values overtake each other), a closed one has none, and the tables show what was
  delivered so far; the events and HTTP tables never hold more than 500 rows.
\<close>

theorem tui_one_wait:
  fixes W :: "('tb, 'm) tables"
  assumes "keeps_rows W shown" and "shown t1 = []" and "shown t2 = []" and "shown t3 = []"
    and "list_all (\<lambda>(ev, t, fs). data_ok ev) es"
    and "sys_reach P tz W (sys_init (tui_newModel t1 t2 t3) es cs hs) s"
  shows "waitE s = of_bool (\<not> eClosed (eventsT (ui s))) \<and> waitC s = of_bool (\<not> cClosedTab (connsT (ui s))) \<and>
    waitH s = of_bool (\<not> hClosed (httpT (ui s))) \<and>
    (\<exists>es' cs' hs'. es = es' @ evIn s \<and> cs = cs' @ connIn s \<and> hs = hs' @ exIn s \<and>
       map Ret (shown (eTable (eventsT (ui s)))) = last_rows (map (\<lambda>(ev, t, fs). eventRow P tz fs ev t) es') \<and>
       shown (cTable (connsT (ui s))) = conn_rows cs' \<and>
       shown (hTable (httpT (ui s))) = last_rows (map httpRow (filter (\<lambda>ex. exProtocol ex = ProtocolHTTP) hs'))) \<and>
    length (shown (eTable (eventsT (ui s)))) \<le> 500 \<and> length (shown (hTable (httpT (ui s)))) \<le> 500"
proof -
  have "sys_inv P tz shown TYPE('m) es cs hs s"
    by (rule sys_reach_inv [OF assms(6,1,5) sys_inv_init]) (rule assms(2-4))+
  then obtain msgs :: "'m tui_msg list" where inv: "tui_inv P tz shown msgs (ui s)"
    and streams: "es = event_msgs msgs @ evIn s" "cs = conn_msgs msgs @ connIn s" "hs = http_msgs msgs @ exIn s"
    and waits: "waitE s = of_bool (\<not> eClosed (eventsT (ui s)))" "waitC s = of_bool (\<not> cClosedTab (connsT (ui s)))"
      "waitH s = of_bool (\<not> hClosed (httpT (ui s)))"
    unfolding sys_inv_def closed_flags_def by auto
  have "length (map (Ret :: row \<Rightarrow> row exec) (shown (eTable (eventsT (ui s))))) \<le> 500"
    using inv length_last_rows by (simp add: tui_inv_def maxRows_def del: length_map)
  moreover have "length (shown (hTable (httpT (ui s)))) \<le> 500"
    using inv length_last_rows by (simp add: tui_inv_def maxRows_def)
  ultimately show ?thesis using inv streams waits by (auto simp: tui_inv_def conns_inv_def)
qed

lemma connection_rows:
  fixes W :: "('tb, 'm) tables"
  assumes "keeps_rows W shown" and "shown t1 = []" and "shown t2 = []" and "shown t3 = []"
    and "list_all (\<lambda>(ev, t, fs). data_ok ev) es"
    and "correlator_Run timeOf fsAt evs = Ret (evs, cs)" and "length (connects evs) < 2 ^ 64"
    and "sys_reach P tz W (sys_init (tui_newModel t1 t2 t3) es cs hs) s" and "\<And>s'. \<not> tui_deliver P tz W s s'"
  shows "\<exists>ds. shown (cTable (connsT (ui s))) = map connRow ds \<and> length ds = length (connects evs) \<and>
    map (\<lambda>d. (cPID d, cComm d, cFD d, cRemoteAddr d, cRemotePort d)) ds =
      map (\<lambda>ev. (PID ev, Comm (fsAt ev) (PID ev), FD ev, RemoteAddr ev, RemotePort ev)) (connects evs)"
proof -
  have inv: "sys_inv P tz shown TYPE('m) es cs hs s"
    by (rule sys_reach_inv [OF assms(8,1,5) sys_inv_init]) (rule assms(2-4))+
  have "closed_flags (ui s) = (True, True, True)"
    using tui_deliver_possible [OF assms(1,5) inv] assms(9) by metis
  with inv have rows: "shown (cTable (connsT (ui s))) = map connRow (map (latest cs) (first_seqs cs))"
    by (auto simp: sys_inv_def tui_inv_def conns_inv_def conn_rows_def)
  obtain st where run: "run_stage (correlator_loop timeOf fsAt) correlator_init evs = Ret (st, cs)"
    using assms(6) by (auto simp: correlator_Run_def)
  have seqs: "first_seqs cs = seqs_upto (length (connects evs))"
    using snapshots_inv_run [OF run assms(7)] by (simp add: snapshots_inv_def)
  have row: "(cPID d, cComm d, cFD d, cRemoteAddr d, cRemotePort d) =
      (PID ev, Comm (fsAt ev) (PID ev), FD ev, RemoteAddr ev, RemotePort ev)"
    if i: "i < length (connects evs)" and d: "d = latest cs (first_seqs cs ! i)" and ev: "ev = connects evs ! i" for i d ev
  proof -
    have "first_seqs cs ! i \<in> set (first_seqs cs)" using i by (intro nth_mem) (simp add: seqs seqs_upto_def)
    then have "first_seqs cs ! i \<in> cSeq ` set cs" by (simp only: set_first_seqs)
    from latest_in [OF this] have "d \<in> set cs" and s: "cSeq d = of_nat (Suc i)"
      using i by (simp_all add: d seqs seqs_upto_def)
    then obtain j where j: "j < length (connects evs)" "cSeq d = of_nat (Suc j)"
        "identity d = opened timeOf fsAt (cSeq d) (connects evs ! j)"
      using seq_inv_run [OF run assms(7)] unfolding seq_inv_def numbered_def by blast
    have "unat (of_nat (Suc i) :: uint64) = unat (of_nat (Suc j) :: uint64)" using s j(2) by simp
    then have "i = j" using i j(1) assms(7) by (simp only: unat_of_nat) simp
    with j(3) show ?thesis by (simp add: identity_def opened_def ev) (cases d, simp)
  qed
  have len: "length (first_seqs cs) = length (connects evs)" by (simp add: seqs seqs_upto_def)
  let ?shown = "\<lambda>d. (cPID d, cComm d, cFD d, cRemoteAddr d, cRemotePort d)"
  have "map ?shown (map (latest cs) (first_seqs cs)) =
      map (\<lambda>ev. (PID ev, Comm (fsAt ev) (PID ev), FD ev, RemoteAddr ev, RemotePort ev)) (connects evs)"
    by (rule nth_equalityI) (use row [OF _ refl refl] in \<open>simp_all add: len del: prod.inject\<close>)
  moreover have "length (map (latest cs) (first_seqs cs)) = length (connects evs)" by (simp add: len)
  ultimately show ?thesis using rows by blast
qed

text \<open>
  C29: With the snapshots of the correlator, the connections table of a finished trace has exactly one
  row per connect event, in the order of the connects, each with the process, command, descriptor and
  remote endpoint of its connect event.
\<close>

theorem connections_table_rows:
  fixes W :: "('tb, 'm) tables"
  assumes "keeps_rows W shown" and "shown t1 = []" and "shown t2 = []" and "shown t3 = []"
    and "list_all (\<lambda>(ev, t, fs). data_ok ev) es"
    and "correlator_Run timeOf fsAt evs = Ret (evs, cs)" and "length (connects evs) < 2 ^ 64"
    and "sys_reach P tz W (sys_init (tui_newModel t1 t2 t3) es cs hs) s" and "\<And>s'. \<not> tui_deliver P tz W s s'"
  shows "\<exists>ds. shown (cTable (connsT (ui s))) = map connRow ds \<and> length ds = length (connects evs) \<and>
    map (\<lambda>d. (cPID d, cComm d, cFD d, cRemoteAddr d, cRemotePort d)) ds =
      map (\<lambda>ev. (PID ev, Comm (fsAt ev) (PID ev), FD ev, RemoteAddr ev, RemotePort ev)) (connects evs)"
  by (rule connection_rows [OF assms])

text \<open>A table widget that is nothing but its rows.\<close>

definition row_tables :: "(row list, unit) tables" where
  "row_tables = \<lparr>SetRows = \<lambda>t rs. rs, GotoBottom = \<lambda>t. t, tableUpdate = \<lambda>t msg. t, SetWidth = \<lambda>t w. t, SetHeight = \<lambda>t h. t\<rparr>"

lemma keeps_rows_row_tables: "keeps_rows row_tables (\<lambda>t. t)"
  by (simp add: keeps_rows_def row_tables_def)

abbreviation sample_sys where
  "sample_sys es cs hs \<equiv> sys_init (tui_newModel ([] :: row list) [] []) es cs hs"

theorem tui_drains_witness:
  "\<exists>s. sys_reach (\<lambda>_. True) (\<lambda>_. 0) row_tables (sample_sys [(sample_close, 0, \<lambda>_. None)] [] [sample_exchange]) s \<and>
     eClosed (eventsT (ui s)) \<and> length (eTable (eventsT (ui s))) = 1 \<and> hTable (httpT (ui s)) = []"
proof -
  let ?es = "[(sample_close, 0 :: int, \<lambda>_ :: bytes. None :: osfile option)]"
  obtain s where s: "sys_reach (\<lambda>_. True) (\<lambda>_. 0) row_tables (sample_sys ?es [] [sample_exchange]) s"
    and stuck: "\<And>s'. \<not> tui_deliver (\<lambda>_. True) (\<lambda>_. 0) row_tables s s'"
    using sys_ends by blast
  have "list_all (\<lambda>(ev, t, fs). data_ok ev) ?es" by (simp add: data_ok_def sample_data_def sample_event_def)
  from tui_drains [OF keeps_rows_row_tables refl refl refl this s stuck]
  have "eClosed (eventsT (ui s))" "hTable (httpT (ui s)) = []"
    "length (map (Ret :: row \<Rightarrow> row exec) (eTable (eventsT (ui s)))) = 1"
    by (simp_all add: last_rows_def maxRows_def sample_exchange_def del: length_map)
  with s show ?thesis by auto
qed

theorem tui_one_wait_witness:
  "\<exists>s. sys_reach (\<lambda>_. True) (\<lambda>_. 0) row_tables (sample_sys [] [] [sample_exchange]) s \<and>
     waitH s = of_bool (\<not> hClosed (httpT (ui s)))"
proof -
  obtain s where s: "sys_reach (\<lambda>_. True) (\<lambda>_. 0) row_tables (sample_sys [] [] [sample_exchange]) s"
    using sys_ends by blast
  have "list_all (\<lambda>(ev, t, fs). data_ok ev) ([] :: (event \<times> int \<times> filesystem) list)" by simp
  from tui_one_wait [OF keeps_rows_row_tables refl refl refl this s] s show ?thesis by blast
qed

theorem connections_table_rows_witness:
  "\<exists>s cs c. correlator_Run (\<lambda>_. 0) (\<lambda>_ _. None) [sample_op OpConnect 0, sample_op OpWrite 7] =
       Ret ([sample_op OpConnect 0, sample_op OpWrite 7], cs) \<and>
     sys_reach (\<lambda>_. True) (\<lambda>_. 0) row_tables (sample_sys [] cs []) s \<and>
     cTable (connsT (ui s)) = [connRow c] \<and> cFD c = 5"
proof -
  let ?evs = "[sample_op OpConnect 0, sample_op OpWrite 7]"
  obtain st cs where "run_stage (correlator_loop (\<lambda>_. 0) (\<lambda>_ _. None)) correlator_init ?evs = Ret (st, cs)"
    using correlator_run_returns by metis
  then have run: "correlator_Run (\<lambda>_. 0) (\<lambda>_ _. None) ?evs = Ret (?evs, cs)"
    by (simp add: correlator_Run_def del: run_stage.simps)
  obtain s where s: "sys_reach (\<lambda>_. True) (\<lambda>_. 0) row_tables (sample_sys [] cs []) s"
    and stuck: "\<And>s'. \<not> tui_deliver (\<lambda>_. True) (\<lambda>_. 0) row_tables s s'"
    using sys_ends by blast
  have "list_all (\<lambda>(ev, t, fs). data_ok ev) ([] :: (event \<times> int \<times> filesystem) list)" by simp
  moreover have "connects ?evs = [sample_op OpConnect 0]" by (simp add: connects_def sample_op_def)
  ultimately obtain ds where "cTable (connsT (ui s)) = map connRow ds" and "length ds = 1" and
      "map (\<lambda>d. (cPID d, cComm d, cFD d, cRemoteAddr d, cRemotePort d)) ds =
       map (\<lambda>ev. (PID ev, Comm (\<lambda>_. None) (PID ev), FD ev, RemoteAddr ev, RemotePort ev)) [sample_op OpConnect 0]"
    using connections_table_rows [OF keeps_rows_row_tables refl refl refl _ run _ s stuck] by fastforce
  moreover from this obtain c where "ds = [c]" by (cases ds) auto
  ultimately have "cTable (connsT (ui s)) = [connRow c]" and "cFD c = FD (sample_op OpConnect 0)" by simp_all
  with run s show ?thesis by (auto simp: sample_op_def)
qed

end
