(* ===== verification/TuiView.thy ===== *)
theory TuiView
  imports Tui
begin

text \<open>
  \<open>internal/tui\<close>: what is drawn. The coloring of one column of a rendered table, the colors, the
  bars around the table and the view put together from them. The styling of lipgloss is a
  parameter: \<open>Render\<close> of a style on a text, and the display width of a text; so are the text and
  the columns of the table widget.
\<close>

section \<open>Lines and runes\<close>

text \<open>\<open>strings.Split(s, "\n")\<close>, and \<open>string(rs)\<close> of a slice of runes.\<close>

fun split_lines :: "bytes \<Rightarrow> bytes list" where
  "split_lines [] = [[]]"
| "split_lines (c # s) =
     (if c = LF then [] # split_lines s
      else (case split_lines s of [] \<Rightarrow> [[c]] | l # ls \<Rightarrow> (c # l) # ls))"

definition string_of_runes :: "rune list \<Rightarrow> bytes" where
  "string_of_runes rs = concat (map encode_rune rs)"

text \<open>The slice \<open>rs[a:b]\<close>.\<close>

definition rune_slice :: "rune list \<Rightarrow> int \<Rightarrow> int \<Rightarrow> rune list exec" where
  "rune_slice rs a b =
     (if 0 \<le> a \<and> a \<le> b \<and> b \<le> int (length rs) then Ret (take (nat (b - a)) (drop (nat a) rs)) else Panic SliceBounds)"

section \<open>Styles\<close>

record lip_style =
  Foreground :: "bytes option"
  Background :: "bytes option"
  Bold :: bool
  Padding :: "int \<times> int"
  FixedWidth :: "int option"
  RoundedBorder :: bool
  BorderForeground :: "bytes option"

definition NewStyle :: lip_style where
  "NewStyle = \<lparr>Foreground = None, Background = None, Bold = False, Padding = (0, 0), FixedWidth = None,
     RoundedBorder = False, BorderForeground = None\<rparr>"

type_synonym render = "lip_style \<Rightarrow> bytes \<Rightarrow> bytes"

definition colorAccent :: bytes where "colorAccent = ''141''"
definition colorBarBg :: bytes where "colorBarBg = ''236''"
definition colorLive :: bytes where "colorLive = ''84''"
definition colorEnded :: bytes where "colorEnded = ''203''"
definition colorCyan :: bytes where "colorCyan = ''51''"
definition colorGreen :: bytes where "colorGreen = ''84''"
definition colorYellow :: bytes where "colorYellow = ''228''"
definition colorRed :: bytes where "colorRed = ''203''"
definition colorMagenta :: bytes where "colorMagenta = ''213''"
definition colorDim :: bytes where "colorDim = ''244''"
definition colorBlue :: bytes where "colorBlue = ''111''"

definition opColor :: "bytes \<Rightarrow> bytes" where
  "opColor opn =
     (if HasPrefix opn ''CONNECT'' then colorCyan else if HasPrefix opn ''READ'' then colorGreen
      else if HasPrefix opn ''WRITE'' then colorYellow else if HasPrefix opn ''CLOSE'' then colorDim
      else if HasPrefix opn ''SSL_'' then colorMagenta else colorDim)"

definition methodColor :: "bytes \<Rightarrow> bytes" where
  "methodColor meth =
     (if meth = ''GET'' then colorBlue
      else if meth = ''POST'' \<or> meth = ''PUT'' \<or> meth = ''PATCH'' then colorGreen
      else if meth = ''DELETE'' then colorRed else colorDim)"

definition statusColor :: "bytes \<Rightarrow> bytes" where
  "statusColor status =
     (if status = '''' \<or> status = ''-'' then colorDim
      else if hd status = CHR ''2'' then colorGreen else if hd status = CHR ''3'' then colorBlue
      else if hd status = CHR ''4'' then colorYellow else if hd status = CHR ''5'' then colorRed else colorDim)"

definition stateColor :: "bytes \<Rightarrow> bytes" where
  "stateColor state = (if state = ''open'' then colorGreen else colorDim)"

definition truncColor :: "bytes \<Rightarrow> bytes" where
  "truncColor v = (if v = ''yes'' then colorYellow else colorDim)"

section \<open>Coloring a column\<close>

record column =
  Title :: bytes
  Width :: int

text \<open>\<open>columnStart\<close>: the loop over the columns, \<open>i\<close> columns and \<open>pos\<close> runes in.\<close>

fun column_start_from :: "int \<Rightarrow> int \<Rightarrow> column list \<Rightarrow> int \<Rightarrow> int \<times> int" where
  "column_start_from i pos [] idx = (-1, 0)"
| "column_start_from i pos (c # cols) idx =
     (if i = idx then (pos + 1, Width c) else column_start_from (i + 1) (pos + (Width c + 2)) cols idx)"

definition columnStart :: "column list \<Rightarrow> int \<Rightarrow> int \<times> int" where
  "columnStart cols idx = column_start_from 0 0 cols idx"

definition colorizeAt :: "render \<Rightarrow> bytes \<Rightarrow> int \<Rightarrow> int \<Rightarrow> bytes \<Rightarrow> bytes" where
  "colorizeAt R line offset width color =
     (let rs = runes line in
      if offset < 0 \<or> width \<le> 0 \<or> offset + width > int (length rs) then line
      else let cell = string_of_runes (take (nat width) (drop (nat offset) rs));
               trimmed = TrimRight cell '' '' in
        if trimmed = [] then line
        else let pad = drop (length trimmed) cell;
                 styled = R (NewStyle\<lparr>Foreground := Some color\<rparr>) trimmed
             in string_of_runes (take (nat offset) rs) @ styled @ pad @ string_of_runes (drop (nat (offset + width)) rs))"

text \<open>The body of the loop of \<open>colorizeColumn\<close>, and the loop over the lines.\<close>

definition colorize_line :: "render \<Rightarrow> int \<Rightarrow> int \<Rightarrow> (bytes \<Rightarrow> bytes) \<Rightarrow> bytes \<Rightarrow> bytes exec" where
  "colorize_line R offset width colorFn line =
     (let rs = runes line in
      if offset + width > int (length rs) then Ret line
      else map_exec_result (\<lambda>cell. let token = TrimSpace (string_of_runes cell) in
             if token = [] then line else colorizeAt R line offset width (colorFn token))
           (rune_slice rs offset (offset + width)))"

primrec colorize_lines :: "render \<Rightarrow> int \<Rightarrow> int \<Rightarrow> (bytes \<Rightarrow> bytes) \<Rightarrow> bytes list \<Rightarrow> bytes list exec" where
  "colorize_lines R offset width colorFn [] = Ret []"
| "colorize_lines R offset width colorFn (l # ls) =
     (case colorize_line R offset width colorFn l of
        Panic p \<Rightarrow> Panic p
      | Ret l' \<Rightarrow> map_exec_result (\<lambda>ls'. l' # ls') (colorize_lines R offset width colorFn ls))"

definition colorizeColumn :: "render \<Rightarrow> bytes \<Rightarrow> column list \<Rightarrow> int \<Rightarrow> (bytes \<Rightarrow> bytes) \<Rightarrow> bytes exec" where
  "colorizeColumn R view cols colIdx colorFn =
     (case columnStart cols colIdx of
        (offset, width) \<Rightarrow>
          if offset < 0 then Ret view
          else (case split_lines view of
                  [] \<Rightarrow> Ret []
                | hdr # ls \<Rightarrow> map_exec_result (\<lambda>ls'. Join (hdr # ls') [LF]) (colorize_lines R offset width colorFn ls)))"

section \<open>The tabs\<close>

definition eventColumns :: "column list" where
  "eventColumns =
     [\<lparr>Title = ''Time'', Width = 12\<rparr>, \<lparr>Title = ''PID'', Width = 8\<rparr>, \<lparr>Title = ''Comm'', Width = 12\<rparr>,
      \<lparr>Title = ''FD'', Width = 5\<rparr>, \<lparr>Title = ''Op'', Width = 8\<rparr>, \<lparr>Title = ''Detail'', Width = 60\<rparr>]"

definition connColumns :: "column list" where
  "connColumns =
     [\<lparr>Title = ''PID'', Width = 8\<rparr>, \<lparr>Title = ''Comm'', Width = 12\<rparr>, \<lparr>Title = ''FD'', Width = 5\<rparr>,
      \<lparr>Title = ''Remote'', Width = 22\<rparr>, \<lparr>Title = ''Out'', Width = 10\<rparr>, \<lparr>Title = ''In'', Width = 10\<rparr>,
      \<lparr>Title = ''State'', Width = 8\<rparr>]"

definition httpColumns :: "column list" where
  "httpColumns =
     [\<lparr>Title = ''PID'', Width = 8\<rparr>, \<lparr>Title = ''FD'', Width = 5\<rparr>, \<lparr>Title = ''Method'', Width = 8\<rparr>,
      \<lparr>Title = ''Path'', Width = 20\<rparr>, \<lparr>Title = ''Status'', Width = 8\<rparr>, \<lparr>Title = ''Body'', Width = 40\<rparr>,
      \<lparr>Title = ''Trunc'', Width = 6\<rparr>]"

text \<open>\<open>tableView\<close> is the text the table widget renders; its columns are those it was made with.\<close>

definition events_view :: "render \<Rightarrow> ('tb \<Rightarrow> bytes) \<Rightarrow> 'tb eventsTab \<Rightarrow> bytes exec" where
  "events_view R tableView m = colorizeColumn R (tableView (eTable m)) eventColumns 4 opColor"

definition conns_view :: "render \<Rightarrow> ('tb \<Rightarrow> bytes) \<Rightarrow> 'tb connsTab \<Rightarrow> bytes exec" where
  "conns_view R tableView m = colorizeColumn R (tableView (cTable m)) connColumns 6 stateColor"

definition http_view :: "render \<Rightarrow> ('tb \<Rightarrow> bytes) \<Rightarrow> 'tb httpTab \<Rightarrow> bytes exec" where
  "http_view R tableView m =
     (case colorizeColumn R (tableView (hTable m)) httpColumns 2 methodColor of
        Panic p \<Rightarrow> Panic p
      | Ret v1 \<Rightarrow>
          (case colorizeColumn R v1 httpColumns 4 statusColor of
             Panic p \<Rightarrow> Panic p
           | Ret v2 \<Rightarrow> colorizeColumn R v2 httpColumns 6 truncColor))"

section \<open>The chrome and the whole view\<close>

definition barWidth :: "'tb tui_model \<Rightarrow> int" where
  "barWidth m = (let w = tuiWidth m - chromeWidth in if w < 1 then 1 else w)"

text \<open>The bullet is U+25CF. \<open>displayWidth\<close> is \<open>lipgloss.Width\<close>.\<close>

definition titleBar :: "render \<Rightarrow> (bytes \<Rightarrow> int) \<Rightarrow> int \<Rightarrow> bool \<Rightarrow> bytes" where
  "titleBar R displayWidth width live =
     (let status = encode_rune 0x25CF @ (if live then '' LIVE'' else '' trace ended'');
          statusFg = (if live then colorLive else colorEnded);
          leftStyle = NewStyle\<lparr>Background := Some colorBarBg, Foreground := Some ''255'', Bold := True\<rparr>;
          rightStyle = NewStyle\<lparr>Background := Some colorBarBg, Foreground := Some statusFg, Bold := True\<rparr>;
          fillStyle = NewStyle\<lparr>Background := Some colorBarBg\<rparr>;
          left = R leftStyle '' Wiremark ''; right = R rightStyle (status @ '' '');
          gap = max 0 (width - displayWidth left - displayWidth right)
      in left @ R fillStyle (replicate (nat gap) (CHR '' '')) @ right)"

definition tabNames :: "(tab \<times> bytes) list" where
  "tabNames = [(tabEvents, ''Events''), (tabConnections, ''Connections''), (tabHTTP, ''HTTP'')]"

definition tabBar :: "render \<Rightarrow> int \<Rightarrow> tab \<Rightarrow> bytes" where
  "tabBar R width act =
     (let activeStyle = NewStyle\<lparr>Background := Some colorAccent, Foreground := Some ''235'', Bold := True, Padding := (0, 2)\<rparr>;
          inactiveStyle = NewStyle\<lparr>Foreground := Some ''245'', Padding := (0, 2)\<rparr>;
          parts = map (\<lambda>(t, name). R (if t = act then activeStyle else inactiveStyle) name) tabNames
      in R (NewStyle\<lparr>FixedWidth := Some width\<rparr>) (Join parts '' ''))"

definition footerBar :: "render \<Rightarrow> int \<Rightarrow> bytes" where
  "footerBar R width =
     (let keyStyle = NewStyle\<lparr>Bold := True, Foreground := Some ''235'', Background := Some colorAccent, Padding := (0, 1)\<rparr>;
          descStyle = NewStyle\<lparr>Foreground := Some colorDim\<rparr>;
          line = R keyStyle ''TAB'' @ R descStyle '' switch view    '' @ R keyStyle ''Q'' @ R descStyle '' quit''
      in R (NewStyle\<lparr>FixedWidth := Some width\<rparr>) line)"

definition tui_View :: "render \<Rightarrow> (bytes \<Rightarrow> int) \<Rightarrow> ('tb \<Rightarrow> bytes) \<Rightarrow> 'tb tui_model \<Rightarrow> bytes exec" where
  "tui_View R displayWidth tableView m =
     (let width = barWidth m;
          (body, live) = (case active m of
             tabConnections \<Rightarrow> (conns_view R tableView (connsT m), \<not> cClosedTab (connsT m))
           | tabHTTP \<Rightarrow> (http_view R tableView (httpT m), \<not> hClosed (httpT m))
           | tabEvents \<Rightarrow> (events_view R tableView (eventsT m), \<not> eClosed (eventsT m)))
      in map_exec_result (\<lambda>text.
           R (NewStyle\<lparr>RoundedBorder := True, BorderForeground := Some colorAccent, Padding := (0, 1)\<rparr>)
             (Join [titleBar R displayWidth width live, tabBar R width (active m), text, footerBar R width] [LF])) body)"


section \<open>Lines\<close>

lemma split_lines_nonempty: "split_lines s \<noteq> []"
  by (induction s) (auto split: list.splits)

lemma split_lines_LF: "LF \<notin> set s \<Longrightarrow> split_lines (s @ LF # t) = s # split_lines t"
  by (induction s) auto

lemma split_lines_one: "LF \<notin> set s \<Longrightarrow> split_lines s = [s]"
  by (induction s) auto

lemma split_lines_Join:
  "ls \<noteq> [] \<Longrightarrow> list_all (\<lambda>l. LF \<notin> set l) ls \<Longrightarrow> split_lines (Join ls [LF]) = ls"
  by (induction ls "[LF]" rule: Join.induct) (simp_all add: split_lines_one split_lines_LF)

lemma string_of_runes_LF:
  assumes "10 \<notin> set rs"
  shows "LF \<notin> set (string_of_runes rs)"
proof
  assume "LF \<in> set (string_of_runes rs)"
  then obtain r where "r \<in> set rs" and "LF \<in> set (encode_rune r)" by (auto simp: string_of_runes_def)
  with encode_rune_small [of LF r] assms show False by auto
qed

lemma string_of_runes_append: "string_of_runes (a @ b) = string_of_runes a @ string_of_runes b"
  by (simp add: string_of_runes_def)

lemma runes_string_of_runes: "list_all valid_rune rs \<Longrightarrow> runes (string_of_runes rs) = rs"
  unfolding string_of_runes_def by (rule runes_concat_encode)

section \<open>What coloring does to a line\<close>

text \<open>
  The reference: a line of runes, its cell from \<open>off\<close> on of \<open>w\<close> runes. The text of a cell that is
  there and not blank is styled; what is before it, its padding and what follows stay.
\<close>

definition painted_line :: "render \<Rightarrow> (bytes \<Rightarrow> bytes) \<Rightarrow> nat \<Rightarrow> nat \<Rightarrow> rune list \<Rightarrow> bytes" where
  "painted_line R f off w rs =
     (let cell = string_of_runes (take w (drop off rs)); txt = TrimRight cell '' '' in
      if length rs < off + w \<or> TrimSpace cell = [] then string_of_runes rs
      else string_of_runes (take off rs) @ R (NewStyle\<lparr>Foreground := Some (f (TrimSpace cell))\<rparr>) txt @
           drop (length txt) cell @ string_of_runes (drop (off + w) rs))"

lemma colorize_line_painted:
  assumes "list_all valid_rune rs" and "0 < w"
  shows "colorize_line R (int off) (int w) f (string_of_runes rs) = Ret (painted_line R f off w rs)"
proof -
  have "TrimSpace s \<noteq> [] \<Longrightarrow> TrimRight s '' '' \<noteq> []" for s
    using TrimSpace_blank TrimRight_blank_iff by metis
  moreover have "nat (int off + int w) = off + w" by simp
  ultimately show ?thesis
    using assms
    by (auto simp: colorize_line_def colorizeAt_def painted_line_def rune_slice_def runes_string_of_runes Let_def)
qed

lemma colorize_lines_painted:
  assumes "list_all (list_all valid_rune) rss" and "0 < w"
  shows "colorize_lines R (int off) (int w) f (map string_of_runes rss) = Ret (map (painted_line R f off w) rss)"
  using assms by (induction rss) (simp_all add: colorize_line_painted)

lemma colorizeColumn_painted:
  assumes "columnStart cols idx = (int off, int w)" and "0 < w" and "LF \<notin> set hdr"
    and "list_all (\<lambda>rs. list_all valid_rune rs \<and> 10 \<notin> set rs) rss"
  shows "colorizeColumn R (Join (hdr # map string_of_runes rss) [LF]) cols idx f =
    Ret (Join (hdr # map (painted_line R f off w) rss) [LF])"
proof -
  have "list_all (\<lambda>l. LF \<notin> set l) (hdr # map string_of_runes rss)"
    using assms(3,4) string_of_runes_LF by (auto simp: list_all_iff)
  then have "split_lines (Join (hdr # map string_of_runes rss) [LF]) = hdr # map string_of_runes rss"
    by (intro split_lines_Join) simp_all
  moreover have "list_all (list_all valid_rune) rss" using assms(4) by (auto simp: list_all_iff)
  ultimately show ?thesis
    using assms(1,2) colorize_lines_painted [of rss w R off f] by (simp add: colorizeColumn_def)
qed


lemma painted_line_unstyled: "painted_line (\<lambda>st t. t) f off w rs = string_of_runes rs"
proof -
  have "TrimRight s cs @ drop (length (TrimRight s cs)) s = s" for s cs
    using TrimRight_prefix [of s cs] by (metis append_eq_conv_conj)
  then have "string_of_runes (take off rs) @ TrimRight cell '' '' @ drop (length (TrimRight cell '' '')) cell @
      string_of_runes (drop (off + w) rs) = string_of_runes rs"
    if "cell = string_of_runes (take w (drop off rs))" for cell
    unfolding that by (metis append.assoc append_take_drop_id drop_drop add.commute string_of_runes_append)
  then show ?thesis by (simp add: painted_line_def Let_def)
qed

lemma ascii_valid: "ascii s \<Longrightarrow> list_all valid_rune (map byte_val s)"
  by (auto simp: ascii_def list_all_iff valid_rune_def)

lemma ascii_string_of_runes: "ascii s \<Longrightarrow> string_of_runes (map byte_val s) = s"
  by (induction s) (auto simp: string_of_runes_def encode_rune_def encode_rune_vals_def)

lemma ascii_take_drop: "ascii s \<Longrightarrow> ascii (take n s)" "ascii s \<Longrightarrow> ascii (drop n s)"
  by (auto simp: ascii_def dest: in_set_takeD in_set_dropD)

lemma painted_line_ascii:
  assumes "ascii s"
  shows "painted_line R f off w (map byte_val s) =
    (let cell = take w (drop off s); txt = TrimRight cell '' '' in
      if length s < off + w \<or> TrimSpace cell = [] then s
      else take off s @ R (NewStyle\<lparr>Foreground := Some (f (TrimSpace cell))\<rparr>) txt @
           drop (length txt) cell @ drop (off + w) s)"
  using assms
  by (simp add: painted_line_def ascii_string_of_runes ascii_take_drop take_map drop_map Let_def)


lemma no_LF_runes: "LF \<notin> set s \<Longrightarrow> 10 \<notin> set (map byte_val s)"
  by (metis byte_val_LF imageE set_map)

lemma painted_split:
  assumes "ascii (x @ c @ y)" and "length x = off" and "length c = w"
  shows "painted_line R f off w (map byte_val (x @ c @ y)) =
    (if TrimSpace c = [] then x @ c @ y
     else x @ R (NewStyle\<lparr>Foreground := Some (f (TrimSpace c))\<rparr>) (TrimRight c '' '') @
          drop (length (TrimRight c '' '')) c @ y)"
  using assms(2,3) by (simp only: painted_line_ascii [OF assms(1)]) (simp add: Let_def)

section \<open>Properties\<close>

text \<open>
  C37: In the views of the events and of the connections, coloring styles exactly the text of one
  cell per line (the operation, the state) and leaves the header, every other rune and the padding of
  the cell as the table rendered them; with a terminal that shows no colors the view is the table.
\<close>

theorem single_column_coloring:
  assumes "LF \<notin> set hdr" and "list_all (\<lambda>rs. list_all valid_rune rs \<and> 10 \<notin> set rs) rss"
    and "tableView (eTable ev) = Join (hdr # map string_of_runes rss) [LF]"
    and "tableView (cTable co) = Join (hdr # map string_of_runes rss) [LF]"
  shows "events_view R tableView ev = Ret (Join (hdr # map (painted_line R opColor 46 8) rss) [LF]) \<and>
    conns_view R tableView co = Ret (Join (hdr # map (painted_line R stateColor 80 8) rss) [LF]) \<and>
    events_view (\<lambda>st t. t) tableView ev = Ret (tableView (eTable ev)) \<and>
    conns_view (\<lambda>st t. t) tableView co = Ret (tableView (cTable co))"
proof -
  have "columnStart eventColumns 4 = (int 46, int 8)" and "columnStart connColumns 6 = (int 80, int 8)"
    by (simp_all add: columnStart_def eventColumns_def connColumns_def)
  note painted = colorizeColumn_painted [OF this(1) _ assms(1,2)] colorizeColumn_painted [OF this(2) _ assms(1,2)]
  have unstyled: "painted_line (\<lambda>st t. t) f off w = string_of_runes" for f off w
    by (rule ext) (rule painted_line_unstyled)
  show ?thesis using painted by (simp add: events_view_def conns_view_def assms(3,4) unstyled)
qed

text \<open>
  C38: In the HTTP view the status is not colored: the method has been colored first, and the
  escape codes this put into the line are counted as runes when the status column is looked for, so
  that with a path of at most 7 characters (and codes of together 10 to 15 characters, as for the
  colors used) blanks of the path column are looked at and nothing is styled, whatever the status is.
\<close>

theorem http_status_color_lost:
  assumes c: "c = methodColor meth"
    and R: "\<And>t. R (NewStyle\<lparr>Foreground := Some c\<rparr>) t = pre @ t @ post"
    and codes: "ascii (pre @ post)" "LF \<notin> set (pre @ post)" "10 \<le> length (pre @ post)" "length (pre @ post) \<le> 15"
    and hdr: "LF \<notin> set hdr" and line: "ascii (a @ meth @ path @ rest)" "LF \<notin> set (a @ meth @ path @ rest)"
    and a: "length a = 18" and meth: "graphic meth" "meth \<noteq> []" "length meth \<le> 8" and path: "length path \<le> 7"
    and view: "tableView (hTable m) =
      Join [hdr, a @ meth @ replicate (10 - length meth) (CHR '' '') @ path @ replicate (22 - length path) (CHR '' '') @ rest] [LF]"
  shows "http_view R tableView m =
    colorizeColumn R (Join [hdr, a @ pre @ meth @ post @ replicate (10 - length meth) (CHR '' '') @ path @
      replicate (22 - length path) (CHR '' '') @ rest] [LF]) httpColumns 6 truncColor"
proof -
  let ?sp = "\<lambda>n. replicate n (CHR '' '')"
  let ?L = "a @ meth @ ?sp (10 - length meth) @ path @ ?sp (22 - length path) @ rest"
  let ?L1 = "a @ pre @ meth @ post @ ?sp (10 - length meth) @ path @ ?sp (22 - length path) @ rest"
  have cols: "columnStart httpColumns 2 = (int 18, int 8)" "columnStart httpColumns 4 = (int 50, int 8)"
    by (simp_all add: columnStart_def httpColumns_def)
  have sp: "ascii (?sp n)" "LF \<notin> set (?sp n)" "blank (?sp n)" for n by (auto simp: ascii_def blank_def)
  have one: "colorizeColumn R (Join [hdr, l] [LF]) httpColumns i f = Ret (Join [hdr, painted_line R f off w (map byte_val l)] [LF])"
    if "columnStart httpColumns i = (int off, int w)" "0 < w" "ascii l" "LF \<notin> set l" for i off w f l
  proof -
    have "10 \<notin> set (map byte_val l)" by (rule no_LF_runes [OF that(4)])
    with colorizeColumn_painted [OF that(1,2) hdr, of "[map byte_val l]" R f] that(3) show ?thesis
      by (simp add: ascii_valid ascii_string_of_runes)
  qed
  have asc: "ascii ?L" "LF \<notin> set ?L" "ascii ?L1" "LF \<notin> set ?L1"
    using line codes sp by auto
  have "10 - length meth = (8 - length meth) + 2" using meth(3) by simp
  then have gap: "?sp (10 - length meth) = ?sp (8 - length meth) @ ?sp 2" by (simp only: replicate_add)
  then have L: "?L = a @ (meth @ ?sp (8 - length meth)) @ ?sp 2 @ path @ ?sp (22 - length path) @ rest"
    by (simp only: append_assoc)
  have trim: "TrimRight (meth @ ?sp (8 - length meth)) '' '' = meth"
    by (rule TrimRight_padded [OF disjI2 [OF graphic_last [OF meth(1,2)]] sp(3)])
  have cell: "length (meth @ ?sp (8 - length meth)) = 8" using meth(3) by simp
  have drop: "drop (length meth) (meth @ z) = z" for z by simp
  from painted_split [OF asc(1) [unfolded L] a cell, of R methodColor]
  have 1: "painted_line R methodColor 18 8 (map byte_val ?L) = ?L1"
    unfolding L by (simp only: trim TrimSpace_padded [OF meth(1,2) sp(3)] meth(2) if_False c [symmetric] R drop gap append_assoc)
  define s where "s = length (pre) + length post"
  have "10 \<le> s" "s \<le> 15" using codes(3,4) by (simp_all add: s_def)
  then have "22 - length path = (22 - s - length path) + (8 + (s - 8))" using path by simp
  then have L1: "?L1 = (a @ pre @ meth @ post @ ?sp (10 - length meth) @ path @ ?sp (22 - s - length path)) @ ?sp 8 @ ?sp (s - 8) @ rest"
    by (simp only: replicate_add append_assoc)
  have "length (a @ pre @ meth @ post @ ?sp (10 - length meth) @ path @ ?sp (22 - s - length path)) = 50"
    using a meth(3) path \<open>s \<le> 15\<close> by (simp add: s_def)
  from painted_split [OF asc(3) [unfolded L1] this length_replicate, of R statusColor]
  have 2: "painted_line R statusColor 50 8 (map byte_val ?L1) = ?L1"
    unfolding L1 by (simp only: TrimSpace_blank [OF sp(3)] simp_thms if_True)
  show ?thesis
    using 1 2 one [OF cols(1) _ asc(1,2)] one [OF cols(2) _ asc(3,4)] by (simp add: http_view_def view)
qed

definition sgr :: render where
  "sgr st t = (case Foreground st of None \<Rightarrow> t | Some c \<Rightarrow> CHR 0x1B # ''[38;5;'' @ c @ ''m'' @ t @ CHR 0x1B # ''[0m'')"

abbreviation sample_eventsTab :: "unit eventsTab" where
  "sample_eventsTab \<equiv> \<lparr>eTable = (), eRows = [], eClosed = False\<rparr>"

abbreviation sample_connsTab :: "unit connsTab" where
  "sample_connsTab \<equiv> \<lparr>cTable = (), cIndex = Map.empty, cRows = [], cClosedTab = False\<rparr>"

theorem single_column_coloring_witness:
  "\<exists>rs. events_view sgr (\<lambda>_. Join (''Time'' # map string_of_runes [rs]) [LF]) sample_eventsTab =
     Ret (Join [''Time'', replicate 46 (CHR '' '') @ CHR 0x1B # ''[38;5;84mREAD'' @ CHR 0x1B # ''[0m'' @ ''    ''] [LF])"
proof -
  let ?a = "replicate 46 (CHR '' '')" and ?cell = "''READ'' @ ''    ''"
  let ?rs = "map byte_val (?a @ ?cell @ [])"
  have asc: "ascii (?a @ ?cell @ [])" and "LF \<notin> set (?a @ ?cell @ [])" by (auto simp: ascii_def)
  then have "list_all (\<lambda>rs. list_all valid_rune rs \<and> 10 \<notin> set rs) [?rs]"
    using ascii_valid no_LF_runes by (simp del: map_append)
  from single_column_coloring [OF _ this, of "''Time''" "\<lambda>_. Join (''Time'' # map string_of_runes [?rs]) [LF]"
      sample_eventsTab sample_connsTab sgr]
  have view: "events_view sgr (\<lambda>_. Join (''Time'' # map string_of_runes [?rs]) [LF]) sample_eventsTab =
      Ret (Join (''Time'' # map (painted_line sgr opColor 46 8) [?rs]) [LF])" by simp
  have g: "graphic ''READ''" by (simp add: graphic_def)
  have "blank ''    ''" by (simp add: blank_def)
  then have "TrimRight ?cell '' '' = ''READ''" by (intro TrimRight_padded) simp_all
  moreover have "TrimSpace ?cell = ''READ''" by (rule TrimSpace_padded [OF g]) (simp_all add: blank_def)
  ultimately have "painted_line sgr opColor 46 8 ?rs = ?a @ CHR 0x1B # ''[38;5;84mREAD'' @ CHR 0x1B # ''[0m'' @ ''    ''"
    using painted_split [OF asc, of 46 8 sgr opColor]
    by (simp add: sgr_def opColor_def HasPrefix_def colorGreen_def NewStyle_def del: map_append)
  with view show ?thesis by (intro exI [of _ ?rs]) simp
qed

theorem http_status_color_lost_witness:
  "http_view sgr (\<lambda>_. Join [''PID'', replicate 18 (CHR '' '') @ ''GET'' @ replicate 7 (CHR '' '') @ ''/x'' @
         replicate 20 (CHR '' '') @ ''500''] [LF]) \<lparr>hTable = (), hRows = [], hClosed = False\<rparr> =
     colorizeColumn sgr (Join [''PID'', replicate 18 (CHR '' '') @ (CHR 0x1B # ''[38;5;111m'') @ ''GET'' @ (CHR 0x1B # ''[0m'') @ replicate 7 (CHR '' '') @ ''/x'' @
         replicate 20 (CHR '' '') @ ''500''] [LF]) httpColumns 6 truncColor"
proof -
  define c where "c = methodColor ''GET''"
  have c_ok: "ascii c \<and> LF \<notin> set c \<and> 2 \<le> length c \<and> length c \<le> 3"
    by (simp add: c_def methodColor_def colorBlue_def colorGreen_def colorRed_def colorDim_def)
  have "http_view sgr (\<lambda>_. Join [''PID'', replicate 18 (CHR '' '') @ ''GET'' @ replicate (10 - length ''GET'') (CHR '' '') @ ''/x'' @
         replicate (22 - length ''/x'') (CHR '' '') @ ''500''] [LF]) \<lparr>hTable = (), hRows = [], hClosed = False\<rparr> =
     colorizeColumn sgr (Join [''PID'', replicate 18 (CHR '' '') @ (CHR 0x1B # ''[38;5;'' @ c @ ''m'') @ ''GET'' @
         (CHR 0x1B # ''[0m'') @ replicate (10 - length ''GET'') (CHR '' '') @ ''/x'' @
         replicate (22 - length ''/x'') (CHR '' '') @ ''500''] [LF]) httpColumns 6 truncColor"
    by (rule http_status_color_lost [OF c_def]) (use c_ok in \<open>auto simp: sgr_def graphic_def NewStyle_def ascii_def\<close>)
  then show ?thesis by (simp add: c_def methodColor_def colorBlue_def)
qed

end
