(* ===== verification/Cli.thy ===== *)
theory Cli
  imports EndToEnd ProxyLife Attach Launcher TuiView
begin

text \<open>
  \<open>cmd/wiremark\<close> and \<open>internal/storage\<close>: the four commands, put together from the components, with
  what they hold of the kernel and what they leave in the file system. Flag parsing is cobra's:
  the commands take the flag values as arguments. The YAML library, writing a file, starting and
  waiting for a process and binding the listener are parameters.
\<close>

section \<open>YAML storage\<close>

text \<open>
  \<open>osWrite path data fs\<close> is \<open>os.WriteFile\<close>: the file system afterwards, and whether it succeeded.
\<close>

definition WriteYAML ::
  "('v \<Rightarrow> bytes option) \<Rightarrow> (bytes \<Rightarrow> bytes \<Rightarrow> filesystem \<Rightarrow> filesystem \<times> bool) \<Rightarrow> bytes \<Rightarrow> 'v \<Rightarrow> filesystem \<Rightarrow> filesystem \<times> bool" where
  "WriteYAML marshal osWrite path v fs =
     (case marshal v of None \<Rightarrow> (fs, False) | Some data \<Rightarrow> osWrite path data fs)"

definition ReadYAML :: "(bytes \<Rightarrow> 'v option) \<Rightarrow> bytes \<Rightarrow> filesystem \<Rightarrow> 'v option" where
  "ReadYAML unmarshalYAML path fs =
     (case ReadFile fs path of None \<Rightarrow> None | Some data \<Rightarrow> unmarshalYAML data)"

section \<open>Commands\<close>

datatype cli_error =
  PidRequired | OutputRequired | StartCollector attach_error | EnableTLSFailed attach_error | ViewFailed
  | BuildFailed bytes | WriteFailed bytes | TestRequired | ReadFailed bytes | StartProxy | StartFailed bytes
  | CommandFailed | LauncherFailed | OwnPathFailed | FindSudoFailed | ExecFailed

text \<open>
  \<open>trace\<close>. The result is what the process still holds of the kernel at the end, what went to the
  standard output, and the error. \<open>events c\<close> are the events the collector delivers until it is
  closed, \<open>tuiRun\<close> runs the live view (theory \<open>Tui\<close>) to its end.
\<close>

definition show_events ::
  "(rune \<Rightarrow> bool) \<Rightarrow> (int \<Rightarrow> int) \<Rightarrow> (event \<Rightarrow> filesystem) \<Rightarrow> (Collector \<Rightarrow> event list) \<Rightarrow> (Collector \<Rightarrow> bool exec) \<Rightarrow>
     bool \<Rightarrow> Collector \<Rightarrow> (bytes \<times> cli_error option) exec" where
  "show_events P tz fsAt events tuiRun noTUI c =
     (if noTUI then map_exec_result (\<lambda>out. (out, None)) (Print P tz fsAt (EventTime (collRef c)) (events c))
      else map_exec_result (\<lambda>viewOk. ([], if viewOk then None else Some ViewFailed)) (tuiRun c))"

definition trace_cmd ::
  "(bpf_call \<Rightarrow> bool) \<Rightarrow> (handle \<Rightarrow> 'err option) \<Rightarrow> (int \<times> int) option \<times> int \<Rightarrow> filesystem \<Rightarrow>
     (bool \<Rightarrow> Collector \<Rightarrow> (bytes \<times> cli_error option) exec) \<Rightarrow> int \<Rightarrow> bool \<Rightarrow> bool \<Rightarrow>
     (handle set \<times> bytes \<times> cli_error option) exec" where
  "trace_cmd ok closeErr clock fs showEvents pid noTUI tls =
     (if pid \<le> 0 then Ret ({}, [], Some PidRequired)
      else (case collector_New ok closeErr clock (word_of_int pid) {} of
              (held, Inl e) \<Rightarrow> Ret (held, [], Some (StartCollector e))
            | (held, Inr c) \<Rightarrow>
                (case (if tls then EnableTLS ok fs held c else Ret (held, c, None)) of
                   Panic p \<Rightarrow> Panic p
                 | Ret (held', c', Some e) \<Rightarrow> Ret (fst (collector_Close closeErr held' c'), [], Some (EnableTLSFailed e))
                 | Ret (held', c', None) \<Rightarrow>
                     map_exec_result (\<lambda>(out, err). (fst (collector_Close closeErr held' c'), out, err)) (showEvents noTUI c'))))"

text \<open>
  \<open>record\<close>. \<open>collect c\<close> is what the loop over the exchanges channel has collected when the channel is
  closed and drained, none when that never happens (the goroutine is blocked, or a panic has ended
  the process): then the command does not return. The collector is closed once, by the interrupt
  handler or at the end.
\<close>

definition record_cmd ::
  "(bpf_call \<Rightarrow> bool) \<Rightarrow> (handle \<Rightarrow> 'err option) \<Rightarrow> (int \<times> int) option \<times> int \<Rightarrow> (bytes \<Rightarrow> 'j option) \<Rightarrow>
     ('j TestCase \<Rightarrow> bytes option) \<Rightarrow> (bytes \<Rightarrow> bytes \<Rightarrow> filesystem \<Rightarrow> filesystem \<times> bool) \<Rightarrow>
     (Collector \<Rightarrow> Exchange list option) \<Rightarrow> int \<Rightarrow> bytes \<Rightarrow> bytes \<Rightarrow> filesystem \<Rightarrow>
     (handle set \<times> filesystem \<times> cli_error option) option" where
  "record_cmd ok closeErr clock unmarshal marshal osWrite collect pid output name fs =
     (if pid \<le> 0 then Some ({}, fs, Some PidRequired)
      else if output = [] then Some ({}, fs, Some OutputRequired)
      else (case collector_New ok closeErr clock (word_of_int pid) {} of
              (held, Inl e) \<Rightarrow> Some (held, fs, Some (StartCollector e))
            | (held, Inr c) \<Rightarrow>
                (case collect c of
                   None \<Rightarrow> None
                 | Some collected \<Rightarrow>
                     let held' = fst (collector_Close closeErr held c) in
                     (case Build unmarshal name collected of
                        (tc, Some msg) \<Rightarrow> Some (held', fs, Some (BuildFailed msg))
                      | (tc, None) \<Rightarrow>
                          (case WriteYAML marshal osWrite output tc fs of
                             (fs', written) \<Rightarrow> Some (held', fs', if written then None else Some (WriteFailed output)))))))"

text \<open>
  \<open>run\<close>, with the command and its arguments. Its effects in order: binding the proxy with its
  dependencies, serving, starting the process with its arguments and environment, waiting for it,
  closing the proxy (deferred). \<open>listen\<close> is the address \<open>NewProxy\<close> binds, \<open>startOk\<close> and \<open>waitOk\<close>
  whether the process starts and ends successfully.
\<close>

datatype run_action =
  OpenProxy "Dependency list" | ServeProxy | StartProcess "bytes list" "bytes list" | WaitProcess | CloseProxy

definition run_cmd ::
  "(bytes \<Rightarrow> 'j TestCase option) \<Rightarrow> bytes option \<Rightarrow> bool \<Rightarrow> bool \<Rightarrow> bytes list \<Rightarrow> filesystem \<Rightarrow> bytes \<Rightarrow> bytes \<Rightarrow> bytes list \<Rightarrow>
     run_action list \<times> cli_error option" where
  "run_cmd unmarshalYAML listen startOk waitOk environ fs testPath cmd args =
     (if testPath = [] then ([], Some TestRequired)
      else (case ReadYAML unmarshalYAML testPath fs of
              None \<Rightarrow> ([], Some (ReadFailed testPath))
            | Some tc \<Rightarrow>
                let deps = redisDeps (tcDependencies tc) in
                (case listen of
                   None \<Rightarrow> ([], Some StartProxy)
                 | Some addr \<Rightarrow>
                     if \<not> startOk then ([OpenProxy deps, ServeProxy, CloseProxy], Some (StartFailed cmd))
                     else ([OpenProxy deps, ServeProxy, StartProcess (cmd # args) (environ @ [''REDIS_ADDR='' @ addr]),
                            WaitProcess, CloseProxy], if waitOk then None else Some CommandFailed))))"

text \<open>
  \<open>launch\<close>: how it ends, with an error, silently, or by executing a program with its arguments
  (which returns only to report an error). \<open>menu\<close> is the result of \<open>launcher.Run\<close>.
\<close>

datatype launch_end = LaunchError cli_error | LaunchQuit | LaunchExec bytes "bytes list"

definition launch_cmd :: "(Result \<times> bool) option \<Rightarrow> bytes option \<Rightarrow> bytes option \<Rightarrow> launch_end" where
  "launch_cmd menu self sudo =
     (case menu of
        None \<Rightarrow> LaunchError LauncherFailed
      | Some (res, ok) \<Rightarrow>
          if \<not> ok then LaunchQuit
          else (case self of
                  None \<Rightarrow> LaunchError OwnPathFailed
                | Some self \<Rightarrow>
                    if NeedsSudo res
                    then (case sudo of
                            None \<Rightarrow> LaunchError FindSudoFailed
                          | Some sudoPath \<Rightarrow> LaunchExec sudoPath ([sudoPath, self] @ Args res))
                    else LaunchExec self ([self] @ Args res)))"


text \<open>What a command may leave of the kernel: programs and maps only, and none if closing them reports no error.\<close>

definition released :: "(handle \<Rightarrow> 'err option) \<Rightarrow> cli_error option \<Rightarrow> handle set \<Rightarrow> bool" where
  "released closeErr err held \<longleftrightarrow>
     held \<subseteq> Obj ` (set syscall_names \<union> set tls_names) \<and>
     ((\<forall>ob. closeErr (Obj ob) = None) \<longrightarrow>
        held = (if err = Some (StartCollector ClockError) then Obj ` set syscall_names else {}))"

lemma released_New:
  assumes "collector_New ok closeErr clock pid {} = (held, Inl e)"
  shows "released closeErr (Some (StartCollector e)) held"
proof -
  have h: "held = New_fails closeErr e" using New_books [OF assms] by simp
  have "behind_error closeErr (syscall_parts assigned_syscall) \<subseteq> Obj ` set syscall_names"
    using behind_error_subset [of closeErr "syscall_parts assigned_syscall"] by (simp add: assigned_parts)
  moreover have "behind_error closeErr (syscall_parts assigned_syscall) = {}" if "\<forall>ob. closeErr (Obj ob) = None"
    using that parts_Obj(1) by (fastforce intro!: behind_error_clean)
  ultimately show ?thesis using h by (auto simp: released_def New_fails_def assigned_parts)
qed

lemma released_Close:
  assumes "collector_ok c" and "err \<noteq> Some (StartCollector ClockError)"
  shows "released closeErr err (fst (collector_Close closeErr (owned c) c))"
proof -
  have "unreleased closeErr c \<subseteq> set (syscall_parts assigned_syscall) \<union> set (tls_parts assigned_tls)"
    using behind_error_subset [of closeErr "syscall_parts assigned_syscall"] behind_error_subset [of closeErr "tls_parts assigned_tls"]
      assms(1) by (auto simp: unreleased_def collector_ok_def split: if_splits)
  then show ?thesis
    using assms unreleased_clean [of closeErr c] by (auto simp: released_def Close_releases assigned_parts)
qed

lemma trace_releases:
  assumes "trace_cmd ok closeErr clock fs (show_events P tz fsAt events tuiRun) pid noTUI tls = Ret (held, out, err)"
  shows "released closeErr err held"
proof (cases "0 < pid")
  case True
  obtain h r where new: "collector_New ok closeErr clock (word_of_int pid) {} = (h, r)"
    by (cases "collector_New ok closeErr clock (word_of_int pid) {}")
  show ?thesis
  proof (cases r)
    case (Inl e)
    with released_New new True assms show ?thesis by (fastforce simp: trace_cmd_def)
  next
    case (Inr c)
    with New_books [OF new] have c: "h = owned c" "collector_ok c" "tlsRd c = None" "\<not> tlsEnabled c" by auto
    obtain h' c' e where tls: "(if tls then EnableTLS ok fs h c else Ret (h, c, None)) = Ret (h', c', e)"
      using assms True new Inr by (cases "if tls then EnableTLS ok fs h c else Ret (h, c, None)") (auto simp: trace_cmd_def)
    then have c': "h' = owned c'" "collector_ok c'" using EnableTLS_books [OF _ c] c by (auto split: if_splits)
    show ?thesis
    proof (cases e)
      case None
      with assms True new Inr tls have "held = fst (collector_Close closeErr h' c')"
        "\<exists>o'. show_events P tz fsAt events tuiRun noTUI c' = Ret (o', err)"
        by (auto simp: trace_cmd_def)
      then show ?thesis using released_Close [OF c'(2), of err closeErr] c'(1) by (auto simp: show_events_def split: if_splits)
    next
      case (Some e')
      with assms True new Inr tls have "held = fst (collector_Close closeErr h' c')" "err = Some (EnableTLSFailed e')"
        by (auto simp: trace_cmd_def)
      then show ?thesis using released_Close [OF c'(2), of err closeErr] c'(1) by simp
    qed
  qed
qed (use assms in \<open>auto simp: trace_cmd_def released_def\<close>)

section \<open>Properties\<close>

text \<open>
  C7: What \<open>record\<close> has written, \<open>run\<close> serves. A recording of a trace of at most 64 events with an
  HTTP request in it returns successfully with nothing of the kernel held, whatever the
  interleaving of the goroutines, and \<open>run\<close> with the written file starts the command only after a
  proxy with exactly the dependencies of the recorded exchanges is bound and served, points the
  command at it as the last entry of its environment, and closes it after the command has ended.
\<close>

theorem record_then_run:
  assumes "0 < pid" and "output \<noteq> []" and clean: "\<forall>ob. closeErr (Obj ob) = None"
    and new: "collector_New ok closeErr clock (word_of_int pid) {} = (held, Inr c)"
    and few: "length evs \<le> 64" and run: "streamer_Run H U ord evs = Ret (raw, exs)"
    and reach: "chan_reach (record_stage H U ord) Map.empty evs st" and stuck: "chan_stuck (record_stage H U ord) st"
    and build: "Build unmarshal name exs = (tc, None)"
    and yaml: "marshal tc = Some data" "unmarshalYAML data = Some tc'" "tcDependencies tc' = tcDependencies tc"
    and stored: "osWrite output data fs = (fs', True)" "ReadFile fs' output = Some data"
  shows "record_cmd ok closeErr clock unmarshal marshal osWrite (\<lambda>c. record_collected st) pid output name fs = Some ({}, fs', None) \<and>
    run_cmd unmarshalYAML (Some addr) True waitOk environ fs' output cmd args =
      ([OpenProxy (map dependency_of (redis_calls exs)), ServeProxy,
        StartProcess (cmd # args) (environ @ [''REDIS_ADDR='' @ addr]), WaitProcess, CloseProxy],
       if waitOk then None else Some CommandFailed)"
proof
  have "stage_outcome (record_stage H U ord) Map.empty evs = Ret exs" by (simp add: streamer_outcome run)
  then have collected: "record_collected st = Some exs"
    using chan_complete [of "record_stage H U ord" Map.empty evs st exs] reach stuck few
    by (auto simp: record_collected_def streamer_stage_def)
  have "fst (collector_Close closeErr held c) = {}"
    using New_books [OF new] unreleased_clean [OF clean] by (simp add: Close_releases)
  with collected show "record_cmd ok closeErr clock unmarshal marshal osWrite (\<lambda>c. record_collected st) pid output name fs =
      Some ({}, fs', None)"
    using assms(1,2) by (simp add: record_cmd_def new build WriteYAML_def yaml(1) stored(1))
  have "tcDependencies tc = map dependency_of (redis_calls exs)"
    using build unfolding Build_def build_fold by (auto simp: Let_def with_deps_def split: if_splits)
  then have "redisDeps (tcDependencies tc') = map dependency_of (redis_calls exs)"
    by (simp only: yaml(3) redisDeps_dependencies)
  then show "run_cmd unmarshalYAML (Some addr) True waitOk environ fs' output cmd args =
      ([OpenProxy (map dependency_of (redis_calls exs)), ServeProxy,
        StartProcess (cmd # args) (environ @ [''REDIS_ADDR='' @ addr]), WaitProcess, CloseProxy],
       if waitOk then None else Some CommandFailed)"
    using assms(2) by (simp add: run_cmd_def ReadYAML_def stored(2) yaml(2))
qed

text \<open>
  C20: On every path on which \<open>trace\<close> or \<open>record\<close> returns, the missing TLS library and a failed build
  or write included, no link and no reader stays in the kernel, and no program and no map when
  closing those reports no error; the one exception is the failed clock reading in \<open>New\<close>.
\<close>

theorem commands_release_kernel:
  assumes "trace_cmd ok closeErr clock fs (show_events P tz fsAt events tuiRun) pid noTUI tls = Ret (held, out, err)"
    and "record_cmd ok' closeErr' clock' unmarshal marshal osWrite collect pid' output name fs' = Some (held', fs'', err')"
  shows "released closeErr err held \<and> released closeErr' err' held'"
proof
  show "released closeErr err held" using assms(1) by (rule trace_releases)
  show "released closeErr' err' held'"
  proof (cases "collector_New ok' closeErr' clock' (word_of_int pid') {}")
    case (Pair h r)
    show ?thesis
    proof (cases r)
      case (Inl e)
      with released_New Pair assms(2) show ?thesis
        by (fastforce simp: record_cmd_def released_def split: if_splits)
    next
      case (Inr c)
      then have c: "h = owned c" "collector_ok c" using New_books [OF Pair] by simp_all
      then show ?thesis
        using Pair Inr assms(2) released_Close [OF c(2), of _ closeErr']
        by (auto simp: record_cmd_def Let_def split: if_splits option.splits prod.splits) (simp_all add: released_def)
    qed
  qed
qed

text \<open>The process number of the flags is cut to 32 bits.\<close>

theorem pid_flag_wraps:
  assumes "0 < pid"
  shows "trace_cmd ok closeErr clock fs showEvents (pid + 2 ^ 32) noTUI tls = trace_cmd ok closeErr clock fs showEvents pid noTUI tls"
proof -
  have "(word_of_int (pid + 2 ^ 32) :: uint32) = word_of_int pid"
    by (simp add: word_of_int_eq_iff take_bit_eq_mod)
  then show ?thesis unfolding trace_cmd_def using assms by (simp only:) simp
qed

text \<open>An HTTP parser that takes anything for a request.\<close>

definition any_request :: http_lib where
  "any_request = \<lparr>ReadRequest = (\<lambda>buf. Inr \<lparr>Method = ''GET'', URLPath = ''/'', reqBody = []\<rparr>),
     ReadResponse = (\<lambda>buf req. Inl ''malformed'')\<rparr>"

lemma any_request_run:
  "\<exists>ex. streamer_Run any_request ascii_tables sorted_order [sample_write, sample_read] = Ret ([sample_write, sample_read], [ex]) \<and>
     exProtocol ex = ProtocolHTTP \<and> exHTTP ex \<noteq> None"
proof -
  have "sorted_order [sample_stream_key \<mapsto> sample_bufs] = [sample_stream_key]" by (simp add: sorted_order_def)
  then show ?thesis
    by (simp add: streamer_Run_def sample_run decode_def TryHTTP_def parseRequest_def parseResponse_def any_request_def
        sample_bufs_def Let_def del: run_stage.simps)
qed

definition sample_stores :: "bytes \<Rightarrow> bytes \<Rightarrow> filesystem \<Rightarrow> filesystem \<times> bool" where
  "sample_stores path data fs = (fs(path \<mapsto> \<lparr>content = data, read_fails = False\<rparr>), True)"

theorem record_then_run_witness:
  "\<exists>st (tc :: bytes TestCase) fs'.
     chan_reach (record_stage any_request ascii_tables sorted_order) Map.empty [sample_write, sample_read] st \<and>
     record_cmd (\<lambda>_. True) (\<lambda>_. None :: unit option) (Some (0, 0), 0) (\<lambda>_. None) (\<lambda>tc :: bytes TestCase. Some ''case'') sample_stores
       (\<lambda>c. record_collected st) 7 ''t.yaml'' ''t'' (\<lambda>_. None) = Some ({}, fs', None) \<and>
     snd (run_cmd (\<lambda>_. Some tc) (Some ''127.0.0.1:4000'') True True [] fs' ''t.yaml'' ''app'' []) = None"
proof -
  obtain ex where run: "streamer_Run any_request ascii_tables sorted_order [sample_write, sample_read] =
      Ret ([sample_write, sample_read], [ex])" and http: "exProtocol ex = ProtocolHTTP" "exHTTP ex \<noteq> None"
    using any_request_run by blast
  obtain st where reach: "chan_reach (record_stage any_request ascii_tables sorted_order) Map.empty [sample_write, sample_read] st"
    and stuck: "chan_stuck (record_stage any_request ascii_tables sorted_order) st"
    using chan_ends [of "record_stage any_request ascii_tables sorted_order" Map.empty "[sample_write, sample_read]"] by blast
  obtain held c where new: "collector_New (\<lambda>_. True) (\<lambda>_. None :: unit option) (Some (0, 0), 0) (word_of_int 7) {} = (held, Inr c)"
    by (simp add: collector_New_def tracepoints_def Let_def)
  obtain tc where build: "Build (\<lambda>_. None :: bytes option) ''t'' [ex] = (tc, None)"
    using http by (auto simp: Build_def build_step_def)
  have "0 < (7 :: int)" and "''t.yaml'' \<noteq> []" and "length [sample_write, sample_read] \<le> 64" by simp_all
  note args = this
  let ?fs = "(\<lambda>_. None)(''t.yaml'' \<mapsto> \<lparr>content = ''case'', read_fails = False\<rparr>)"
  have store: "sample_stores ''t.yaml'' ''case'' (\<lambda>_. None) = (?fs, True)" and read: "ReadFile ?fs ''t.yaml'' = Some ''case''"
    by (simp_all add: sample_stores_def ReadFile_def)
  from record_then_run [where marshal = "\<lambda>_. Some ''case''" and unmarshalYAML = "\<lambda>_. Some tc" and osWrite = sample_stores
      and fs = "\<lambda>_. None" and ok = "\<lambda>_. True" and closeErr = "\<lambda>_. None" and unmarshal = "\<lambda>_. None"
      and data = "''case''" and tc' = tc, OF args(1,2) _ new args(3) run reach stuck build refl refl refl store read, of "''127.0.0.1:4000''" True "[]" "''app''" "[]"]
  have "record_cmd (\<lambda>_. True) (\<lambda>_. None :: unit option) (Some (0, 0), 0) (\<lambda>_. None :: bytes option) (\<lambda>_. Some ''case'') sample_stores
      (\<lambda>c. record_collected st) 7 ''t.yaml'' ''t'' (\<lambda>_. None) = Some ({}, ?fs, None)"
    and "snd (run_cmd (\<lambda>_. Some tc) (Some ''127.0.0.1:4000'') True True [] ?fs ''t.yaml'' ''app'' []) = None"
    by simp_all
  with reach show ?thesis by blast
qed

theorem commands_release_kernel_witness:
  "\<exists>out err. trace_cmd (\<lambda>_. True) (\<lambda>_. None :: unit option) (Some (0, 0), 0) (\<lambda>_. None)
       (show_events (\<lambda>_. True) (\<lambda>_. 0) (\<lambda>_ _. None) (\<lambda>_. []) (\<lambda>_. Ret True)) 7 True True = Ret ({}, out, err)"
proof -
  let ?show = "show_events (\<lambda>_. True) (\<lambda>_. 0) (\<lambda>_ _. None) (\<lambda>_. []) (\<lambda>_. Ret True)"
  have "\<exists>held out. trace_cmd (\<lambda>_. True) (\<lambda>_. None :: unit option) (Some (0, 0), 0) (\<lambda>_. None) ?show 7 True True =
      Ret (held, out, Some (EnableTLSFailed (FindLibssl OpenMaps)))"
    by (simp add: trace_cmd_def collector_New_def tracepoints_def EnableTLS_def findMappedLibrary_def Let_def)
  then obtain held out where trace: "trace_cmd (\<lambda>_. True) (\<lambda>_. None :: unit option) (Some (0, 0), 0) (\<lambda>_. None) ?show 7 True True =
      Ret (held, out, Some (EnableTLSFailed (FindLibssl OpenMaps)))" by blast
  have "record_cmd (\<lambda>_. True) (\<lambda>_. None :: unit option) (Some (0, 0), 0) (\<lambda>_. None :: bytes option) (\<lambda>_. None)
      sample_stores (\<lambda>_. None) 0 ''t.yaml'' ''t'' (\<lambda>_. None) = Some ({}, \<lambda>_. None, Some PidRequired)"
    by (simp add: record_cmd_def)
  from commands_release_kernel [OF trace this] trace show ?thesis by (auto simp: released_def)
qed

end
