(* ===== verification/Program.thy ===== *)
theory Program
  imports Cli
begin

text \<open>
  \<open>cmd/wiremark/main.go\<close>: the command tree with its flags, what each command takes from them, the
  exit status, and how the command line that \<open>launch\<close> executes is read again. The parsing is
  cobra's and pflag's: parameters, of which the documented behaviour is assumed where it is used.
\<close>

section \<open>The command tree\<close>

datatype flag_value = IntFlag int | BoolFlag bool | StringFlag bytes

record flag_decl =
  flagName :: bytes
  flagShort :: bytes
  flagDefault :: flag_value

record command_decl =
  cmdUse :: bytes
  cmdFlags :: "flag_decl list"
  cmdMinArgs :: nat

definition traceDecl :: command_decl where
  "traceDecl = \<lparr>cmdUse = ''trace'',
     cmdFlags = [\<lparr>flagName = ''pid'', flagShort = [], flagDefault = IntFlag 0\<rparr>,
                 \<lparr>flagName = ''no-tui'', flagShort = [], flagDefault = BoolFlag False\<rparr>,
                 \<lparr>flagName = ''tls'', flagShort = [], flagDefault = BoolFlag False\<rparr>], cmdMinArgs = 0\<rparr>"

definition recordDecl :: command_decl where
  "recordDecl = \<lparr>cmdUse = ''record'',
     cmdFlags = [\<lparr>flagName = ''pid'', flagShort = [], flagDefault = IntFlag 0\<rparr>,
                 \<lparr>flagName = ''output'', flagShort = ''o'', flagDefault = StringFlag []\<rparr>,
                 \<lparr>flagName = ''name'', flagShort = [], flagDefault = StringFlag ''recorded-test''\<rparr>], cmdMinArgs = 0\<rparr>"

definition runDecl :: command_decl where
  "runDecl = \<lparr>cmdUse = ''run'', cmdFlags = [\<lparr>flagName = ''test'', flagShort = [], flagDefault = StringFlag []\<rparr>], cmdMinArgs = 1\<rparr>"

definition launchDecl :: command_decl where
  "launchDecl = \<lparr>cmdUse = ''launch'', cmdFlags = [], cmdMinArgs = 0\<rparr>"

definition rootCmd :: "command_decl list" where
  "rootCmd = [traceDecl, recordDecl, runDecl, launchDecl]"

section \<open>Invoking a command\<close>

type_synonym flag_values = "bytes \<rightharpoonup> flag_value"

definition flag_defaults :: "command_decl \<Rightarrow> flag_values" where
  "flag_defaults c = map_of (map (\<lambda>d. (flagName d, flagDefault d)) (cmdFlags c))"

text \<open>What cobra makes of the arguments: no command runs (an error or a help text), or one does.\<close>

datatype cobra_result = NotInvoked bool | Invoked bytes flag_values "bytes list"

definition int_flag :: "flag_values \<Rightarrow> bytes \<Rightarrow> int" where
  "int_flag vals n = (case vals n of Some (IntFlag i) \<Rightarrow> i | _ \<Rightarrow> 0)"

definition bool_flag :: "flag_values \<Rightarrow> bytes \<Rightarrow> bool" where
  "bool_flag vals n = (case vals n of Some (BoolFlag b) \<Rightarrow> b | _ \<Rightarrow> False)"

definition string_flag :: "flag_values \<Rightarrow> bytes \<Rightarrow> bytes" where
  "string_flag vals n = (case vals n of Some (StringFlag s) \<Rightarrow> s | _ \<Rightarrow> [])"

text \<open>The variables the flags of each command are bound to, as its \<open>RunE\<close> gets them.\<close>

datatype invocation =
  DoTrace int bool bool | DoRecord int bytes bytes | DoRun bytes bytes "bytes list" | DoLaunch

definition trace_vars :: "flag_values \<Rightarrow> invocation" where
  "trace_vars vals = DoTrace (int_flag vals ''pid'') (bool_flag vals ''no-tui'') (bool_flag vals ''tls'')"

definition record_vars :: "flag_values \<Rightarrow> invocation" where
  "record_vars vals = DoRecord (int_flag vals ''pid'') (string_flag vals ''output'') (string_flag vals ''name'')"

definition run_vars :: "flag_values \<Rightarrow> bytes list \<Rightarrow> invocation option" where
  "run_vars vals args = (case args of [] \<Rightarrow> None | prog # rest \<Rightarrow> Some (DoRun (string_flag vals ''test'') prog rest))"

definition invoke :: "bytes \<Rightarrow> flag_values \<Rightarrow> bytes list \<Rightarrow> invocation option" where
  "invoke cmd vals args =
     (if cmd = ''trace'' then Some (trace_vars vals)
      else if cmd = ''record'' then Some (record_vars vals)
      else if cmd = ''run'' then run_vars vals args
      else if cmd = ''launch'' then Some DoLaunch
      else None)"

lemmas invoke_defs = invoke_def trace_vars_def record_vars_def run_vars_def

text \<open>
  \<open>main\<close>: the exit status. \<open>cobra\<close> reads the arguments, \<open>commands\<close> runs an invocation to its error
  (theory \<open>Cli\<close>); no error and a help text give 0.
\<close>

definition wiremark_main ::
  "(command_decl list \<Rightarrow> bytes list \<Rightarrow> cobra_result) \<Rightarrow> (invocation \<Rightarrow> cli_error option) \<Rightarrow> bytes list \<Rightarrow> nat" where
  "wiremark_main cobra commands argv =
     (case cobra rootCmd argv of
        NotInvoked failed \<Rightarrow> if failed then 1 else 0
      | Invoked cmd vals args \<Rightarrow>
          (case invoke cmd vals args of
             None \<Rightarrow> 1
           | Some action \<Rightarrow> if commands action \<noteq> None then 1 else 0))"

section \<open>The documented behaviour of the parsers\<close>

text \<open>
  pflag reads the arguments from left to right, starting from the values \<open>v\<close>: \<open>--name\<close> takes the next
  argument as its value unless the flag is boolean, so does the one-letter form, and \<open>--\<close> ends
  the flags.
\<close>

type_synonym flag_parser = "flag_values \<Rightarrow> bytes list \<Rightarrow> (flag_values \<times> bytes list) option"

definition flag_law :: "flag_parser \<Rightarrow> flag_decl \<Rightarrow> bool" where
  "flag_law parse d \<longleftrightarrow> (\<forall>v rest.
     case flagDefault d of
       IntFlag i0 \<Rightarrow> \<forall>i. - (2 ^ 63) \<le> i \<and> i < 2 ^ 63 \<longrightarrow>
         parse v ((''--'' @ flagName d) # Itoa i # rest) = parse (v(flagName d \<mapsto> IntFlag i)) rest
     | BoolFlag b0 \<Rightarrow> parse v ((''--'' @ flagName d) # rest) = parse (v(flagName d \<mapsto> BoolFlag True)) rest
     | StringFlag s0 \<Rightarrow> \<forall>s.
         parse v ((''--'' @ flagName d) # s # rest) = parse (v(flagName d \<mapsto> StringFlag s)) rest \<and>
         (flagShort d \<noteq> [] \<longrightarrow> parse v ((''-'' @ flagShort d) # s # rest) = parse (v(flagName d \<mapsto> StringFlag s)) rest))"

definition pflag_ok :: "(flag_decl list \<Rightarrow> flag_parser) \<Rightarrow> bool" where
  "pflag_ok pflag \<longleftrightarrow> (\<forall>c \<in> set rootCmd.
     (\<forall>v. pflag (cmdFlags c) v [] = Some (v, [])) \<and>
     (\<forall>v rest. pflag (cmdFlags c) v (''--'' # rest) = Some (v, rest)) \<and>
     (\<forall>d \<in> set (cmdFlags c). flag_law (pflag (cmdFlags c)) d))"

text \<open>cobra runs the command the first argument names, with the flags and arguments pflag finds.\<close>

definition cobra_ok ::
  "(flag_decl list \<Rightarrow> flag_parser) \<Rightarrow> (command_decl list \<Rightarrow> bytes list \<Rightarrow> cobra_result) \<Rightarrow> bool" where
  "cobra_ok pflag cobra \<longleftrightarrow> (\<forall>c \<in> set rootCmd. \<forall>rest vals args.
     pflag (cmdFlags c) (flag_defaults c) rest = Some (vals, args) \<and> cmdMinArgs c \<le> length args \<longrightarrow>
       cobra rootCmd (cmdUse c # rest) = Invoked (cmdUse c) vals args)"

lemma pflag_trace:
  assumes "pflag_ok pflag"
  shows "pflag (cmdFlags traceDecl) v [] = Some (v, [])"
    "- (2 ^ 63) \<le> i \<Longrightarrow> i < 2 ^ 63 \<Longrightarrow>
       pflag (cmdFlags traceDecl) v (''--pid'' # Itoa i # rest) = pflag (cmdFlags traceDecl) (v(''pid'' \<mapsto> IntFlag i)) rest"
    "pflag (cmdFlags traceDecl) v (''--no-tui'' # rest) = pflag (cmdFlags traceDecl) (v(''no-tui'' \<mapsto> BoolFlag True)) rest"
    "pflag (cmdFlags traceDecl) v (''--tls'' # rest) = pflag (cmdFlags traceDecl) (v(''tls'' \<mapsto> BoolFlag True)) rest"
proof -
  have "traceDecl \<in> set rootCmd" by (simp add: rootCmd_def)
  with assms have "\<forall>v. pflag (cmdFlags traceDecl) v [] = Some (v, [])"
    and "\<forall>d \<in> set (cmdFlags traceDecl). flag_law (pflag (cmdFlags traceDecl)) d" unfolding pflag_ok_def by blast+
  then show "pflag (cmdFlags traceDecl) v [] = Some (v, [])"
    "- (2 ^ 63) \<le> i \<Longrightarrow> i < 2 ^ 63 \<Longrightarrow>
       pflag (cmdFlags traceDecl) v (''--pid'' # Itoa i # rest) = pflag (cmdFlags traceDecl) (v(''pid'' \<mapsto> IntFlag i)) rest"
    "pflag (cmdFlags traceDecl) v (''--no-tui'' # rest) = pflag (cmdFlags traceDecl) (v(''no-tui'' \<mapsto> BoolFlag True)) rest"
    "pflag (cmdFlags traceDecl) v (''--tls'' # rest) = pflag (cmdFlags traceDecl) (v(''tls'' \<mapsto> BoolFlag True)) rest"
    by (simp_all add: traceDecl_def flag_law_def)
qed

lemma pflag_record:
  assumes "pflag_ok pflag" and "- (2 ^ 63) \<le> i" and "i < 2 ^ 63"
  shows "pflag (cmdFlags recordDecl) v [''--pid'', Itoa i, ''-o'', out] =
    Some (v(''pid'' \<mapsto> IntFlag i, ''output'' \<mapsto> StringFlag out), [])"
proof -
  have "recordDecl \<in> set rootCmd" by (simp add: rootCmd_def)
  with assms(1) have "\<forall>v. pflag (cmdFlags recordDecl) v [] = Some (v, [])"
    and "\<forall>d \<in> set (cmdFlags recordDecl). flag_law (pflag (cmdFlags recordDecl)) d" unfolding pflag_ok_def by blast+
  then show ?thesis using assms(2,3) by (simp add: recordDecl_def flag_law_def)
qed

lemma pflag_run:
  assumes "pflag_ok pflag"
  shows "pflag (cmdFlags runDecl) v (''--test'' # path # ''--'' # rest) = Some (v(''test'' \<mapsto> StringFlag path), rest)"
proof -
  have "runDecl \<in> set rootCmd" by (simp add: rootCmd_def)
  with assms have "\<forall>v rest. pflag (cmdFlags runDecl) v (''--'' # rest) = Some (v, rest)"
    and "\<forall>d \<in> set (cmdFlags runDecl). flag_law (pflag (cmdFlags runDecl)) d" unfolding pflag_ok_def by blast+
  then show ?thesis by (simp add: runDecl_def flag_law_def)
qed

section \<open>Properties\<close>

text \<open>The arguments make cobra invoke a command that becomes \<open>action\<close>.\<close>

definition runs_as :: "(command_decl list \<Rightarrow> bytes list \<Rightarrow> cobra_result) \<Rightarrow> bytes list \<Rightarrow> invocation \<Rightarrow> bool" where
  "runs_as cobra argv action \<longleftrightarrow>
     (\<exists>cmd vals args. cobra rootCmd argv = Invoked cmd vals args \<and> invoke cmd vals args = Some action)"

lemma runs_as_main: "runs_as cobra argv action \<Longrightarrow> wiremark_main cobra commands argv = (if commands action = None then 0 else 1)"
  by (auto simp: runs_as_def wiremark_main_def)

lemma cobra_dispatch:
  assumes "cobra_ok pflag cobra" and "c \<in> set rootCmd" and "pflag (cmdFlags c) (flag_defaults c) rest = Some (vals, args)"
    and "cmdMinArgs c \<le> length args" and "invoke (cmdUse c) vals args = Some action"
  shows "runs_as cobra (cmdUse c # rest) action"
  using assms unfolding cobra_ok_def runs_as_def by blast

lemma pid_range: "- (2 ^ 63) \<le> uint (pid :: uint32)" "uint (pid :: uint32) < 2 ^ 63"
proof -
  have "uint pid < 2 ^ 32" using unsigned_less [of pid, where 'a = int] by simp
  then show "uint pid < 2 ^ 63" by simp
  show "- (2 ^ 63) \<le> uint pid" by (rule order.trans [of _ 0]) simp_all
qed

lemma trace_runs:
  assumes "pflag_ok pflag" and cobra: "cobra_ok pflag cobra"
  shows "runs_as cobra (traceArgs md pid) (DoTrace (uint pid) (md = ModeTraceNoTUI) (md = ModeTraceTLS))"
proof -
  note trace = pflag_trace [OF assms(1)]
  let ?flags = "if md = ModeTraceNoTUI then [''--no-tui''] else if md = ModeTraceTLS then [''--tls''] else []"
  have tr: "traceDecl \<in> set rootCmd" "cmdUse traceDecl = ''trace''" "cmdMinArgs traceDecl = 0"
    "flag_defaults traceDecl = [''tls'' \<mapsto> BoolFlag False, ''no-tui'' \<mapsto> BoolFlag False, ''pid'' \<mapsto> IntFlag 0]"
    by (simp_all add: rootCmd_def traceDecl_def flag_defaults_def)
  let ?v = "(flag_defaults traceDecl)(''pid'' \<mapsto> IntFlag (uint pid))"
  obtain vals where vals: "pflag (cmdFlags traceDecl) (flag_defaults traceDecl) ([''--pid'', Itoa (uint pid)] @ ?flags) = Some (vals, [])"
    and vars: "trace_vars vals = DoTrace (uint pid) (md = ModeTraceNoTUI) (md = ModeTraceTLS)"
  proof (cases md)
    case ModeTraceNoTUI
    show thesis
      by (rule that [of "?v(''no-tui'' \<mapsto> BoolFlag True)"])
        (simp_all add: ModeTraceNoTUI trace(1,3,4) trace(2) [OF pid_range], simp add: tr trace_vars_def int_flag_def bool_flag_def)
  next
    case ModeTraceTLS
    show thesis
      by (rule that [of "?v(''tls'' \<mapsto> BoolFlag True)"])
        (simp_all add: ModeTraceTLS trace(1,3,4) trace(2) [OF pid_range], simp add: tr trace_vars_def int_flag_def bool_flag_def)
  qed (rule that [of ?v]; simp add: trace(1,3,4) trace(2) [OF pid_range]; simp add: tr trace_vars_def int_flag_def bool_flag_def)+
  have "runs_as cobra (cmdUse traceDecl # [''--pid'', Itoa (uint pid)] @ ?flags)
      (DoTrace (uint pid) (md = ModeTraceNoTUI) (md = ModeTraceTLS))"
    by (rule cobra_dispatch [OF cobra tr(1) vals]) (simp_all add: tr invoke_def vars)
  then show ?thesis by (simp add: traceArgs_def tr(2))
qed

lemma record_runs:
  assumes "pflag_ok pflag" and "cobra_ok pflag cobra"
  shows "runs_as cobra [''record'', ''--pid'', Itoa (uint (pid :: uint32)), ''-o'', out] (DoRecord (uint pid) out ''recorded-test'')"
proof -
  have "runs_as cobra (cmdUse recordDecl # [''--pid'', Itoa (uint pid), ''-o'', out]) (DoRecord (uint pid) out ''recorded-test'')"
    by (rule cobra_dispatch [OF assms(2) _ pflag_record [OF assms(1) pid_range]])
      (simp_all add: rootCmd_def recordDecl_def invoke_defs int_flag_def string_flag_def flag_defaults_def)
  then show ?thesis by (simp add: recordDecl_def)
qed

lemma run_runs:
  assumes "pflag_ok pflag" and "cobra_ok pflag cobra"
  shows "runs_as cobra ([''run'', ''--test'', yaml, ''--''] @ prog # words) (DoRun yaml prog words)"
proof -
  have "runs_as cobra (cmdUse runDecl # ''--test'' # yaml # ''--'' # prog # words) (DoRun yaml prog words)"
    by (rule cobra_dispatch [OF assms(2) _ pflag_run [OF assms(1)]])
      (simp_all add: rootCmd_def runDecl_def invoke_defs string_flag_def)
  then show ?thesis by (simp add: runDecl_def)
qed

text \<open>
  What the user asked for in a session of the menu: the mode selected when Enter ended the first
  stage; for a trace or a recording the process selected when Enter ended the second, and for a
  recording the path typed when Enter ended the third; for a replay the path of the test case and the
  command line typed when Enter ended those stages, the command line split at white space.
\<close>

definition asked_for ::
  "('ml, 'pl, 'ti, 'm) bubbles \<Rightarrow> ('ml, 'pl, 'ti) launcher \<Rightarrow> (int \<times> 'm launcher_msg) list \<Rightarrow> invocation \<Rightarrow> bool" where
  "asked_for B m0 msgs action \<longleftrightarrow> (\<exists>md. mode_chosen B m0 msgs md \<and>
     (case md of
        ModeRun \<Rightarrow> \<exists>yaml line prog words. text_chosen B m0 msgs stageYAML yaml \<and> text_chosen B m0 msgs stageCommand line \<and>
          Fields line = prog # words \<and> action = DoRun yaml prog words
      | ModeRecord \<Rightarrow> \<exists>pid out. target_chosen B m0 msgs pid \<and> text_chosen B m0 msgs stageOutput out \<and>
          action = DoRecord (uint pid) out ''recorded-test''
      | _ \<Rightarrow> \<exists>pid. target_chosen B m0 msgs pid \<and> action = DoTrace (uint pid) (md = ModeTraceNoTUI) (md = ModeTraceTLS)))"

lemma asked_for_unique:
  assumes "asked_for B m0 msgs a" and "asked_for B m0 msgs a'"
  shows "a = a'"
proof -
  obtain md where md: "mode_chosen B m0 msgs md" using assms(1) by (auto simp: asked_for_def)
  then have "mode_chosen B m0 msgs md' \<longleftrightarrow> md' = md" for md' using chosen_unique(1) by metis
  with assms chosen_unique(2,3) [of B m0 msgs] show ?thesis
    unfolding asked_for_def by (cases md) (simp_all, (metis list.inject)+)
qed

lemma session_asked_for:
  assumes "stage m0 = stageMode" and m: "m = launcher_session B m0 msgs" and fin: "stage m = stageDone"
    and "pflag_ok pflag" and "cobra_ok pflag cobra"
  shows "\<exists>action. asked_for B m0 msgs action \<and> runs_as cobra (Args (result m)) action \<and>
    NeedsSudo (result m) = (\<nexists>yaml prog words. action = DoRun yaml prog words)"
proof -
  have hist: "launcher_history B m0 msgs m" and inv: "launcher_inv m" using history_session [OF assms(1)] m by auto
  have r: "command_for (mode m) (launchPID m) (yamlPath m) (result m)" using inv fin by (simp add: launcher_inv_def)
  have md: "mode_chosen B m0 msgs (mode m)" using hist fin by (simp add: launcher_history_def)
  consider (rec) "mode m = ModeRecord" | (run) "mode m = ModeRun" | (trace) "mode m \<noteq> ModeRecord" "mode m \<noteq> ModeRun" by blast
  then show ?thesis
  proof cases
    case rec
    then obtain out where out: "text_chosen B m0 msgs stageOutput out"
      "Args (result m) = [''record'', ''--pid'', Itoa (uint (launchPID m)), ''-o'', out]" "target_chosen B m0 msgs (launchPID m)"
      using hist fin by (auto simp: launcher_history_def)
    have "runs_as cobra (Args (result m)) (DoRecord (uint (launchPID m)) out ''recorded-test'')"
      unfolding out(2) by (rule record_runs [OF assms(4,5)])
    moreover have "asked_for B m0 msgs (DoRecord (uint (launchPID m)) out ''recorded-test'')"
      using md rec out unfolding asked_for_def by (intro exI [of _ ModeRecord]) auto
    moreover have "NeedsSudo (result m)" using r rec by (auto simp: command_for_def)
    ultimately show ?thesis by blast
  next
    case run
    then obtain line where line: "text_chosen B m0 msgs stageCommand line"
      "Args (result m) = [''run'', ''--test'', yamlPath m, ''--''] @ Fields line" "text_chosen B m0 msgs stageYAML (yamlPath m)"
      using hist fin by (auto simp: launcher_history_def)
    have "Fields line \<noteq> []" using r run line(2) by (auto simp: command_for_def)
    then obtain prog words where words: "Fields line = prog # words" by (cases "Fields line") auto
    have "runs_as cobra (Args (result m)) (DoRun (yamlPath m) prog words)"
      unfolding line(2) words by (rule run_runs [OF assms(4,5)])
    moreover have "asked_for B m0 msgs (DoRun (yamlPath m) prog words)"
      using md run line words unfolding asked_for_def by (intro exI [of _ ModeRun]) auto
    moreover have "\<not> NeedsSudo (result m)" using r run by (auto simp: command_for_def)
    ultimately show ?thesis by blast
  next
    case trace
    let ?action = "DoTrace (uint (launchPID m)) (mode m = ModeTraceNoTUI) (mode m = ModeTraceTLS)"
    have res: "result m = \<lparr>Args = traceArgs (mode m) (launchPID m), NeedsSudo = True\<rparr>"
      using r trace by (cases "mode m") (simp_all add: command_for_def)
    then have "runs_as cobra (Args (result m)) ?action" using trace_runs [OF assms(4,5)] by simp
    moreover have "target_chosen B m0 msgs (launchPID m)" using hist fin trace by (simp add: launcher_history_def)
    with md trace have "asked_for B m0 msgs ?action"
      unfolding asked_for_def by (intro exI [of _ "mode m"]) (cases "mode m"; auto)
    ultimately show ?thesis using res by (intro exI [of _ ?action]) simp
  qed
qed

text \<open>
  C21: What the user asks for in the menu is what \<open>launch\<close> runs. After a completed session, whatever
  messages it took and however the widgets behave, there is exactly one thing the user asked for: a
  trace of the process selected with the flags of the selected mode, a recording of it to the path typed,
  under the default name, or a replay of the typed test case under the typed command with its
  arguments. \<open>launch\<close> executes this program, under \<open>sudo\<close> unless it is a replay, with arguments from
  which \<open>main\<close> runs exactly that, and exits with its status.
\<close>

theorem launch_reaches_command:
  assumes "ListProcesses fs procDir = Some ps" and newM: "newM = launcher_newModel newModes newProcs ti"
    and m0: "m0 = newM ps (findFirstYAML cwd)" and m: "m = launcher_session B m0 msgs" and "program m0 = Some m"
    and fin: "stage m = stageDone" and "pflag_ok pflag" and "cobra_ok pflag cobra"
  shows "\<exists>path argv args action. launch_cmd (launcher_Run fs procDir cwd newM program) (Some self) (Some sudo) = LaunchExec path argv \<and>
    (\<forall>a. asked_for B m0 msgs a \<longleftrightarrow> a = action) \<and>
    (case action of DoRun yaml prog words \<Rightarrow> path = self \<and> argv = [self] @ args
     | _ \<Rightarrow> path = sudo \<and> argv = [sudo, self] @ args) \<and>
    runs_as cobra args action \<and> wiremark_main cobra commands args = (if commands action = None then 0 else 1)"
proof -
  have "stage m0 = stageMode" by (simp add: m0 newM launcher_newModel_def)
  from session_asked_for [OF this m fin assms(7,8)] obtain action
    where action: "asked_for B m0 msgs action" "runs_as cobra (Args (result m)) action"
      and sudo: "NeedsSudo (result m) = (\<nexists>yaml prog words. action = DoRun yaml prog words)" by blast
  have only: "\<forall>a. asked_for B m0 msgs a \<longleftrightarrow> a = action" using action(1) asked_for_unique by metis
  have run: "launcher_Run fs procDir cwd newM program = Some (result m, True)"
    using assms(1,5) fin by (simp add: launcher_Run_def m0)
  let ?path = "if NeedsSudo (result m) then sudo else self"
    and ?pre = "if NeedsSudo (result m) then [sudo, self] else [self]"
  have "launch_cmd (launcher_Run fs procDir cwd newM program) (Some self) (Some sudo) = LaunchExec ?path (?pre @ Args (result m))"
    using run by (simp add: launch_cmd_def)
  with only action(2) runs_as_main [OF action(2)] sudo show ?thesis
    by (intro exI [of _ ?path] exI [of _ "?pre @ Args (result m)"] exI [of _ "Args (result m)"] exI [of _ action])
      (cases action; simp)
qed

text \<open>A parser with the documented behaviour.\<close>

fun plain_pflag :: "flag_decl list \<Rightarrow> flag_parser" where
  "plain_pflag ds v [] = Some (v, [])"
| "plain_pflag ds v (a # rest) =
     (if a = ''--'' then Some (v, rest)
      else (case find (\<lambda>d. a = ''--'' @ flagName d \<or> flagShort d \<noteq> [] \<and> a = ''-'' @ flagShort d) ds of
              None \<Rightarrow> None
            | Some d \<Rightarrow>
                (case flagDefault d of
                   BoolFlag b \<Rightarrow> plain_pflag ds (v(flagName d \<mapsto> BoolFlag True)) rest
                 | StringFlag s0 \<Rightarrow> (case rest of [] \<Rightarrow> None | s # rest' \<Rightarrow> plain_pflag ds (v(flagName d \<mapsto> StringFlag s)) rest')
                 | IntFlag i0 \<Rightarrow>
                     (case rest of [] \<Rightarrow> None
                      | s # rest' \<Rightarrow> (case Atoi s of None \<Rightarrow> None | Some i \<Rightarrow> plain_pflag ds (v(flagName d \<mapsto> IntFlag i)) rest')))))"

definition plain_cobra :: "command_decl list \<Rightarrow> bytes list \<Rightarrow> cobra_result" where
  "plain_cobra cs argv =
     (case argv of
        [] \<Rightarrow> NotInvoked False
      | a # rest \<Rightarrow>
          (case find (\<lambda>c. cmdUse c = a) cs of
             None \<Rightarrow> NotInvoked True
           | Some c \<Rightarrow>
               (case plain_pflag (cmdFlags c) (flag_defaults c) rest of
                  None \<Rightarrow> NotInvoked True
                | Some (vals, args) \<Rightarrow> if cmdMinArgs c \<le> length args then Invoked (cmdUse c) vals args else NotInvoked True)))"

lemma Atoi_Itoa:
  assumes "- (2 ^ 63) \<le> i" and "i < 2 ^ 63"
  shows "Atoi (Itoa i) = Some i"
proof (cases "i < 0")
  case True
  then have "nat (- i) \<le> 2 ^ 63" using assms(1) by simp
  with True dec_val_itoa_nat [of "nat (- i)"] itoa_nat_nonempty [of "nat (- i)"] show ?thesis
    by (simp add: Itoa_def Atoi_def digits_val_def)
next
  case False
  then have "nat i < 2 ^ 63" using assms(2) by simp
  with False Atoi_itoa_nat [of "nat i"] show ?thesis by (simp add: Itoa_def)
qed

lemma plain_pflag_ok: "pflag_ok plain_pflag"
  unfolding pflag_ok_def
  by (auto simp: rootCmd_def traceDecl_def recordDecl_def runDecl_def launchDecl_def flag_law_def Atoi_Itoa)

lemma plain_cobra_ok: "cobra_ok plain_pflag plain_cobra"
  by (auto simp: cobra_ok_def plain_cobra_def rootCmd_def traceDecl_def recordDecl_def runDecl_def launchDecl_def)

theorem launch_reaches_command_witness:
  "\<exists>argv args. launch_cmd (launcher_Run (\<lambda>_. None) (Some []) (Some [(''t.yaml'', False)])
       (launcher_newModel (\<lambda>_ _. ()) (\<lambda>_ _. ()) []) (\<lambda>m. Some (launcher_session plain_bubbles m sample_keys)))
       (Some ''wiremark'') (Some ''sudo'') = LaunchExec ''wiremark'' argv \<and>
     argv = [''wiremark''] @ args \<and> runs_as plain_cobra args (DoRun ''t.yaml'' ''app'' []) \<and>
     wiremark_main plain_cobra (\<lambda>_. None) args = 0"
proof -
  let ?newM = "launcher_newModel (\<lambda>_ _. ()) (\<lambda>_ _. ()) []" and ?cwd = "Some [(''t.yaml'', False)]"
    and ?program = "\<lambda>m. Some (launcher_session plain_bubbles m sample_keys)"
  have cwd: "findFirstYAML ?cwd = ''t.yaml''" by (simp add: findFirstYAML_def Ext_def)
  have ps: "ListProcesses (\<lambda>_. None) (Some []) = Some []" by (simp add: ListProcesses_def List.map_filter_def)
  define m0 :: "(unit, unit, bytes) launcher" where "m0 = ?newM [] (findFirstYAML ?cwd)"
  define m where "m = launcher_session plain_bubbles m0 sample_keys"
  note session = launcher_session_def launcher_newModel_def sample_keys_def launcher_Update_def
    confirm_mode_def confirm_yaml_def confirm_command_def forward_def prompt_def plain_bubbles_def
    graphic_def TrimSpace_graphic Fields_graphic Let_def
  have finished: "stage m = stageDone \<and> result m = \<lparr>Args = [''run'', ''--test'', ''t.yaml'', ''--'', ''app''], NeedsSudo = False\<rparr>"
    unfolding m_def m0_def cwd by (simp add: session)
  then have launch: "launch_cmd (launcher_Run (\<lambda>_. None) (Some []) ?cwd ?newM ?program) (Some ''wiremark'') (Some ''sudo'') =
      LaunchExec ''wiremark'' [''wiremark'', ''run'', ''--test'', ''t.yaml'', ''--'', ''app'']"
    by (simp add: launcher_Run_def ps launch_cmd_def flip: m0_def) (simp add: finished flip: m_def)
  have app: "runs_as plain_cobra ([''run'', ''--test'', ''t.yaml'', ''--''] @ ''app'' # []) (DoRun ''t.yaml'' ''app'' [])"
    by (rule run_runs [OF plain_pflag_ok plain_cobra_ok])
  have "?program m0 = Some m" by (simp add: m_def)
  from launch_reaches_command [where newM = ?newM and program = ?program and commands = "\<lambda>_. None",
      OF ps refl m0_def m_def this _ plain_pflag_ok plain_cobra_ok, of "''wiremark''" "''sudo''"] finished
  obtain path argv args action where "LaunchExec ''wiremark'' [''wiremark'', ''run'', ''--test'', ''t.yaml'', ''--'', ''app''] = LaunchExec path argv"
    and "case action of DoRun yaml prog words \<Rightarrow> path = ''wiremark'' \<and> argv = [''wiremark''] @ args
      | _ \<Rightarrow> path = ''sudo'' \<and> argv = [''sudo'', ''wiremark''] @ args"
    and "wiremark_main plain_cobra (\<lambda>_. None) args = 0"
    unfolding launch by auto
  then have "args = [''run'', ''--test'', ''t.yaml'', ''--'', ''app'']" and "wiremark_main plain_cobra (\<lambda>_. None) args = 0"
    by (auto split: invocation.splits)
  with app launch show ?thesis by auto
qed

end
