(* ===== verification/Kernel.thy ===== *)
theory Kernel
  imports Collector
begin

text \<open>
  \<open>src/bpf\<close>: the kernel programs, which submit the events the collector reads. A program runs on
  behalf of one thread at one entry to or exit from a traced function; what it gets from the kernel
  there (the thread, the clock, a reserved ring buffer slot with whatever it held before, whether
  the stash takes an entry, the memory of the process) is a record, its arguments are those of the
  call. The state is the two maps in which arguments wait for the return of the call.
\<close>

section \<open>Programs\<close>

text \<open>
  \<open>userMem a n\<close> is \<open>bpf_probe_read_user\<close> of \<open>n\<close> bytes at \<open>a\<close>: the bytes, or none if they cannot be
  read (the helper then clears the destination). \<open>slot\<close> is none if no space could be reserved.
\<close>

record kctx =
  pidTgid :: uint64
  ktime :: uint64
  slot :: "bytes option"
  stashOk :: bool
  userMem :: "uint64 \<Rightarrow> nat \<Rightarrow> bytes option"

record kstate =
  readStash :: "uint64 \<rightharpoonup> uint64 \<times> int32"
  sslStash :: "uint64 \<rightharpoonup> uint64 \<times> uint64"

definition pid_matches :: "uint32 \<Rightarrow> kctx \<Rightarrow> bool" where
  "pid_matches target c \<longleftrightarrow> target \<noteq> 0 \<and> ucast (drop_bit 32 (pidTgid c)) = target"

definition fill_common :: "kctx \<Rightarrow> uint32 \<Rightarrow> bytes \<Rightarrow> event" where
  "fill_common c opn stale =
     \<lparr>PID = ucast (drop_bit 32 (pidTgid c)), TID = ucast (pidTgid c), Timestamp = ktime c, FD = 0, Operation = opn,
      RetVal = 0, SSLPtr = 0, RemoteAddr = 0, RemotePort = 0, TotalLen = 0, DataLen = 0, Data = stale\<rparr>"

text \<open>The length that is copied: clamped to \<open>DATA_CAP - 1\<close>, then masked for the verifier.\<close>

definition capture_len :: "uint32 \<Rightarrow> uint32" where
  "capture_len cnt = and (if 4095 < cnt then 4095 else cnt) 4095"

definition capture :: "kctx \<Rightarrow> uint64 \<Rightarrow> uint32 \<Rightarrow> event \<Rightarrow> event" where
  "capture c addr cnt e =
     (let len = capture_len cnt; rest = drop (unat len) (Data e) in
      case userMem c addr (unat len) of
        None \<Rightarrow> e\<lparr>Data := replicate (unat len) (CHR 0x00) @ rest\<rparr>
      | Some bs \<Rightarrow> e\<lparr>Data := bs @ rest, DataLen := len\<rparr>)"

text \<open>\<open>bpf_ntohs\<close> of the port, and the little-endian fields of \<open>struct sockaddr_in\<close>.\<close>

definition AF_INET :: nat where "AF_INET = 2"

definition remote_of :: "bytes \<Rightarrow> event \<Rightarrow> event" where
  "remote_of sa e =
     (if le_val (take 2 sa) = AF_INET
      then e\<lparr>RemoteAddr := of_nat (le_val (take 4 (drop 4 sa))),
             RemotePort := of_nat (of_char (sa ! 3) + 256 * of_char (sa ! 2))\<rparr>
      else e)"

definition enter_connect :: "uint32 \<Rightarrow> kctx \<Rightarrow> uint64 \<Rightarrow> uint64 \<Rightarrow> kstate \<Rightarrow> kstate \<times> event option" where
  "enter_connect target c fd addr s =
     (if \<not> pid_matches target c then (s, None)
      else (case slot c of
              None \<Rightarrow> (s, None)
            | Some stale \<Rightarrow>
                let e = (fill_common c OpConnect stale)\<lparr>FD := ucast fd\<rparr> in
                (s, Some (case userMem c addr 16 of None \<Rightarrow> e | Some sa \<Rightarrow> remote_of sa e))))"

definition enter_write :: "uint32 \<Rightarrow> kctx \<Rightarrow> uint64 \<Rightarrow> uint64 \<Rightarrow> uint64 \<Rightarrow> kstate \<Rightarrow> kstate \<times> event option" where
  "enter_write target c fd buf cnt s =
     (if \<not> pid_matches target c then (s, None)
      else (case slot c of
              None \<Rightarrow> (s, None)
            | Some stale \<Rightarrow>
                (s, Some (capture c buf (ucast cnt) ((fill_common c OpWrite stale)\<lparr>FD := ucast fd, TotalLen := ucast cnt\<rparr>)))))"

definition enter_read :: "uint32 \<Rightarrow> kctx \<Rightarrow> uint64 \<Rightarrow> uint64 \<Rightarrow> kstate \<Rightarrow> kstate \<times> event option" where
  "enter_read target c fd buf s =
     (if \<not> pid_matches target c then (s, None)
      else (if stashOk c then s\<lparr>readStash := (readStash s)(pidTgid c \<mapsto> (buf, ucast fd))\<rparr> else s, None))"

definition exit_read :: "uint32 \<Rightarrow> kctx \<Rightarrow> uint64 \<Rightarrow> kstate \<Rightarrow> kstate \<times> event option" where
  "exit_read target c ret s =
     (if \<not> pid_matches target c then (s, None)
      else (case readStash s (pidTgid c) of
              None \<Rightarrow> (s, None)
            | Some (buf, fd) \<Rightarrow>
                let s' = s\<lparr>readStash := (readStash s)(pidTgid c := None)\<rparr> in
                if sint ret \<le> 0 then (s', None)
                else (case slot c of
                        None \<Rightarrow> (s', None)
                      | Some stale \<Rightarrow>
                          (s', Some (capture c buf (ucast ret)
                             ((fill_common c OpRead stale)\<lparr>FD := fd, RetVal := ucast ret, TotalLen := ucast ret\<rparr>))))))"

definition enter_close :: "uint32 \<Rightarrow> kctx \<Rightarrow> uint64 \<Rightarrow> kstate \<Rightarrow> kstate \<times> event option" where
  "enter_close target c fd s =
     (if \<not> pid_matches target c then (s, None)
      else (case slot c of
              None \<Rightarrow> (s, None)
            | Some stale \<Rightarrow> (s, Some ((fill_common c OpClose stale)\<lparr>FD := ucast fd\<rparr>))))"

definition ssl_write :: "uint32 \<Rightarrow> kctx \<Rightarrow> uint64 \<Rightarrow> uint64 \<Rightarrow> uint32 \<Rightarrow> kstate \<Rightarrow> kstate \<times> event option" where
  "ssl_write target c ssl buf num s =
     (if \<not> pid_matches target c then (s, None)
      else (case slot c of
              None \<Rightarrow> (s, None)
            | Some stale \<Rightarrow>
                (s, Some (capture c buf num ((fill_common c OpSSLWrite stale)\<lparr>FD := -1, SSLPtr := ssl, TotalLen := num\<rparr>)))))"

definition ssl_read_enter :: "uint32 \<Rightarrow> kctx \<Rightarrow> uint64 \<Rightarrow> uint64 \<Rightarrow> kstate \<Rightarrow> kstate \<times> event option" where
  "ssl_read_enter target c ssl buf s =
     (if \<not> pid_matches target c then (s, None)
      else (if stashOk c then s\<lparr>sslStash := (sslStash s)(pidTgid c \<mapsto> (ssl, buf))\<rparr> else s, None))"

definition ssl_read_exit :: "uint32 \<Rightarrow> kctx \<Rightarrow> int32 \<Rightarrow> kstate \<Rightarrow> kstate \<times> event option" where
  "ssl_read_exit target c ret s =
     (case sslStash s (pidTgid c) of
        None \<Rightarrow> (s, None)
      | Some (ssl, buf) \<Rightarrow>
          let s' = s\<lparr>sslStash := (sslStash s)(pidTgid c := None)\<rparr> in
          if \<not> pid_matches target c \<or> sint ret \<le> 0 then (s', None)
          else (case slot c of
                  None \<Rightarrow> (s', None)
                | Some stale \<Rightarrow>
                    (s', Some (capture c buf ret
                       ((fill_common c OpSSLRead stale)\<lparr>FD := -1, SSLPtr := ssl, RetVal := ret, TotalLen := ret\<rparr>)))))"

section \<open>Executions\<close>

datatype kcall =
  EnterConnect uint64 uint64 | EnterWrite uint64 uint64 uint64 | EnterRead uint64 uint64 | ExitRead uint64
  | EnterClose uint64 | SslWrite uint64 uint64 uint32 | SslReadEnter uint64 uint64 | SslReadExit int32

primrec kernel_step :: "uint32 \<Rightarrow> kctx \<Rightarrow> kcall \<Rightarrow> kstate \<Rightarrow> kstate \<times> event option" where
  "kernel_step target c (EnterConnect fd addr) s = enter_connect target c fd addr s"
| "kernel_step target c (EnterWrite fd buf cnt) s = enter_write target c fd buf cnt s"
| "kernel_step target c (EnterRead fd buf) s = enter_read target c fd buf s"
| "kernel_step target c (ExitRead ret) s = exit_read target c ret s"
| "kernel_step target c (EnterClose fd) s = enter_close target c fd s"
| "kernel_step target c (SslWrite ssl buf num) s = ssl_write target c ssl buf num s"
| "kernel_step target c (SslReadEnter ssl buf) s = ssl_read_enter target c ssl buf s"
| "kernel_step target c (SslReadExit ret) s = ssl_read_exit target c ret s"

text \<open>The calls of all threads in the order in which the programs run, and the events submitted.\<close>

fun kernel_run :: "uint32 \<Rightarrow> (kctx \<times> kcall) list \<Rightarrow> kstate \<Rightarrow> kstate \<times> event list" where
  "kernel_run target [] s = (s, [])"
| "kernel_run target ((c, call) # calls) s =
     (case kernel_step target c call s of
        (s', r) \<Rightarrow> (case kernel_run target calls s' of
          (s'', es) \<Rightarrow> (s'', (case r of None \<Rightarrow> es | Some e \<Rightarrow> e # es))))"

definition kernel_init :: kstate where
  "kernel_init = \<lparr>readStash = Map.empty, sslStash = Map.empty\<rparr>"

section \<open>Lemmas\<close>

text \<open>A reserved slot has the size of the array, and a read of memory gives as many bytes as asked for.\<close>

definition kctx_ok :: "kctx \<Rightarrow> bool" where
  "kctx_ok c \<longleftrightarrow> (\<forall>stale. slot c = Some stale \<longrightarrow> length stale = dataCap) \<and>
     (\<forall>a n bs. userMem c a n = Some bs \<longrightarrow> length bs = n)"

lemma capture_len_eq: "capture_len n = min n 4095"
proof -
  have "and x 4095 = x" if "x \<le> 4095" for x :: uint32
  proof -
    have "unat (take_bit 12 x) = unat x"
      using that by (simp add: unsigned_take_bit_eq take_bit_nat_eq_self word_le_nat_alt)
    moreover have "and x (mask 12) = take_bit 12 x" by (simp add: take_bit_eq_mask)
    moreover have "mask 12 = (4095 :: uint32)" by (simp add: mask_eq_exp_minus_1)
    ultimately show ?thesis by (simp add: word_unat_eq_iff)
  qed
  then show ?thesis by (auto simp: capture_len_def min_def)
qed

lemma unat_capture_len: "unat (capture_len n) = min (unat n) 4095"
  by (auto simp: capture_len_eq min_def word_le_nat_alt)

lemma capture_simps [simp]:
  "PID (capture c a n e) = PID e" "TID (capture c a n e) = TID e" "FD (capture c a n e) = FD e"
  "Operation (capture c a n e) = Operation e" "TotalLen (capture c a n e) = TotalLen e"
  "RetVal (capture c a n e) = RetVal e" "SSLPtr (capture c a n e) = SSLPtr e" "Timestamp (capture c a n e) = Timestamp e"
  by (simp_all add: capture_def Let_def split: option.splits)

lemma capture_ok:
  assumes "kctx_ok c" and "length (Data e) = dataCap" and "DataLen e = 0"
  shows "event_wf (capture c a n e) \<and> DataLen (capture c a n e) \<le> n \<and> unat (DataLen (capture c a n e)) \<le> 4095"
proof -
  have len: "unat (capture_len n) \<le> 4095" "capture_len n \<le> n"
    by (simp_all add: unat_capture_len) (simp add: capture_len_eq)
  show ?thesis
    using assms len by (auto simp: capture_def Let_def event_wf_def kctx_ok_def dataCap_def split: option.splits)
qed

text \<open>What the programs guarantee of every event they submit.\<close>

definition submitted_ok :: "uint32 \<Rightarrow> event \<Rightarrow> bool" where
  "submitted_ok target e \<longleftrightarrow> event_wf e \<and> unat (DataLen e) \<le> 4095 \<and> DataLen e \<le> TotalLen e \<and> PID e = target \<and>
     target \<noteq> 0 \<and> Operation e \<in> {OpConnect, OpRead, OpWrite, OpClose, OpSSLWrite, OpSSLRead} \<and>
     (Operation e \<in> {OpSSLWrite, OpSSLRead} \<longrightarrow> FD e = -1)"

lemmas kernel_defs = enter_connect_def enter_write_def enter_read_def exit_read_def enter_close_def ssl_write_def
  ssl_read_enter_def ssl_read_exit_def

lemma capture_submitted:
  assumes "kctx_ok c" and "slot c = Some stale" and "pid_matches target c"
    and "e = (fill_common c opn stale)\<lparr>FD := fd, SSLPtr := ssl, RetVal := ret, TotalLen := n\<rparr>"
    and "opn \<in> {OpRead, OpWrite, OpSSLWrite, OpSSLRead}" and "opn \<in> {OpSSLWrite, OpSSLRead} \<longrightarrow> fd = -1"
  shows "submitted_ok target (capture c a n e)"
  using capture_ok [OF assms(1), of e a n] assms
  by (auto simp: submitted_ok_def fill_common_def pid_matches_def kctx_ok_def)

lemma remote_of_simps [simp]:
  "PID (remote_of sa e) = PID e" "Operation (remote_of sa e) = Operation e" "DataLen (remote_of sa e) = DataLen e"
  "TotalLen (remote_of sa e) = TotalLen e" "Data (remote_of sa e) = Data e"
  by (simp_all add: remote_of_def)

lemma kernel_step_submitted:
  assumes "kernel_step target c call s = (s', Some e)" and "kctx_ok c"
  shows "submitted_ok target e"
proof -
  have stale: "length stale = dataCap" if "slot c = Some stale" for stale
    using assms(2) that by (simp add: kctx_ok_def)
  note cap = capture_submitted [OF assms(2)]
  show ?thesis
  proof (cases call)
    case (EnterConnect fd addr)
    with assms(1) stale show ?thesis
      by (auto simp: kernel_defs Let_def submitted_ok_def fill_common_def pid_matches_def event_wf_def
          split: if_splits option.splits)
  next
    case (EnterClose fd)
    with assms(1) stale show ?thesis
      by (auto simp: kernel_defs Let_def submitted_ok_def fill_common_def pid_matches_def event_wf_def
          split: if_splits option.splits)
  next
    case (EnterWrite fd buf n)
    with assms(1) show ?thesis
      by (auto simp: kernel_defs fill_common_def intro!: cap split: if_splits option.splits)
  next
    case (ExitRead ret)
    with assms(1) show ?thesis
      by (auto simp: kernel_defs Let_def fill_common_def intro!: cap split: if_splits option.splits)
  next
    case (SslWrite ssl buf n)
    with assms(1) show ?thesis
      by (auto simp: kernel_defs fill_common_def intro!: cap split: if_splits option.splits)
  next
    case (SslReadExit ret)
    with assms(1) show ?thesis
      by (auto simp: kernel_defs Let_def fill_common_def intro!: cap split: if_splits option.splits)
  qed (use assms(1) in \<open>simp_all add: kernel_defs split: if_splits\<close>)
qed

lemma kernel_run_append:
  "kernel_run target (xs @ ys) s =
     (case kernel_run target xs s of (s', es) \<Rightarrow> (case kernel_run target ys s' of (s'', fs) \<Rightarrow> (s'', es @ fs)))"
  by (induction target xs s rule: kernel_run.induct) (auto split: prod.splits option.splits)

lemma kernel_run_submitted:
  "kernel_run target calls s = (s', es) \<Longrightarrow> list_all (\<lambda>(c, call). kctx_ok c) calls \<Longrightarrow> list_all (submitted_ok target) es"
  by (induction target calls s arbitrary: s' es rule: kernel_run.induct)
    (auto split: prod.splits option.splits dest: kernel_step_submitted)

text \<open>Only the read programs of a thread touch its stash entry.\<close>

primrec read_call :: "kcall \<Rightarrow> bool" where
  "read_call (EnterConnect fd addr) = False"
| "read_call (EnterWrite fd buf n) = False"
| "read_call (EnterRead fd buf) = True"
| "read_call (ExitRead ret) = True"
| "read_call (EnterClose fd) = False"
| "read_call (SslWrite ssl buf n) = False"
| "read_call (SslReadEnter ssl buf) = False"
| "read_call (SslReadExit ret) = False"

lemma kernel_step_readStash:
  assumes "kernel_step target c call s = (s', r)" and "pidTgid c \<noteq> t \<or> \<not> read_call call"
  shows "readStash s' t = readStash s t"
  using assms by (cases call) (auto simp: kernel_defs Let_def split: if_splits option.splits)

lemma kernel_run_readStash:
  assumes "kernel_run target calls s = (s', es)" and "list_all (\<lambda>(c, call). pidTgid c = t \<longrightarrow> \<not> read_call call) calls"
  shows "readStash s' t = readStash s t"
  using assms
proof (induction target calls s arbitrary: s' es rule: kernel_run.induct)
  case (2 target c call calls s)
  obtain s1 r where 1: "kernel_step target c call s = (s1, r)" by (cases "kernel_step target c call s")
  obtain s2 fs where 2: "kernel_run target calls s1 = (s2, fs)" by (cases "kernel_run target calls s1")
  have "s' = s2" using "2.prems"(1) 1 2 by simp
  moreover have "readStash s2 t = readStash s1 t" using "2.IH" [OF 1 [symmetric] 2] "2.prems"(2) by simp
  moreover have "readStash s1 t = readStash s t" using kernel_step_readStash [OF 1] "2.prems"(2) by auto
  ultimately show ?case by simp
qed simp

text \<open>Byte \<open>k\<close> of an address that was read as a little-endian word.\<close>

lemma address_byte:
  assumes "n < 2 ^ 32"
  shows "uint (ucast (drop_bit k (of_nat n :: uint32)) :: 8 word) = int (n div 2 ^ k mod 256)"
proof -
  have n: "unat (of_nat n :: uint32) = n" using assms by (simp add: unat_of_nat)
  have "unat (drop_bit k (of_nat n :: uint32)) = n div 2 ^ k"
    using assms by (simp only: unsigned_drop_bit_eq n) (simp add: drop_bit_eq_div take_bit_nat_eq_self)
  then have "unat (ucast (drop_bit k (of_nat n :: uint32)) :: 8 word) = n div 2 ^ k mod 256"
    by (simp add: unsigned_ucast_eq take_bit_eq_mod)
  then show ?thesis by (metis uint_nat)
qed

lemma FormatIPv4Port_bytes:
  assumes "a < 256" "b < 256" "c < 256" "d < 256" "p < 65536"
  shows "FormatIPv4Port (of_nat (a + 256 * (b + 256 * (c + 256 * d)))) (of_nat p) =
    Itoa (int a) @ ''.'' @ Itoa (int b) @ ''.'' @ Itoa (int c) @ ''.'' @ Itoa (int d) @ '':'' @ Itoa (int p)"
proof -
  let ?n = "a + 256 * (b + 256 * (c + 256 * d))"
  have n: "?n < 2 ^ 32" using assms by simp
  have digit: "(x + 256 * y) mod 256 = x \<and> (x + 256 * y) div 256 = y" if "x < 256" for x y :: nat using that by simp
  have d1: "?n div 256 = b + 256 * (c + 256 * d)" using digit [OF assms(1)] by blast
  have d2: "?n div 65536 = c + 256 * d"
    using div_mult2_eq [of ?n 256 256] d1 digit [OF assms(2), of "c + 256 * d"] by simp
  have d3: "?n div 16777216 = d"
    using div_mult2_eq [of ?n 65536 256] d2 digit [OF assms(3), of d] by simp
  have "?n div 2 ^ 0 mod 256 = a" "?n div 2 ^ 8 mod 256 = b" "?n div 2 ^ 16 mod 256 = c" "?n div 2 ^ 24 mod 256 = d"
    using digit [OF assms(1), of "b + 256 * (c + 256 * d)"] d1 digit [OF assms(2), of "c + 256 * d"] d2
      digit [OF assms(3), of d] d3 assms(4) by simp_all
  moreover have "uint (of_nat p :: uint16) = int p" using assms(5) by (simp add: unsigned_of_nat take_bit_nat_eq_self)
  ultimately show ?thesis
    using address_byte [OF n, of 0] address_byte [OF n, of 8] address_byte [OF n, of 16] address_byte [OF n, of 24]
    by (simp add: FormatIPv4Port_def)
qed

section \<open>Properties\<close>

text \<open>
  C25: Every event the kernel programs submit, in any execution, is one the collector can take:
  its array has the declared size, the captured length stays below it and never exceeds the true
  length (so \<open>Payload\<close> does not panic), it belongs to the traced process, it is one of the six
  operations, and its record decodes to exactly this event.
\<close>

theorem kernel_events_ok:
  assumes "kernel_run target calls kernel_init = (s, es)" and "list_all (\<lambda>(c, call). kctx_ok c) calls"
    and "length gap1 = 4" and "length gap2 = 2"
  shows "list_all (\<lambda>e. submitted_ok target e \<and> Payload e = Ret (captured e) \<and>
    decodeEvent (struct_event e gap1 gap2 @ extra) = Inr e) es"
proof -
  have "submitted_ok target e \<Longrightarrow> Payload e = Ret (captured e) \<and> decodeEvent (struct_event e gap1 gap2 @ extra) = Inr e" for e
    using decode_struct_event [OF _ assms(3,4), of e extra] by (simp add: submitted_ok_def data_ok_def dataCap_def)
  with kernel_run_submitted [OF assms(1,2)] show ?thesis by (auto simp: list_all_iff)
qed

text \<open>A process that connects, writes and reads, and a thread of another process.\<close>

definition sample_kctx :: "uint64 \<Rightarrow> kctx" where
  "sample_kctx t = \<lparr>pidTgid = t, ktime = 5, slot = Some (replicate dataCap (CHR 0x7F)), stashOk = True,
     userMem = (\<lambda>a n. Some (take n (map char_of [2, 0, 24, 235, 127, 0, 0, 1 :: nat] @ replicate n (CHR 0x00))))\<rparr>"

lemma sample_kctx_ok: "kctx_ok (sample_kctx t)"
  by (auto simp: kctx_ok_def sample_kctx_def)

theorem kernel_events_ok_witness:
  "\<exists>s es. kernel_run 7 [(sample_kctx 30064771081, EnterRead 3 64), (sample_kctx 34359738376, EnterClose 3),
       (sample_kctx 30064771081, ExitRead 2)] kernel_init = (s, es) \<and> length es = 1 \<and>
     list_all (\<lambda>e. submitted_ok 7 e \<and> Payload e = Ret (captured e) \<and>
       decodeEvent (struct_event e ''gap.'' ''..'' @ []) = Inr e) es"
proof -
  let ?calls = "[(sample_kctx 30064771081, EnterRead 3 64), (sample_kctx 34359738376, EnterClose 3),
       (sample_kctx 30064771081, ExitRead 2)]"
  obtain s es where r: "kernel_run 7 ?calls kernel_init = (s, es)" by (cases "kernel_run 7 ?calls kernel_init")
  then have "length es = 1"
    by (auto simp: kernel_defs pid_matches_def sample_kctx_def kernel_init_def Let_def)
  moreover have "list_all (\<lambda>(c, call). kctx_ok c) ?calls" by (simp add: sample_kctx_ok)
  ultimately show ?thesis using kernel_events_ok [OF r, of "''gap.''" "''..''" "[]"] r by auto
qed

text \<open>
  C23: A \<open>read\<close> is reported when it returns, with the descriptor and the buffer that the same thread
  passed when it entered the call, whatever other threads and other programs do in between: its
  event has that descriptor, the returned length as true length and the first up to 4095 bytes of
  the buffer at that moment.
\<close>

theorem kernel_read_pairing:
  assumes "kernel_run target (pre @ (c1, EnterRead fd buf) # mid @ [(c2, ExitRead ret)]) kernel_init = (s, es)"
    and "pid_matches target c1" and "stashOk c1" and "pidTgid c2 = pidTgid c1"
    and "list_all (\<lambda>(c, call). pidTgid c = pidTgid c1 \<longrightarrow> \<not> read_call call) mid"
    and "0 < sint ret" and "slot c2 = Some stale" and "userMem c2 buf (min (unat (ucast ret :: uint32)) 4095) = Some bs"
    and "kctx_ok c2"
  shows "\<exists>es' e. es = es' @ [e] \<and> Operation e = OpRead \<and> PID e = target \<and> TID e = ucast (pidTgid c1) \<and>
    FD e = ucast fd \<and> TotalLen e = ucast ret \<and> captured e = bs"
proof -
  obtain s1 es1 where 1: "kernel_run target pre kernel_init = (s1, es1)" by (cases "kernel_run target pre kernel_init")
  let ?s2 = "s1\<lparr>readStash := (readStash s1)(pidTgid c1 \<mapsto> (buf, ucast fd))\<rparr>"
  have 2: "kernel_step target c1 (EnterRead fd buf) s1 = (?s2, None)" using assms(2,3) by (simp add: enter_read_def)
  obtain s3 es3 where 3: "kernel_run target mid ?s2 = (s3, es3)" by (cases "kernel_run target mid ?s2")
  have stash: "readStash s3 (pidTgid c2) = Some (buf, ucast fd)"
    using kernel_run_readStash [OF 3 assms(5)] assms(4) by simp
  define e where "e = capture c2 buf (ucast ret) ((fill_common c2 OpRead stale)\<lparr>FD := ucast fd, RetVal := ucast ret, TotalLen := ucast ret\<rparr>)"
  have m2: "pid_matches target c2" using assms(2,4) by (simp add: pid_matches_def)
  then have 4: "snd (kernel_step target c2 (ExitRead ret) s3) = Some e"
    using stash assms(6,7) by (simp add: exit_read_def e_def)
  have "es = (es1 @ es3) @ [e]"
    using assms(1) 1 2 3 4 by (auto simp: kernel_run_append split: prod.splits)
  moreover have "length bs = min (unat (ucast ret :: uint32)) 4095" using assms(8,9) by (simp add: kctx_ok_def)
  then have "captured e = bs"
    using assms(8) by (simp add: e_def captured_def capture_def unat_capture_len Let_def)
  ultimately show ?thesis
    using m2 assms(4) by (intro exI [of _ "es1 @ es3"] exI [of _ e]) (simp add: e_def fill_common_def pid_matches_def)
qed

theorem kernel_read_pairing_witness:
  "\<exists>s es es' e. kernel_run 7 ([] @ (sample_kctx 30064771081, EnterRead 3 64) #
       [(sample_kctx 30064771082, EnterRead 4 128)] @ [(sample_kctx 30064771081, ExitRead 2)]) kernel_init = (s, es) \<and>
     es = es' @ [e] \<and> Operation e = OpRead \<and> PID e = 7 \<and> FD e = 3 \<and> TotalLen e = 2 \<and> captured e = map char_of [2, 0 :: nat]"
proof -
  let ?calls = "[] @ (sample_kctx 30064771081, EnterRead 3 64) #
       [(sample_kctx 30064771082, EnterRead 4 128)] @ [(sample_kctx 30064771081, ExitRead 2)]"
  obtain s es where r: "kernel_run 7 ?calls kernel_init = (s, es)" by (cases "kernel_run 7 ?calls kernel_init")
  have "\<exists>es' e. es = es' @ [e] \<and> Operation e = OpRead \<and> PID e = 7 \<and>
      TID e = ucast (pidTgid (sample_kctx 30064771081)) \<and> FD e = ucast (3 :: uint64) \<and>
      TotalLen e = ucast (2 :: uint64) \<and> captured e = map char_of [2, 0 :: nat]"
    by (rule kernel_read_pairing [OF r, where stale = "replicate dataCap (CHR 0x7F)"])
      (simp_all add: sample_kctx_ok, simp_all add: sample_kctx_def pid_matches_def)
  then show ?thesis using r by auto
qed

text \<open>
  C35: The remote endpoint shown for a connection is the one the process connected to: from the
  bytes of the socket address in its memory (family, port and address in network order) through the
  kernel program and the text formatting.
\<close>

theorem connect_address_shown:
  assumes "pid_matches target c" and "slot c = Some stale"
    and "userMem c addr 16 = Some (map char_of [2, 0, p1, p0, a1, a2, a3, a4 :: nat] @ rest)"
    and "p1 < 256" "p0 < 256" "a1 < 256" "a2 < 256" "a3 < 256" "a4 < 256"
  shows "\<exists>e. enter_connect target c fd addr s = (s, Some e) \<and> FD e = ucast fd \<and>
    RemoteAddrString e = Itoa (int a1) @ ''.'' @ Itoa (int a2) @ ''.'' @ Itoa (int a3) @ ''.'' @ Itoa (int a4) @ '':'' @
      Itoa (int (256 * p1 + p0))"
proof -
  let ?sa = "map char_of [2, 0, p1, p0, a1, a2, a3, a4 :: nat] @ rest"
  have "le_val (take 2 ?sa) = AF_INET" by (simp add: AF_INET_def)
  moreover have "le_val (take 4 (drop 4 ?sa)) = a1 + 256 * (a2 + 256 * (a3 + 256 * a4))"
    using assms(6-9) by simp
  moreover have "of_char (?sa ! 3) + 256 * of_char (?sa ! 2) = 256 * p1 + p0"
    using assms(4,5) by simp
  ultimately have r: "remote_of ?sa e = e\<lparr>RemoteAddr := of_nat (a1 + 256 * (a2 + 256 * (a3 + 256 * a4))),
      RemotePort := of_nat (256 * p1 + p0)\<rparr>" for e by (simp only: remote_of_def simp_thms if_True)
  have "256 * p1 + p0 < 65536" using assms(4,5) by simp
  from FormatIPv4Port_bytes [OF assms(6-9) this] show ?thesis
    using assms(1-3) r by (simp add: enter_connect_def RemoteAddrString_def Let_def)
qed

theorem connect_address_shown_witness:
  "\<exists>e. enter_connect 7 (sample_kctx 30064771081) 3 4096 kernel_init = (kernel_init, Some e) \<and> FD e = 3 \<and>
     RemoteAddrString e = ''127.0.0.1:6379''"
proof -
  have m: "pid_matches 7 (sample_kctx 30064771081)" by (simp add: pid_matches_def sample_kctx_def)
  have sl: "slot (sample_kctx 30064771081) = Some (replicate dataCap (CHR 0x7F))" by (simp add: sample_kctx_def)
  have mem: "userMem (sample_kctx 30064771081) 4096 16 =
      Some (map char_of [2, 0, 24, 235, 127, 0, 0, 1 :: nat] @ replicate 8 (CHR 0x00))"
    by (simp add: sample_kctx_def)
  have "\<exists>e. enter_connect 7 (sample_kctx 30064771081) 3 4096 kernel_init = (kernel_init, Some e) \<and>
      FD e = ucast (3 :: uint64) \<and>
      RemoteAddrString e = Itoa (int 127) @ ''.'' @ Itoa (int 0) @ ''.'' @ Itoa (int 0) @ ''.'' @ Itoa (int 1) @ '':'' @
        Itoa (int (256 * 24 + 235))"
    by (rule connect_address_shown [OF m sl mem]) simp_all
  moreover have "Itoa (int 127) @ ''.'' @ Itoa (int 0) @ ''.'' @ Itoa (int 0) @ ''.'' @ Itoa (int 1) @ '':'' @
      Itoa (int (256 * 24 + 235)) = ''127.0.0.1:6379''"
    by (simp add: Itoa_def itoa_nat.simps digit_char_def char_of_def bit_Suc_0_iff)
  moreover have "ucast (3 :: uint64) = (3 :: int32)" by simp
  ultimately show ?thesis by metis
qed

end
