(* ===== verification/Readers.thy ===== *)
theory Readers
  imports Collector
begin

text \<open>
  \<open>internal/collector\<close>: the goroutines of \<open>Collector.Run\<close> as a step relation: one reader per ring buffer,
  which send on the shared channels \<open>events\<close> (64 slots) and \<open>errs\<close> (1 slot), and the goroutine that
  closes both channels when all readers have returned. Both channels are received from, as in every
  command of the program. The abstract result is \<^const>\<open>collector_Run\<close>.
\<close>

section \<open>Goroutines\<close>

text \<open>
  A reader: the results its coming \<open>rd.Read()\<close> calls will have, and where it stands. \<open>SendErr e stop\<close>:
  it returns behind the send if \<open>stop\<close>.
\<close>

datatype reader_phase = Reading | SendEvent event | SendErr collector_error bool | ReaderReturned

type_synonym reader = "ring_read list \<times> reader_phase"

definition eventsCap :: nat where "eventsCap = 64"
definition errsCap :: nat where "errsCap = 1"

text \<open>One step of a reader with the buffers of the two channels: \<open>reader_step evq erq r evq' erq' r'\<close>.\<close>

inductive reader_step ::
  "event list \<Rightarrow> collector_error list \<Rightarrow> reader \<Rightarrow> event list \<Rightarrow> collector_error list \<Rightarrow> reader \<Rightarrow> bool" where
  read_closed: "reader_step evq erq (RingClosed # rs, Reading) evq erq (rs, ReaderReturned)"
| read_failed: "reader_step evq erq (RingFailed # rs, Reading) evq erq (rs, SendErr ReadRingbuf True)"
| read_undecodable: "decodeEvent raw = Inl e \<Longrightarrow>
    reader_step evq erq (RingRecord raw # rs, Reading) evq erq (rs, SendErr (DecodeEvent e) False)"
| read_event: "decodeEvent raw = Inr ev \<Longrightarrow>
    reader_step evq erq (RingRecord raw # rs, Reading) evq erq (rs, SendEvent ev)"
| send_event: "length evq < eventsCap \<Longrightarrow> reader_step evq erq (rs, SendEvent ev) (evq @ [ev]) erq (rs, Reading)"
| send_err: "length erq < errsCap \<Longrightarrow>
    reader_step evq erq (rs, SendErr e stop) evq (erq @ [e]) (rs, if stop then ReaderReturned else Reading)"

inductive_cases reader_stepE: "reader_step evq erq r evq' erq' r'"

record run_state =
  rdReader :: reader
  tlsReader :: reader
  eventsq :: "event list"
  errsq :: "collector_error list"
  runClosed :: bool
  eventsGot :: "event list"
  errsGot :: "collector_error list"

text \<open>Without TLS there is no second reader; it counts as returned.\<close>

definition run_init :: "bool \<Rightarrow> ring_read list \<Rightarrow> ring_read list \<Rightarrow> run_state" where
  "run_init tlsEnabled rd tlsRd =
     \<lparr>rdReader = (rd, Reading), tlsReader = (if tlsEnabled then (tlsRd, Reading) else ([], ReaderReturned)),
      eventsq = [], errsq = [], runClosed = False, eventsGot = [], errsGot = []\<rparr>"

inductive run_step :: "run_state \<Rightarrow> run_state \<Rightarrow> bool" where
  rd_step: "reader_step (eventsq s) (errsq s) (rdReader s) evq erq r \<Longrightarrow>
    run_step s (s\<lparr>rdReader := r, eventsq := evq, errsq := erq\<rparr>)"
| tls_step: "reader_step (eventsq s) (errsq s) (tlsReader s) evq erq r \<Longrightarrow>
    run_step s (s\<lparr>tlsReader := r, eventsq := evq, errsq := erq\<rparr>)"
| close_channels: "snd (rdReader s) = ReaderReturned \<Longrightarrow> snd (tlsReader s) = ReaderReturned \<Longrightarrow> \<not> runClosed s \<Longrightarrow>
    run_step s (s\<lparr>runClosed := True\<rparr>)"
| recv_event: "eventsq s = ev # evq \<Longrightarrow> run_step s (s\<lparr>eventsq := evq, eventsGot := eventsGot s @ [ev]\<rparr>)"
| recv_err: "errsq s = e # erq \<Longrightarrow> run_step s (s\<lparr>errsq := erq, errsGot := errsGot s @ [e]\<rparr>)"

inductive_cases run_stepE: "run_step s s'"

definition run_reach :: "bool \<Rightarrow> ring_read list \<Rightarrow> ring_read list \<Rightarrow> run_state \<Rightarrow> bool" where
  "run_reach tlsEnabled rd tlsRd s \<longleftrightarrow> run_step\<^sup>*\<^sup>* (run_init tlsEnabled rd tlsRd) s"

definition run_stuck :: "run_state \<Rightarrow> bool" where
  "run_stuck s \<longleftrightarrow> (\<forall>s'. \<not> run_step s s')"

section \<open>What a reader still has to send\<close>

fun lefts :: "('a + 'b) list \<Rightarrow> 'a list" where
  "lefts [] = []"
| "lefts (Inl x # xs) = x # lefts xs"
| "lefts (Inr y # xs) = lefts xs"

fun rights :: "('a + 'b) list \<Rightarrow> 'b list" where
  "rights [] = []"
| "rights (Inl x # xs) = rights xs"
| "rights (Inr y # xs) = y # rights xs"

lemma lefts_append [simp]: "lefts (xs @ ys) = lefts xs @ lefts ys"
  by (induction xs rule: lefts.induct) simp_all

lemma rights_append [simp]: "rights (xs @ ys) = rights xs @ rights ys"
  by (induction xs rule: rights.induct) simp_all

lemma lefts_map_Inl [simp]: "lefts (map Inl xs) = xs" "rights (map Inl xs) = []"
  by (induction xs) simp_all

fun to_send :: "reader \<Rightarrow> (event + collector_error) list" where
  "to_send (rs, Reading) = readLoop rs"
| "to_send (rs, SendEvent ev) = Inl ev # readLoop rs"
| "to_send (rs, SendErr e stop) = Inr e # (if stop then [] else readLoop rs)"
| "to_send (rs, ReaderReturned) = []"

text \<open>Whether the results of its reads make a reader return.\<close>

definition ends :: "ring_read list \<Rightarrow> bool" where
  "ends rs \<longleftrightarrow> RingClosed \<in> set rs \<or> RingFailed \<in> set rs"

fun will_return :: "reader \<Rightarrow> bool" where
  "will_return (rs, Reading) = ends rs"
| "will_return (rs, SendEvent ev) = ends rs"
| "will_return (rs, SendErr e stop) = (stop \<or> ends rs)"
| "will_return (rs, ReaderReturned) = True"

lemma reader_step_sends:
  assumes "reader_step evq erq r evq' erq' r'"
  shows "\<exists>new. to_send r = new @ to_send r' \<and> evq' = evq @ lefts new \<and> erq' = erq @ rights new"
  using assms
proof (cases rule: reader_step.cases)
  case (send_event rs ev)
  then show ?thesis by (intro exI [of _ "[Inl ev]"]) simp
next
  case (send_err rs e stop)
  then show ?thesis by (intro exI [of _ "[Inr e]"]) simp
qed simp_all

lemma reader_step_returns:
  assumes "reader_step evq erq r evq' erq' r'"
  shows "will_return r' \<longleftrightarrow> will_return r"
  using assms by (cases rule: reader_step.cases) (auto simp: ends_def)

section \<open>The result is an interleaving\<close>

lemma shuffles_snoc_left: "zs \<in> shuffles xs ys \<Longrightarrow> zs @ as \<in> shuffles (xs @ as) ys"
proof (induction xs ys arbitrary: zs rule: shuffles.induct)
  case (1 ys)
  then show ?case by (induction ys arbitrary: zs) (cases as, auto)+
next
  case (2 xs)
  then show ?case by simp
next
  case (3 x xs y ys)
  then show ?case by auto
qed

lemma shuffles_snoc_right: "zs \<in> shuffles xs ys \<Longrightarrow> zs @ as \<in> shuffles xs (ys @ as)"
  using shuffles_snoc_left [of zs ys xs as] shuffles_commutes by metis

text \<open>
  \<open>z\<close> is what has been sent so far: an interleaving of what the readers have sent, and what has been
  received with what is still in the channels.
\<close>

definition run_inv :: "bool \<Rightarrow> ring_read list \<Rightarrow> ring_read list \<Rightarrow> run_state \<Rightarrow> bool" where
  "run_inv tlsEnabled rd tlsRd s \<longleftrightarrow>
     (\<exists>sent tlsSent z. readLoop rd = sent @ to_send (rdReader s) \<and>
        (if tlsEnabled then readLoop tlsRd else []) = tlsSent @ to_send (tlsReader s) \<and>
        z \<in> shuffles sent tlsSent \<and> eventsGot s @ eventsq s = lefts z \<and> errsGot s @ errsq s = rights z) \<and>
     will_return (rdReader s) = ends rd \<and> will_return (tlsReader s) = (tlsEnabled \<longrightarrow> ends tlsRd) \<and>
     (runClosed s \<longrightarrow> snd (rdReader s) = ReaderReturned \<and> snd (tlsReader s) = ReaderReturned) \<and>
     length (eventsq s) \<le> eventsCap \<and> length (errsq s) \<le> errsCap"

lemma run_inv_init: "run_inv tlsEnabled rd tlsRd (run_init tlsEnabled rd tlsRd)"
  by (simp add: run_inv_def run_init_def)

lemma reader_step_caps:
  assumes "reader_step evq erq r evq' erq' r'" and "length evq \<le> eventsCap" and "length erq \<le> errsCap"
  shows "length evq' \<le> eventsCap \<and> length erq' \<le> errsCap \<and> snd r \<noteq> ReaderReturned"
  using assms by (cases rule: reader_step.cases) auto

lemma run_inv_step:
  assumes "run_step s s'" and "run_inv tlsEnabled rd tlsRd s"
  shows "run_inv tlsEnabled rd tlsRd s'"
proof -
  from assms(2) obtain sent tlsSent z where inv: "readLoop rd = sent @ to_send (rdReader s)"
      "(if tlsEnabled then readLoop tlsRd else []) = tlsSent @ to_send (tlsReader s)"
      "z \<in> shuffles sent tlsSent" "eventsGot s @ eventsq s = lefts z" "errsGot s @ errsq s = rights z"
    and ret: "will_return (rdReader s) = ends rd" "will_return (tlsReader s) = (tlsEnabled \<longrightarrow> ends tlsRd)"
    and closed: "runClosed s \<longrightarrow> snd (rdReader s) = ReaderReturned \<and> snd (tlsReader s) = ReaderReturned"
    and caps: "length (eventsq s) \<le> eventsCap" "length (errsq s) \<le> errsCap"
    unfolding run_inv_def by blast
  from assms(1) show ?thesis
  proof (cases rule: run_step.cases)
    case (rd_step evq erq r)
    from reader_step_sends [OF rd_step(2)] obtain new where new: "to_send (rdReader s) = new @ to_send r"
      "evq = eventsq s @ lefts new" "erq = errsq s @ rights new" by blast
    have "z @ new \<in> shuffles (sent @ new) tlsSent" using inv(3) by (rule shuffles_snoc_left)
    moreover have "eventsGot s @ evq = lefts (z @ new)" "errsGot s @ erq = rights (z @ new)"
      using inv(4,5) new(2,3) by (simp_all flip: append_assoc)
    moreover have "readLoop rd = (sent @ new) @ to_send r" using inv(1) new(1) by simp
    ultimately show ?thesis
      using rd_step inv(2) ret closed reader_step_returns [OF rd_step(2)] reader_step_caps [OF rd_step(2) caps]
      unfolding run_inv_def by fastforce
  next
    case (tls_step evq erq r)
    from reader_step_sends [OF tls_step(2)] obtain new where new: "to_send (tlsReader s) = new @ to_send r"
      "evq = eventsq s @ lefts new" "erq = errsq s @ rights new" by blast
    have "z @ new \<in> shuffles sent (tlsSent @ new)" using inv(3) by (rule shuffles_snoc_right)
    moreover have "eventsGot s @ evq = lefts (z @ new)" "errsGot s @ erq = rights (z @ new)"
      using inv(4,5) new(2,3) by (simp_all flip: append_assoc)
    moreover have "(if tlsEnabled then readLoop tlsRd else []) = (tlsSent @ new) @ to_send r" using inv(2) new(1) by simp
    ultimately show ?thesis
      using tls_step inv(1) ret closed reader_step_returns [OF tls_step(2)] reader_step_caps [OF tls_step(2) caps]
      unfolding run_inv_def by fastforce
  next
    case close_channels
    then show ?thesis using assms(2) by (simp add: run_inv_def)
  next
    case (recv_event ev evq)
    then show ?thesis using inv ret closed caps unfolding run_inv_def by fastforce
  next
    case (recv_err e erq)
    then show ?thesis using inv ret closed caps unfolding run_inv_def by fastforce
  qed
qed

lemma run_reach_inv: "run_reach tlsEnabled rd tlsRd s \<Longrightarrow> run_inv tlsEnabled rd tlsRd s"
  unfolding run_reach_def by (induction rule: rtranclp_induct) (auto intro: run_inv_init run_inv_step)

section \<open>Every execution ends\<close>

fun phase_weight :: "reader_phase \<Rightarrow> nat" where
  "phase_weight Reading = 1"
| "phase_weight (SendEvent ev) = 3"
| "phase_weight (SendErr e stop) = 3"
| "phase_weight ReaderReturned = 0"

definition reader_weight :: "reader \<Rightarrow> nat" where
  "reader_weight r = 3 * length (fst r) + phase_weight (snd r)"

definition run_weight :: "run_state \<Rightarrow> nat" where
  "run_weight s = reader_weight (rdReader s) + reader_weight (tlsReader s) + length (eventsq s) + length (errsq s) +
     (if runClosed s then 0 else 1)"

lemma reader_step_weight:
  assumes "reader_step evq erq r evq' erq' r'"
  shows "reader_weight r' + length evq' + length erq' < reader_weight r + length evq + length erq"
  using assms by (cases rule: reader_step.cases) (auto simp: reader_weight_def)

lemma run_step_weight: "run_step s s' \<Longrightarrow> run_weight s' < run_weight s"
  by (cases rule: run_step.cases, assumption) (auto simp: run_weight_def dest!: reader_step_weight)

text \<open>A reader that cannot move, with the error channel empty: nothing left to read, or no room for its event.\<close>

lemma reader_blocked:
  assumes "\<And>evq' erq' r'. \<not> reader_step evq [] r evq' erq' r'"
  shows "snd r = ReaderReturned \<or> snd r = Reading \<and> fst r = [] \<or> (\<exists>ev. snd r = SendEvent ev \<and> eventsCap \<le> length evq)"
proof -
  obtain rs ph where r: "r = (rs, ph)" by (cases r)
  show ?thesis
  proof (cases ph)
    case Reading
    have "rs = []"
    proof (rule ccontr)
      assume "rs \<noteq> []"
      then obtain x xs where rs: "rs = x # xs" by (cases rs) auto
      show False
      proof (cases x)
        case (RingRecord raw)
        then show False using assms r rs Reading reader_step.intros(3,4) by (cases "decodeEvent raw") blast+
      qed (use assms r rs Reading reader_step.intros(1,2) in blast)+
    qed
    then show ?thesis using r Reading by simp
  next
    case (SendEvent ev)
    then show ?thesis using assms r reader_step.send_event [of evq "[]" rs ev] by (meson linorder_not_less snd_conv)
  next
    case (SendErr e stop)
    then have "reader_step evq [] r evq [e] (rs, if stop then ReaderReturned else Reading)"
      using r reader_step.send_err [of "[]" evq rs e stop] by (simp add: errsCap_def)
    then show ?thesis using assms by blast
  qed (use r in simp)
qed

lemma run_stuck_phase:
  assumes "run_stuck s"
  shows "eventsq s = [] \<and> errsq s = [] \<and> snd (rdReader s) \<in> {ReaderReturned, Reading} \<and>
    (snd (rdReader s) = Reading \<longrightarrow> fst (rdReader s) = []) \<and> snd (tlsReader s) \<in> {ReaderReturned, Reading} \<and>
    (snd (tlsReader s) = Reading \<longrightarrow> fst (tlsReader s) = [])"
proof -
  have q: "eventsq s = [] \<and> errsq s = []"
    using assms recv_event recv_err unfolding run_stuck_def by (metis list.exhaust)
  moreover have "\<not> reader_step [] [] (rdReader s) evq erq r" "\<not> reader_step [] [] (tlsReader s) evq erq r" for evq erq r
    using assms rd_step [of s evq erq r] tls_step [of s evq erq r] q unfolding run_stuck_def by metis+
  ultimately show ?thesis
    using reader_blocked [of "[]" "rdReader s"] reader_blocked [of "[]" "tlsReader s"] by (auto simp: eventsCap_def)
qed

lemma run_steps_weight: "(run_step ^^ k) s s' \<Longrightarrow> k + run_weight s' \<le> run_weight s"
proof (induction k arbitrary: s')
  case (Suc k)
  then obtain t where "(run_step ^^ k) s t" and "run_step t s'" by auto
  with Suc.IH [of t] run_step_weight [of t s'] show ?case by simp
qed simp

lemma run_ends: "\<exists>s'. run_step\<^sup>*\<^sup>* s s' \<and> run_stuck s'"
proof (induction "run_weight s" arbitrary: s rule: less_induct)
  case less
  show ?case
  proof (cases "run_stuck s")
    case False
    then obtain t where t: "run_step s t" by (auto simp: run_stuck_def)
    from less [OF run_step_weight [OF t]] obtain s' where "run_step\<^sup>*\<^sup>* t s'" "run_stuck s'" by blast
    with t show ?thesis by (meson converse_rtranclp_into_rtranclp)
  qed blast
qed

lemma run_stuck_delivers:
  assumes "run_reach tlsEnabled rd tlsRd s" and final: "run_stuck s"
  shows "(\<exists>z \<in> collector_Run tlsEnabled rd tlsRd. eventsGot s = lefts z \<and> errsGot s = rights z) \<and>
    runClosed s = (ends rd \<and> (tlsEnabled \<longrightarrow> ends tlsRd))"
proof -
  from run_reach_inv [OF assms(1)] obtain sent tlsSent z where inv: "readLoop rd = sent @ to_send (rdReader s)"
      "(if tlsEnabled then readLoop tlsRd else []) = tlsSent @ to_send (tlsReader s)"
      "z \<in> shuffles sent tlsSent" "eventsGot s @ eventsq s = lefts z" "errsGot s @ errsq s = rights z"
    and ret: "will_return (rdReader s) = ends rd" "will_return (tlsReader s) = (tlsEnabled \<longrightarrow> ends tlsRd)"
    and closed: "runClosed s \<longrightarrow> snd (rdReader s) = ReaderReturned \<and> snd (tlsReader s) = ReaderReturned"
    unfolding run_inv_def by blast
  have rest: "to_send r = [] \<and> (will_return r \<longleftrightarrow> snd r = ReaderReturned)"
    if "snd r \<in> {ReaderReturned, Reading}" "snd r = Reading \<longrightarrow> fst r = []" for r
    using that by (cases r) (auto simp: ends_def)
  note stuck = run_stuck_phase [OF final]
  have "z \<in> collector_Run tlsEnabled rd tlsRd"
    using inv(1-3) rest [of "rdReader s"] rest [of "tlsReader s"] stuck by (auto simp: collector_Run_def split: if_splits)
  moreover have "runClosed s" if "snd (rdReader s) = ReaderReturned" "snd (tlsReader s) = ReaderReturned"
    using that final close_channels unfolding run_stuck_def by blast
  then have "runClosed s = (ends rd \<and> (tlsEnabled \<longrightarrow> ends tlsRd))"
    using closed ret rest [of "rdReader s"] rest [of "tlsReader s"] stuck by auto
  ultimately show ?thesis using inv(4,5) stuck by auto
qed

section \<open>Properties\<close>

text \<open>
  C15: The goroutines of \<open>Collector.Run\<close> implement its specification. Whatever their interleaving, no
  execution takes more than three steps per read plus three, nothing is sent on a closed channel,
  and an execution that can go no further has delivered an interleaving of what the two read loops
  send, every event and every error, each channel in order; the channels are closed then exactly if
  every ring buffer was closed or failed (otherwise a reader waits for the next record).
\<close>

theorem collector_run_delivers:
  assumes "(run_step ^^ k) (run_init tlsEnabled rd tlsRd) s"
  shows "k \<le> 3 * (length rd + length tlsRd) + 3 \<and>
    (runClosed s \<longrightarrow> snd (rdReader s) = ReaderReturned \<and> snd (tlsReader s) = ReaderReturned) \<and>
    (run_stuck s \<longrightarrow>
       (\<exists>z \<in> collector_Run tlsEnabled rd tlsRd. eventsGot s = lefts z \<and> errsGot s = rights z) \<and>
       runClosed s = (ends rd \<and> (tlsEnabled \<longrightarrow> ends tlsRd)))"
proof -
  have reach: "run_reach tlsEnabled rd tlsRd s"
    unfolding run_reach_def using assms by (rule relpowp_imp_rtranclp)
  have "k \<le> 3 * (length rd + length tlsRd) + 3"
    using run_steps_weight [OF assms] by (auto simp: run_weight_def run_init_def reader_weight_def split: if_splits)
  then show ?thesis using run_reach_inv [OF reach] run_stuck_delivers [OF reach] by (simp add: run_inv_def)
qed

theorem collector_run_delivers_witness:
  "\<exists>k s. (run_step ^^ k) (run_init True [RingRecord [], RingClosed] [RingFailed]) s \<and> k \<le> 12 \<and> runClosed s \<and>
     errsGot s \<in> {[DecodeEvent EOF, ReadRingbuf], [ReadRingbuf, DecodeEvent EOF]}"
proof -
  let ?s0 = "run_init True [RingRecord [], RingClosed] [RingFailed]"
  obtain s where "run_step\<^sup>*\<^sup>* ?s0 s" and stuck: "run_stuck s" using run_ends by blast
  then obtain k where k: "(run_step ^^ k) ?s0 s" using rtranclp_imp_relpowp by metis
  from collector_run_delivers [OF k] stuck obtain z where z: "z \<in> collector_Run True [RingRecord [], RingClosed] [RingFailed]"
    and "k \<le> 12" "runClosed s" "errsGot s = rights z" by (auto simp: ends_def)
  moreover have "collector_Run True [RingRecord [], RingClosed] [RingFailed] =
      {[Inr (DecodeEvent EOF), Inr ReadRingbuf], [Inr ReadRingbuf, Inr (DecodeEvent EOF)]}"
    by (auto simp: collector_Run_def decodeEvent_def)
  ultimately show ?thesis using k by auto
qed

end
