(* ===== verification/Pipeline.thy ===== *)
theory Pipeline
  imports Kernel Readers EndToEnd
begin

text \<open>
  The components put together: from the system calls of the traced process through the kernel
  programs, the ring buffer, the goroutines of \<open>Collector.Run\<close> and the streamer to the recorded
  exchange, and on to the replay. The specification is what the process itself did on its sockets.
\<close>

section \<open>What the process did\<close>

text \<open>
  I/O on a descriptor: the bytes of a call as far as they are captured, and the length of the call.
\<close>

datatype sock_io = Sent (io_fd: int32) (io_bytes: bytes) (io_len: uint32)
  | Received (io_fd: int32) (io_bytes: bytes) (io_len: uint32) | ClosedFD (io_fd: int32)

text \<open>Up to 4095 bytes from the start of a buffer, none if the buffer cannot be read.\<close>

definition shown :: "kctx \<Rightarrow> uint64 \<Rightarrow> uint32 \<Rightarrow> bytes" where
  "shown c buf n = (case userMem c buf (min (unat n) 4095) of None \<Rightarrow> [] | Some bs \<Rightarrow> bs)"

text \<open>\<open>pend\<close>: the buffer and the descriptor of the \<open>read\<close> that a thread is in.\<close>

type_synonym pending_reads = "uint64 \<rightharpoonup> uint64 \<times> int32"

definition io_step :: "uint32 \<Rightarrow> kctx \<Rightarrow> kcall \<Rightarrow> pending_reads \<Rightarrow> pending_reads \<times> sock_io option" where
  "io_step target c call pend =
     (if \<not> pid_matches target c then (pend, None)
      else (case call of
              EnterWrite fd buf n \<Rightarrow> (pend, Some (Sent (ucast fd) (shown c buf (ucast n)) (ucast n)))
            | EnterRead fd buf \<Rightarrow> (pend(pidTgid c \<mapsto> (buf, ucast fd)), None)
            | ExitRead ret \<Rightarrow>
                (case pend (pidTgid c) of
                   None \<Rightarrow> (pend, None)
                 | Some (buf, fd) \<Rightarrow>
                     (pend(pidTgid c := None),
                      if 0 < sint ret then Some (Received fd (shown c buf (ucast ret)) (ucast ret)) else None))
            | EnterClose fd \<Rightarrow> (pend, Some (ClosedFD (ucast fd)))
            | _ \<Rightarrow> (pend, None)))"

fun process_io :: "uint32 \<Rightarrow> pending_reads \<Rightarrow> (kctx \<times> kcall) list \<Rightarrow> sock_io list" where
  "process_io target pend [] = []"
| "process_io target pend ((c, call) # calls) =
     (case io_step target c call pend of
        (pend', None) \<Rightarrow> process_io target pend' calls
      | (pend', Some io) \<Rightarrow> io # process_io target pend' calls)"

definition event_io :: "event \<Rightarrow> sock_io option" where
  "event_io e =
     (if Operation e = OpWrite then Some (Sent (FD e) (captured e) (TotalLen e))
      else if Operation e = OpRead then Some (Received (FD e) (captured e) (TotalLen e))
      else if Operation e = OpClose then Some (ClosedFD (FD e))
      else None)"

text \<open>The kernel has room for the event and for the arguments of a \<open>read\<close>.\<close>

definition lossless :: "kctx \<Rightarrow> bool" where
  "lossless c \<longleftrightarrow> slot c \<noteq> None \<and> stashOk c"

section \<open>The events are the I/O of the process\<close>

lemma captured_capture:
  assumes "kctx_ok c" and "DataLen e = 0"
  shows "captured (capture c buf n e) = shown c buf n"
proof -
  have "length bs = min (unat n) 4095" if "userMem c buf (min (unat n) 4095) = Some bs" for bs
    using assms(1) that by (simp add: kctx_ok_def)
  then show ?thesis
    using assms(2) by (auto simp: captured_def capture_def shown_def unat_capture_len Let_def split: option.splits)
qed

lemma kernel_step_io:
  assumes "kernel_step target c call s = (s', r)" and "kctx_ok c" and "lossless c"
  shows "io_step target c call (readStash s) = (readStash s', Option.bind r event_io)"
proof -
  obtain stale where "slot c = Some stale" "stashOk c" using assms(3) by (auto simp: lossless_def)
  then show ?thesis
    using assms(1)
    by (cases call) (auto simp: kernel_defs io_step_def event_io_def fill_common_def captured_capture [OF assms(2)] Let_def
        split: if_splits option.splits)
qed

lemma kernel_run_io:
  assumes "kernel_run target calls s = (s', es)" and "list_all (\<lambda>(c, call). kctx_ok c \<and> lossless c) calls"
  shows "process_io target (readStash s) calls = List.map_filter event_io es"
  using assms
proof (induction target calls s arbitrary: s' es rule: kernel_run.induct)
  case (2 target c call calls s)
  obtain s1 r where 1: "kernel_step target c call s = (s1, r)" by (cases "kernel_step target c call s")
  obtain s2 fs where 2: "kernel_run target calls s1 = (s2, fs)" by (cases "kernel_run target calls s1")
  have "io_step target c call (readStash s) = (readStash s1, Option.bind r event_io)"
    using kernel_step_io [OF 1] "2.prems"(2) by simp
  moreover have "process_io target (readStash s1) calls = List.map_filter event_io fs"
    using "2.IH" [OF 1 [symmetric] 2] "2.prems"(2) by simp
  moreover have "es = (case r of None \<Rightarrow> fs | Some e \<Rightarrow> e # fs)" using "2.prems"(1) 1 2 by simp
  ultimately show ?case by (cases r; cases "Option.bind r event_io") (auto simp: map_filter_simps)
qed (simp add: map_filter_simps)

section \<open>The I/O on one descriptor\<close>

definition fd_key :: "uint32 \<Rightarrow> int32 \<Rightarrow> stream_key" where
  "fd_key target fd = StreamKey target connFD (ucast fd)"

definition sent_bytes :: "sock_io list \<Rightarrow> bytes" where
  "sent_bytes ios = concat (map io_bytes (filter is_Sent ios))"

definition received_bytes :: "sock_io list \<Rightarrow> bytes" where
  "received_bytes ios = concat (map io_bytes (filter is_Received ios))"

definition cut_short :: "sock_io list \<Rightarrow> bool" where
  "cut_short ios \<longleftrightarrow> (\<exists>io \<in> set ios. length (io_bytes io) < unat (io_len io))"

lemma widen_fd: "(ucast (ucast fd :: uint64) :: int32) = fd"
  by (rule ucast_up_ucast_id) (simp add: is_up)

lemma fd_key_inj [simp]: "fd_key target fd = fd_key target fd' \<longleftrightarrow> fd = fd'"
  using widen_fd by (metis fd_key_def stream_key.inject)

lemma event_io_key:
  assumes "submitted_ok target e"
  shows "stream_key_of e = Some (fd_key target fd) \<longleftrightarrow> (\<exists>io. event_io e = Some io \<and> io_fd io = fd)"
proof -
  have "stream_key_of e = Some (fd_key target (FD e))" if "Operation e \<in> {OpRead, OpWrite, OpClose}"
    using that assms by (auto simp: stream_key_of_def fd_key_def submitted_ok_def)
  moreover have "stream_key_of e \<noteq> Some (fd_key target fd)" if "Operation e \<notin> {OpRead, OpWrite, OpClose}"
    using that by (auto simp: stream_key_of_def fd_key_def)
  ultimately show ?thesis
    by (cases "Operation e \<in> {OpRead, OpWrite, OpClose}") (auto simp: event_io_def)
qed

lemma key_events:
  assumes "list_all (submitted_ok target) es"
  shows "map event_io (filter (\<lambda>e. stream_key_of e = Some (fd_key target fd)) es) =
    map Some (filter (\<lambda>io. io_fd io = fd) (List.map_filter event_io es))"
  using assms
proof (induction es)
  case (Cons e es)
  then show ?case using event_io_key [of target e fd] by (cases "event_io e") (auto simp: map_filter_simps)
qed (simp add: map_filter_simps)

lemma event_io_Some:
  assumes "event_io e = Some io" and "submitted_ok target e"
  shows "(is_ClosedFD io \<longleftrightarrow> Operation e = OpClose) \<and> is_read e = is_Received io \<and> is_write e = is_Sent io \<and>
    (\<not> is_ClosedFD io \<longrightarrow> data_ok e \<and> io_bytes io = captured e \<and> Truncated e = (length (io_bytes io) < unat (io_len io)))"
proof -
  have "unat (DataLen e) \<le> 4095" "length (Data e) = dataCap" "Operation e \<notin> {OpSSLRead, OpSSLWrite} \<or> event_io e = None"
    using assms(2) by (auto simp: submitted_ok_def event_wf_def event_io_def)
  then show ?thesis
    using assms(1)
    by (auto simp: event_io_def is_read_def is_write_def data_ok_def captured_def Truncated_def dataCap_def word_less_nat_alt
        split: if_splits)
qed

lemma io_streams:
  assumes "map event_io kmid = map Some ios" and "list_all (submitted_ok target) kmid" and "\<forall>io \<in> set ios. \<not> is_ClosedFD io"
  shows "concat (map captured (filter is_read kmid)) = received_bytes ios \<and>
    concat (map captured (filter is_write kmid)) = sent_bytes ios \<and> list_ex Truncated kmid = cut_short ios \<and>
    (\<forall>e \<in> set kmid. data_ok e \<and> (is_read e \<or> is_write e))"
  using assms
proof (induction kmid arbitrary: ios)
  case (Cons e kmid)
  then obtain io ios' where ios: "ios = io # ios'" and e: "event_io e = Some io" by (cases ios) auto
  have ok: "submitted_ok target e" using Cons.prems(2) by simp
  have "is_Received io \<or> is_Sent io" using Cons.prems(3) ios by (cases io) auto
  with Cons.IH [of ios'] Cons.prems ios event_io_Some [OF e ok] show ?case
    by (auto simp: received_bytes_def sent_bytes_def cut_short_def)
qed (simp add: received_bytes_def sent_bytes_def cut_short_def)

text \<open>
  The I/O on a descriptor from an opening on: since the start of the trace or behind a close, without
  a close inside, and closed at the end or still open when the trace ends.
\<close>

definition io_lifetime :: "int32 \<Rightarrow> sock_io list \<Rightarrow> sock_io list \<Rightarrow> bool" where
  "io_lifetime fd all_io ios \<longleftrightarrow> ios \<noteq> [] \<and> (\<forall>io \<in> set ios. \<not> is_ClosedFD io) \<and>
     (\<exists>earlier rest. filter (\<lambda>io. io_fd io = fd) all_io = earlier @ ios @ rest \<and>
        (earlier = [] \<or> is_ClosedFD (last earlier)) \<and> (rest = [] \<or> is_ClosedFD (hd rest)))"

lemma map_event_io_split:
  assumes "map event_io kev = map Some (xs @ ys)"
  obtains kx ky where "kev = kx @ ky" "map event_io kx = map Some xs" "map event_io ky = map Some ys"
proof
  let ?n = "length xs"
  show "kev = take ?n kev @ drop ?n kev" by simp
  show "map event_io (take ?n kev) = map Some xs" "map event_io (drop ?n kev) = map Some ys"
    using assms by (simp_all flip: take_map drop_map)
qed

lemma io_fd_flush [simp]: "flush_fd (fd_key target fd) = fd" "kpid (fd_key target fd) = target"
  by (simp_all add: flush_fd_def fd_key_def widen_fd)

lemma decode_at_close:
  assumes "event_io cl = Some io" and "is_ClosedFD io" and "io_fd io = fd" and "submitted_ok target cl"
    and "decode H U target fd (bufRead b) (bufWrite b) (bufTruncated b) = Ret (ex, True)"
  shows "stream_local H U (Some b) cl = Ret (None, [ex])"
proof -
  have "Operation cl = OpClose" "FD cl = fd" "PID cl = target"
    using assms(1-4) by (auto simp: event_io_def submitted_ok_def split: if_splits)
  then show ?thesis using assms(5) by (simp add: stream_local_close)
qed

lemma lifetime_recorded:
  assumes ok: "list_all (submitted_ok target) es" and life: "io_lifetime fd (List.map_filter event_io es) ios"
    and "map_order ord" and run: "streamer_Run H U ord es = Ret (raw, exs)"
    and dec: "decode H U target fd (take bufCap (received_bytes ios)) (take bufCap (sent_bytes ios)) (cut_short ios) = Ret (ex, True)"
  shows "ex \<in> set exs"
proof -
  let ?k = "fd_key target fd" and ?loc = "run_stage (stream_local H U)"
  let ?kev = "filter (\<lambda>e. stream_key_of e = Some ?k) es"
  obtain bufs closed where ks: "set (ord bufs) = dom bufs"
    and exs: "exs = closed @ concat (map (\<lambda>k. leftover H U k (bufs k)) (ord bufs))"
    and "\<forall>k. ?loc None (filter (\<lambda>e. stream_key_of e = Some k) es) = Ret (bufs k, filter (\<lambda>ex. exchange_key ex = k) closed)"
    by (rule streamer_connections [OF assms(3) run])
  then have loc: "?loc None ?kev = Ret (bufs ?k, filter (\<lambda>ex. exchange_key ex = ?k) closed)" by blast
  obtain earlier rest where io: "filter (\<lambda>io. io_fd io = fd) (List.map_filter event_io es) = earlier @ ios @ rest"
    and earlier: "earlier = [] \<or> is_ClosedFD (last earlier)" and rest: "rest = [] \<or> is_ClosedFD (hd rest)"
    and ios: "ios \<noteq> []" "\<forall>io \<in> set ios. \<not> is_ClosedFD io"
    using life unfolding io_lifetime_def by blast
  have "map event_io ?kev = map Some (earlier @ ios @ rest)" using key_events [OF ok, of fd] io by simp
  then obtain kpre kmid krest where kev: "?kev = kpre @ kmid @ krest" and kpre: "map event_io kpre = map Some earlier"
    and kmid: "map event_io kmid = map Some ios" and krest: "map event_io krest = map Some rest"
    by (metis map_event_io_split)
  have all: "list_all (submitted_ok target) (kpre @ kmid @ krest)"
    using ok kev [symmetric] by (simp add: list_all_iff)
  have fds: "\<forall>io \<in> set rest. io_fd io = fd"
  proof -
    have "set rest \<subseteq> set (filter (\<lambda>io. io_fd io = fd) (List.map_filter event_io es))" unfolding io by auto
    then show ?thesis by auto
  qed
  obtain m1 os1 m2 os2 os3 where 1: "?loc None kpre = Ret (m1, os1)" and 2: "?loc m1 kmid = Ret (m2, os2)"
    and 3: "?loc m2 krest = Ret (bufs ?k, os3)" and out: "filter (\<lambda>ex. exchange_key ex = ?k) closed = os1 @ os2 @ os3"
    using loc unfolding kev by (auto simp: run_stage_append_Ret)
  have "m1 = None"
  proof (cases "kpre = []")
    case True
    then show ?thesis using 1 by simp
  next
    case False
    moreover from this have "earlier \<noteq> []" using kpre by auto
    moreover have "event_io (last kpre) = Some (last earlier)"
      using kpre last_map [OF False, of event_io] last_map [OF \<open>earlier \<noteq> []\<close>, of Some] by simp
    ultimately have "last kpre \<in> set kpre" "event_io (last kpre) = Some (last earlier)" "earlier \<noteq> []" by simp_all
    then have "Operation (last kpre) = OpClose"
      using event_io_Some [of "last kpre" "last earlier" target] all earlier by (auto simp: list_all_iff)
    with stream_local_after_close [OF 1] False show ?thesis by simp
  qed
  moreover have "kmid \<noteq> []" using kmid ios(1) by auto
  moreover note streams = io_streams [OF kmid _ ios(2), of target]
  ultimately have m2: "m2 = Some (assembled kmid)"
    using 2 stream_local_assembles [of kmid H U] all by simp
  have dec': "decode H U target fd (bufRead (assembled kmid)) (bufWrite (assembled kmid)) (bufTruncated (assembled kmid)) = Ret (ex, True)"
    using dec streams all by (simp add: assembled_def)
  show ?thesis
  proof (cases krest)
    case Nil
    then have "bufs ?k = Some (assembled kmid)" using 3 m2 by simp
    then have "leftover H U ?k (bufs ?k) = [ex]" "?k \<in> set (ord bufs)" using dec' ks by (auto simp: leftover_def)
    then show ?thesis using exs by fastforce
  next
    case (Cons cl kr)
    then obtain io rest' where "rest = io # rest'" and "event_io cl = Some io" using krest by (cases rest) auto
    then have "stream_local H U (Some (assembled kmid)) cl = Ret (None, [ex])"
      using rest fds all Cons dec' by (intro decode_at_close) auto
    then have "ex \<in> set os3" using 3 m2 Cons by (auto simp: run_stage_Cons_Ret)
    then have "ex \<in> set (filter (\<lambda>ex. exchange_key ex = ?k) closed)" using out by simp
    then show ?thesis using exs by simp
  qed
qed

section \<open>Properties\<close>

text \<open>The ring buffer holds the submitted events in order, as the collector is closed behind them.\<close>

definition ring_holds :: "event list \<Rightarrow> ring_read list \<Rightarrow> bool" where
  "ring_holds es rs \<longleftrightarrow> (\<exists>recs. rs = recs @ [RingClosed] \<and>
     list_all2 (\<lambda>r e. \<exists>gap1 gap2. length gap1 = 4 \<and> length gap2 = 2 \<and> r = RingRecord (struct_event e gap1 gap2)) recs es)"

lemma readLoop_ring:
  assumes "ring_holds es rs" and "list_all event_wf es"
  shows "readLoop rs = map Inl es \<and> ends rs"
proof -
  obtain recs where rs: "rs = recs @ [RingClosed]"
    and recs: "list_all2 (\<lambda>r e. \<exists>gap1 gap2. length gap1 = 4 \<and> length gap2 = 2 \<and> r = RingRecord (struct_event e gap1 gap2)) recs es"
    using assms(1) unfolding ring_holds_def by blast
  have "readLoop (recs @ [RingClosed]) = map Inl es"
    using recs assms(2)
  proof (induction recs es rule: list_all2_induct)
    case (Cons r recs e es)
    then obtain gap1 gap2 where "length gap1 = 4" "length gap2 = 2" "r = RingRecord (struct_event e gap1 gap2)" by blast
    with Cons decode_struct_event [of e gap1 gap2 "[]"] show ?case by simp
  qed simp
  then show ?thesis using rs by (simp add: ends_def)
qed

lemma collector_delivers_events:
  assumes "run_reach False rs [] st" and "run_stuck st" and "ring_holds es rs" and "list_all event_wf es"
  shows "eventsGot st = es \<and> errsGot st = [] \<and> runClosed st"
proof -
  note loop = readLoop_ring [OF assms(3,4)]
  have inv: "run_inv False rs [] st" by (rule run_reach_inv [OF assms(1)])
  note stuck = run_stuck_phase [OF assms(2)]
  from inv obtain sent z where s: "readLoop rs = sent @ to_send (rdReader st)" "to_send (tlsReader st) = []"
    "z \<in> shuffles sent []" "eventsGot st @ eventsq st = lefts z" "errsGot st @ errsq st = rights z"
    "will_return (rdReader st)" "will_return (tlsReader st)"
    using loop by (auto simp: run_inv_def)
  have "snd (rdReader st) = ReaderReturned" "snd (tlsReader st) = ReaderReturned"
    using s(6,7) stuck by (cases "rdReader st"; cases "tlsReader st"; auto simp: ends_def)+
  moreover from this have "runClosed st"
    using assms(2) close_channels unfolding run_stuck_def by blast
  moreover have "to_send (rdReader st) = []" using calculation(1) by (cases "rdReader st") simp
  ultimately show ?thesis using s loop stuck by auto
qed

lemma connection_recorded:
  assumes kernel: "kernel_run target calls kernel_init = (s, es)" and "list_all (\<lambda>(c, call). kctx_ok c \<and> lossless c) calls"
    and ring: "ring_holds es rs" and collector: "run_reach False rs [] st" "run_stuck st"
    and streamer: "map_order ord" "streamer_Run H U ord (eventsGot st) = Ret (raw, exs)"
    and life: "io_lifetime fd (process_io target Map.empty calls) ios"
    and dec: "decode H U target fd (take bufCap (received_bytes ios)) (take bufCap (sent_bytes ios)) (cut_short ios) = Ret (ex, True)"
  shows "ex \<in> set exs \<and> raw = es"
proof -
  have "list_all (\<lambda>(c, call). kctx_ok c) calls" using assms(2) by (auto simp: list_all_iff)
  then have ok: "list_all (submitted_ok target) es" by (rule kernel_run_submitted [OF kernel])
  then have "list_all event_wf es" by (auto simp: list_all_iff submitted_ok_def)
  then have got: "eventsGot st = es" using collector_delivers_events [OF collector ring] by simp
  have "process_io target Map.empty calls = List.map_filter event_io es"
    using kernel_run_io [OF kernel assms(2)] by (simp add: kernel_init_def)
  then have "ex \<in> set exs"
    using lifetime_recorded [OF ok _ streamer(1) _ dec] life streamer(2) got by simp
  then show ?thesis using got by (auto intro: streamer_connections [OF streamer])
qed

text \<open>
  C2: What is recorded is what the process did. Take any execution of the traced process and others,
  in which the kernel loses no event, and a lifetime of one of the process's descriptors in it,
  closed or still open at the end. Whatever the interleaving of the goroutines of \<open>Collector.Run\<close>,
  the streamer, run on the events they deliver, produces the exchange that decodes exactly the
  bytes the process sent and received on that descriptor, up to 4095 of each call and 64 KB per
  direction, marked as truncated if a call had more.
\<close>

theorem recorded_connection:
  assumes kernel: "kernel_run target calls kernel_init = (s, es)" and "list_all (\<lambda>(c, call). kctx_ok c \<and> lossless c) calls"
    and ring: "ring_holds es rs" and collector: "run_reach False rs [] st" "run_stuck st"
    and streamer: "map_order ord" "streamer_Run H U ord (eventsGot st) = Ret (raw, exs)"
    and life: "io_lifetime fd (process_io target Map.empty calls) ios"
    and dec: "decode H U target fd (take bufCap (received_bytes ios)) (take bufCap (sent_bytes ios)) (cut_short ios) = Ret (ex, True)"
  shows "ex \<in> set exs \<and> raw = es"
  by (rule connection_recorded [OF assms])

text \<open>
  C1: From system calls to the replay. Let the bytes the process sent on a descriptor be the Redis
  commands \<open>cmds\<close> and those it received the replies \<open>reps\<close>, each with what is left of a cut-off value
  and at most 64 KB. Take a data command whose text, up to letter case, is first that of \<open>cmds ! j\<close>,
  and that was sent on no other recorded Redis connection, and the test case built from what the
  kernel programs, the collector and the streamer made of these calls. The proxy with its dependencies
  answers this command so that a client reads the reply the process received to \<open>cmds ! j\<close>, exactly as
  it was, if and only if that is an error, an integer, a null bulk string, or a status whose text is
  not that of one of these; any reply rendered as one line that does not look like one of these is
  read as a status with the rendered text.
\<close>

theorem system_calls_to_replay:
  assumes kernel: "kernel_run target calls kernel_init = (s, es)" and ok: "list_all (\<lambda>(c, call). kctx_ok c \<and> lossless c) calls"
    and ring: "ring_holds es rs" and collector: "run_reach False rs [] st" "run_stuck st"
    and streamer: "map_order ord" "streamer_Run H U ord (eventsGot st) = Ret (raw, exs)"
    and life: "io_lifetime fd (process_io target Map.empty calls) ios"
    and sent: "sent_bytes ios = concat (map encode_command cmds) @ p" "length (sent_bytes ios) \<le> bufCap"
    and received: "received_bytes ios = concat (map encode_value reps) @ q" "length (received_bytes ios) \<le> bufCap"
    and cmds: "list_all command_ok cmds" "cmds \<noteq> []" and reps: "list_all resp_wf reps"
    and cut: "parseRESPValue (bytes_reader p) = Ret (Inl e)" "parseRESPValue (bytes_reader q) = Ret (Inl e')"
    and http: "\<not> snd (TryHTTP H (received_bytes ios) (sent_bytes ios))"
    and elsewhere: "\<forall>x \<in> set exs. exProtocol x = ProtocolRedis \<and> exRedis x \<noteq> expected_calls U cmds reps \<longrightarrow>
      (\<forall>call \<in> set (exRedis x). command_text U (Command call) \<noteq> command_text U cmd)"
    and build: "Build unmarshal name exs = (tc, None)"
    and cmd: "data_command U cmd" "j < length cmds" "data_command U (cmds ! j)" "command_text U (cmds ! j) = command_text U cmd"
      "\<forall>l < j. data_command U (cmds ! l) \<longrightarrow> command_text U (cmds ! l) \<noteq> command_text U cmd"
    and reply: "j < length reps"
    and out: "out = proxy_reply U (redisDeps (tcDependencies tc)) cmd"
  shows "(answers out (reps ! j) \<longleftrightarrow> exact_reply (reps ! j)) \<and>
    (one_line (resp_String (reps ! j)) \<and> \<not> looks_special (resp_String (reps ! j)) \<longrightarrow>
       answers out (RESPValue (CHR ''+'') (resp_String (reps ! j)) [] False))"
proof -
  have calls: "TryRESP U (concat (map encode_command cmds) @ p) (concat (map encode_value reps) @ q) =
      Ret (expected_calls U cmds reps, expected_calls U cmds reps \<noteq> [])"
    by (rule TryRESP_encoded [OF cmds reps cut])
  have "expected_calls U cmds reps \<noteq> []" using cmd(2,3) by (auto simp: expected_calls_def filter_empty_conv)
  moreover obtain h where "TryHTTP H (concat (map encode_value reps) @ q) (concat (map encode_command cmds) @ p) = (h, False)"
    using http unfolding sent received by (metis prod.collapse)
  ultimately obtain ex where dec: "decode H U target fd (concat (map encode_value reps) @ q) (concat (map encode_command cmds) @ p)
      (cut_short ios) = Ret (ex, True)"
    using calls by (simp add: decode_def Let_def)
  have "ex \<in> set exs"
    using connection_recorded [OF kernel ok ring collector streamer life, of ex] dec sent received by simp
  with decode_commands [OF cmds reps cut http [unfolded sent(1) received(1)] dec]
  have "\<exists>x \<in> set exs. exProtocol x = ProtocolRedis \<and> exRedis x = expected_calls U cmds reps" by blast
  then obtain before first after where exs: "exs = before @ first # after"
    and first: "exProtocol first = ProtocolRedis \<and> exRedis first = expected_calls U cmds reps"
    and earlier: "\<forall>x \<in> set before. \<not> (exProtocol x = ProtocolRedis \<and> exRedis x = expected_calls U cmds reps)"
    by (rule split_list_first_propE)
  have "\<forall>call \<in> set (redis_calls before). command_text U (Command call) \<noteq> command_text U cmd"
    using earlier elsewhere by (fastforce simp: redis_calls_def exs)
  from recorded_reply [OF first this build [unfolded exs] cmd reply]
  have "out = EncodeReply (resp_String (reps ! j))" by (simp add: out)
  moreover have "resp_wf (reps ! j)" using reps reply by (simp add: list_all_length)
  ultimately show ?thesis using replayed_exactly [of "reps ! j"] replayed_as_text [of "reps ! j"] by blast
qed

section \<open>An example\<close>

text \<open>A process that sends two Redis commands on descriptor 5, and reads an HTTP request on descriptor 9.\<close>

definition incr_wire :: bytes where
  "incr_wire = concat (map encode_command incr_twice)"

definition incr_answers :: bytes where
  "incr_answers = concat (map encode_value incr_replies)"

definition traced :: kctx where
  "traced = \<lparr>pidTgid = 30064771081, ktime = 5, slot = Some (replicate dataCap (CHR 0x7F)), stashOk = True,
     userMem = (\<lambda>a n. Some (take n ((if a = 100 then incr_wire else if a = 200 then incr_answers else ''GET '') @
       replicate n (CHR 0x00))))\<rparr>"

definition traced_calls :: "(kctx \<times> kcall) list" where
  "traced_calls = map (Pair traced) [EnterRead 9 300, ExitRead 4, EnterWrite 5 100 42, EnterRead 5 200, ExitRead 8,
     EnterClose 5, EnterClose 9]"

definition get_lib :: http_lib where
  "get_lib = \<lparr>ReadRequest = (\<lambda>buf. if HasPrefix buf ''GET '' then Inr \<lparr>Method = ''GET'', URLPath = ''/'', reqBody = []\<rparr>
       else Inl ''malformed''), ReadResponse = (\<lambda>buf req. Inl ''malformed'')\<rparr>"

lemma incr_lengths: "length incr_wire = 42" "length incr_answers = 8"
  by code_simp+

lemma traced_ok: "kctx_ok traced" "lossless traced"
  by (auto simp: kctx_ok_def lossless_def traced_def)

lemma traced_shown:
  "shown traced 100 42 = incr_wire" "shown traced 200 8 = incr_answers" "shown traced 300 4 = ''GET ''"
  by (simp_all add: shown_def traced_def incr_lengths)

abbreviation traced_io :: "sock_io list" where
  "traced_io \<equiv> [Received 9 ''GET '' 4, Sent 5 incr_wire 42, Received 5 incr_answers 8, ClosedFD 5, ClosedFD 9]"

lemma traced_process: "process_io 7 Map.empty traced_calls = traced_io"
proof -
  have "pid_matches 7 traced" by (simp add: pid_matches_def traced_def)
  then show ?thesis by (simp add: traced_calls_def io_step_def traced_shown)
qed

lemma traced_events:
  obtains s e1 e2 e3 e4 e5 where "kernel_run 7 traced_calls kernel_init = (s, [e1, e2, e3, e4, e5])"
    and "map event_io [e1, e2, e3, e4, e5] = map Some traced_io" and "list_all (submitted_ok 7) [e1, e2, e3, e4, e5]"
proof -
  obtain s es where run: "kernel_run 7 traced_calls kernel_init = (s, es)" by (cases "kernel_run 7 traced_calls kernel_init")
  then have "length es = 5"
    by (auto simp: traced_calls_def kernel_defs pid_matches_def traced_def kernel_init_def Let_def)
  then obtain e1 e2 e3 e4 e5 where es: "es = [e1, e2, e3, e4, e5]" by (auto simp: length_Suc_conv numeral_eq_Suc)
  have "list_all (\<lambda>(c, call). kctx_ok c \<and> lossless c) traced_calls" by (simp add: traced_calls_def traced_ok)
  from kernel_run_io [OF run this] have io: "List.map_filter event_io es = traced_io"
    using traced_process by (simp add: kernel_init_def)
  have "length (List.map_filter event_io es) = 5" unfolding io by simp
  then have "event_io e \<noteq> None" if "e \<in> set es" for e
    using that unfolding es by (auto simp: map_filter_simps split: option.splits)
  then have "map event_io es = map Some (List.map_filter event_io es)"
    unfolding es by (auto simp: map_filter_simps split: option.splits)
  moreover have "list_all (submitted_ok 7) es"
    by (rule kernel_run_submitted [OF run]) (simp add: traced_calls_def traced_ok)
  ultimately show thesis using that run es io by simp
qed

text \<open>One step of the streamer on an event, from the I/O it stands for.\<close>

lemma streamer_step_io:
  assumes "submitted_ok target e" and "event_io e = Some io"
  shows "streamer_step H U bufs e =
    map_exec_result (\<lambda>(m, exs). (bufs(fd_key target (io_fd io) := m), exs)) (stream_local H U (bufs (fd_key target (io_fd io))) e)"
proof -
  have "stream_key_of e = Some (fd_key target (io_fd io))" using event_io_key [OF assms(1)] assms(2) by blast
  then show ?thesis by (simp add: streamer_step_local)
qed

lemma stream_local_io:
  assumes "submitted_ok target e"
  shows "event_io e = Some (Sent fd bs n) \<Longrightarrow> stream_local H U m e =
      Ret (Some ((get_bufs m)\<lparr>bufWrite := appendCapped (bufWrite (get_bufs m)) bs,
        bufTruncated := bufTruncated (get_bufs m) \<or> length bs < unat n\<rparr>), [])"
    and "event_io e = Some (Received fd bs n) \<Longrightarrow> stream_local H U m e =
      Ret (Some ((get_bufs m)\<lparr>bufRead := appendCapped (bufRead (get_bufs m)) bs,
        bufTruncated := bufTruncated (get_bufs m) \<or> length bs < unat n\<rparr>), [])"
    and "event_io e = Some (ClosedFD fd) \<Longrightarrow> stream_local H U m e =
      (case m of None \<Rightarrow> Ret (None, [])
       | Some b \<Rightarrow> map_exec_result (\<lambda>(ex, ok). (None, if ok then [ex] else []))
           (decode H U target fd (bufRead b) (bufWrite b) (bufTruncated b)))"
proof -
  assume io: "event_io e = Some (Sent fd bs n)"
  from event_io_Some [OF io assms] show "stream_local H U m e =
      Ret (Some ((get_bufs m)\<lparr>bufWrite := appendCapped (bufWrite (get_bufs m)) bs,
        bufTruncated := bufTruncated (get_bufs m) \<or> length bs < unat n\<rparr>), [])"
    using stream_local_write [of e H U m] by simp
next
  assume io: "event_io e = Some (Received fd bs n)"
  from event_io_Some [OF io assms] show "stream_local H U m e =
      Ret (Some ((get_bufs m)\<lparr>bufRead := appendCapped (bufRead (get_bufs m)) bs,
        bufTruncated := bufTruncated (get_bufs m) \<or> length bs < unat n\<rparr>), [])"
    using stream_local_read [of e H U m] by simp
next
  assume io: "event_io e = Some (ClosedFD fd)"
  then have "Operation e = OpClose" "FD e = fd" "PID e = target"
    using assms by (auto simp: event_io_def submitted_ok_def split: if_splits)
  then show "stream_local H U m e = (case m of None \<Rightarrow> Ret (None, [])
       | Some b \<Rightarrow> map_exec_result (\<lambda>(ex, ok). (None, if ok then [ex] else []))
           (decode H U target fd (bufRead b) (bufWrite b) (bufTruncated b)))"
    by (cases m) (simp_all add: stream_local_close)
qed

lemma incr_decode:
  "decode get_lib ascii_tables 7 5 incr_answers incr_wire False = Ret (incr_exchange, True)"
proof -
  have "\<not> HasPrefix incr_wire ''GET ''" "\<not> HasPrefix incr_answers ''GET ''" by code_simp+
  then have http: "TryHTTP get_lib incr_answers incr_wire = (noExchange, False)"
    by (simp add: TryHTTP_def get_lib_def parseRequest_def parseResponse_def)
  have cmds: "list_all command_ok incr_twice" "incr_twice \<noteq> []"
    by (simp_all add: incr_twice_def command_ok_def command_value_def bulk_value_def maxAlloc_def resp_value_size_def)
  have reps: "list_all resp_wf incr_replies" by (simp add: incr_replies_def one_line_def)
  have "expected_calls ascii_tables incr_twice incr_replies \<noteq> []" by code_simp
  with TryRESP_encoded [OF cmds reps bytes_reader_empty_error bytes_reader_empty_error, of ascii_tables]
  have "TryRESP ascii_tables incr_wire incr_answers = Ret (expected_calls ascii_tables incr_twice incr_replies, True)"
    by (simp add: incr_wire_def incr_answers_def)
  then show ?thesis by (simp add: decode_def http incr_exchange_def)
qed

lemma get_decode:
  "\<exists>h. decode get_lib ascii_tables 7 9 ''GET '' [] False = Ret (\<lparr>exPID = 7, exFD = 9, exProtocol = ProtocolHTTP,
     exHTTP = Some h, exRedis = [], exTruncated = False\<rparr>, True)"
  by (simp add: decode_def TryHTTP_def get_lib_def parseRequest_def parseResponse_def HasPrefix_def Let_def)

lemma traced_recorded:
  assumes "map event_io [e1, e2, e3, e4, e5] = map Some traced_io" and "list_all (submitted_ok 7) [e1, e2, e3, e4, e5]"
  shows "\<exists>exH. exProtocol exH = ProtocolHTTP \<and> exHTTP exH \<noteq> None \<and>
    streamer_Run get_lib ascii_tables sorted_order [e1, e2, e3, e4, e5] = Ret ([e1, e2, e3, e4, e5], [incr_exchange, exH])"
proof -
  note io = assms(1) [simplified] and ok = assms(2) [simplified]
  have cap: "appendCapped [] xs = xs" if "length xs \<le> bufCap" for xs
    using that appendCapped_take [of "[]" xs] by simp
  have caps: "appendCapped [] incr_wire = incr_wire" "appendCapped [] incr_answers = incr_answers"
    "appendCapped [] ''GET '' = ''GET ''"
    by (rule cap; simp add: incr_lengths bufCap_def)+
  obtain h where h: "decode get_lib ascii_tables 7 9 ''GET '' [] False = Ret (\<lparr>exPID = 7, exFD = 9, exProtocol = ProtocolHTTP,
     exHTTP = Some h, exRedis = [], exTruncated = False\<rparr>, True)" using get_decode by blast
  let ?exH = "\<lparr>exPID = 7, exFD = 9, exProtocol = ProtocolHTTP, exHTTP = Some h, exRedis = [], exTruncated = False\<rparr>"
  have "run_stage (streamer_step get_lib ascii_tables) Map.empty [e1, e2, e3, e4, e5] = Ret (Map.empty, [incr_exchange, ?exH])"
    using io ok
    by (simp add: streamer_step_io [where target = 7] stream_local_io [where target = 7] get_bufs_def caps incr_decode h
        incr_lengths fun_upd_idem)
  then have "streamer_Run get_lib ascii_tables sorted_order [e1, e2, e3, e4, e5] = Ret ([e1, e2, e3, e4, e5], [incr_exchange, ?exH])"
    by (simp add: streamer_Run_def sorted_order_def del: run_stage.simps)
  then show ?thesis by fastforce
qed

lemma traced_ring: "ring_holds es (map (\<lambda>e. RingRecord (struct_event e ''gap.'' ''..'')) es @ [RingClosed])"
proof -
  have "\<exists>gap1 gap2. length gap1 = 4 \<and> length gap2 = 2 \<and> RingRecord (struct_event e ''gap.'' ''..'') = RingRecord (struct_event e gap1 gap2)"
    for e by (rule exI [of _ "''gap.''"], rule exI [of _ "''..''"]) simp
  then have "list_all2 (\<lambda>r e. \<exists>gap1 gap2. length gap1 = 4 \<and> length gap2 = 2 \<and> r = RingRecord (struct_event e gap1 gap2))
      (map (\<lambda>e. RingRecord (struct_event e ''gap.'' ''..'')) es) es"
    by (simp only: list.rel_map list_all2_same) simp
  then show ?thesis unfolding ring_holds_def by blast
qed

lemma traced_lifetimes:
  "io_lifetime 5 traced_io [Sent 5 incr_wire 42, Received 5 incr_answers 8]"
  unfolding io_lifetime_def
  by (rule conjI, simp, rule conjI, simp, rule exI [of _ "[]"], rule exI [of _ "[ClosedFD 5]"]) simp

lemma traced_bytes:
  "sent_bytes [Sent 5 incr_wire 42, Received 5 incr_answers 8] = incr_wire"
  "received_bytes [Sent 5 incr_wire 42, Received 5 incr_answers 8] = incr_answers"
  "length incr_wire \<le> bufCap" "length incr_answers \<le> bufCap"
  "\<not> cut_short [Sent 5 incr_wire 42, Received 5 incr_answers 8]"
  by (simp_all add: sent_bytes_def received_bytes_def cut_short_def incr_lengths bufCap_def)

text \<open>One complete run of the example, from the kernel to the exchanges.\<close>

lemma traced_run:
  obtains s es rs and st :: run_state and exH where "kernel_run 7 traced_calls kernel_init = (s, es)"
    and "list_all (\<lambda>(c, call). kctx_ok c \<and> lossless c) traced_calls"
    and "ring_holds es rs" and "run_reach False rs [] st" and "run_stuck st" and "eventsGot st = es"
    and "streamer_Run get_lib ascii_tables sorted_order (eventsGot st) = Ret (es, [incr_exchange, exH])"
    and "exProtocol exH = ProtocolHTTP" and "exHTTP exH \<noteq> None"
proof -
  obtain s e1 e2 e3 e4 e5 where kernel: "kernel_run 7 traced_calls kernel_init = (s, [e1, e2, e3, e4, e5])"
    and io: "map event_io [e1, e2, e3, e4, e5] = map Some traced_io" and ok: "list_all (submitted_ok 7) [e1, e2, e3, e4, e5]"
    by (rule traced_events)
  let ?es = "[e1, e2, e3, e4, e5]"
  let ?rs = "map (\<lambda>e. RingRecord (struct_event e ''gap.'' ''..'')) ?es @ [RingClosed]"
  obtain st where "run_step\<^sup>*\<^sup>* (run_init False ?rs []) st" and stuck: "run_stuck st" using run_ends by blast
  then have reach: "run_reach False ?rs [] st" by (simp add: run_reach_def)
  have "list_all event_wf ?es" using ok by (auto simp: submitted_ok_def)
  then have got: "eventsGot st = ?es" using collector_delivers_events [OF reach stuck traced_ring] by simp
  obtain exH where "streamer_Run get_lib ascii_tables sorted_order (eventsGot st) = Ret (?es, [incr_exchange, exH])"
    and "exProtocol exH = ProtocolHTTP" "exHTTP exH \<noteq> None"
    using traced_recorded [OF io ok] got by auto
  moreover have "list_all (\<lambda>(c, call). kctx_ok c \<and> lossless c) traced_calls" by (simp add: traced_calls_def traced_ok)
  ultimately show thesis using that kernel traced_ring reach stuck got by blast
qed

theorem recorded_connection_witness:
  "\<exists>s es (st :: run_state) raw exs. kernel_run 7 traced_calls kernel_init = (s, es) \<and> eventsGot st = es \<and>
     streamer_Run get_lib ascii_tables sorted_order (eventsGot st) = Ret (raw, exs) \<and> incr_exchange \<in> set exs \<and> raw = es"
proof -
  obtain s es rs st exH where kernel: "kernel_run 7 traced_calls kernel_init = (s, es)"
    and all: "list_all (\<lambda>(c, call). kctx_ok c \<and> lossless c) traced_calls"
    and collector: "ring_holds es rs" "run_reach False rs [] st" "run_stuck st" and got: "eventsGot st = es"
    and run: "streamer_Run get_lib ascii_tables sorted_order (eventsGot st) = Ret (es, [incr_exchange, exH])"
    by (rule traced_run)
  have "incr_exchange \<in> set [incr_exchange, exH] \<and> es = es"
    by (rule recorded_connection [OF kernel all collector map_order_sorted run traced_lifetimes [folded traced_process]])
      (simp add: traced_bytes incr_decode bufCap_def incr_lengths)
  with kernel got run show ?thesis by blast
qed

theorem system_calls_to_replay_witness:
  "\<exists>(st :: run_state) raw exs (tc :: bytes TestCase). streamer_Run get_lib ascii_tables sorted_order (eventsGot st) = Ret (raw, exs) \<and>
     Build (\<lambda>_. None) ''t'' exs = (tc, None) \<and>
     parseRESPValue (bytes_reader (proxy_reply ascii_tables (redisDeps (tcDependencies tc)) [''INCR'', ''n''])) =
       Ret (Inr (RESPValue (CHR '':'') ''1'' [] False, bytes_reader []))"
proof -
  obtain s es rs st exH where kernel: "kernel_run 7 traced_calls kernel_init = (s, es)"
    and all: "list_all (\<lambda>(c, call). kctx_ok c \<and> lossless c) traced_calls"
    and collector: "ring_holds es rs" "run_reach False rs [] st" "run_stuck st"
    and run: "streamer_Run get_lib ascii_tables sorted_order (eventsGot st) = Ret (es, [incr_exchange, exH])"
    and exH: "exProtocol exH = ProtocolHTTP" "exHTTP exH \<noteq> None"
    by (rule traced_run)
  obtain tc where build: "Build (\<lambda>_. None :: bytes option) ''t'' [incr_exchange, exH] = (tc, None)"
    using exH by (auto simp: Build_def build_step_def incr_exchange_def)
  let ?out = "proxy_reply ascii_tables (redisDeps (tcDependencies tc)) [''INCR'', ''n'']"
  have cmds: "list_all command_ok incr_twice" "incr_twice \<noteq> []"
    by (simp_all add: incr_twice_def command_ok_def command_value_def bulk_value_def maxAlloc_def resp_value_size_def)
  have reps: "list_all resp_wf incr_replies" by (simp add: incr_replies_def one_line_def)
  have cmd: "data_command ascii_tables [''INCR'', ''n'']" "data_command ascii_tables (incr_twice ! 0)"
    "command_text ascii_tables (incr_twice ! 0) = command_text ascii_tables [''INCR'', ''n'']"
    by code_simp+
  have http: "\<not> snd (TryHTTP get_lib incr_answers incr_wire)"
  proof
    assume "snd (TryHTTP get_lib incr_answers incr_wire)"
    then have "exProtocol (fst (case decode get_lib ascii_tables 7 5 incr_answers incr_wire False of Ret x \<Rightarrow> x)) = ProtocolHTTP"
      by (auto simp: decode_def Let_def split: prod.splits)
    then show False by (simp add: incr_decode incr_exchange_def)
  qed
  have sent: "sent_bytes [Sent 5 incr_wire 42, Received 5 incr_answers 8] = concat (map encode_command incr_twice) @ []"
    and received: "received_bytes [Sent 5 incr_wire 42, Received 5 incr_answers 8] = concat (map encode_value incr_replies) @ []"
    using traced_bytes(1,2) by (simp_all only: append_Nil2) (simp_all only: incr_wire_def incr_answers_def)
  have "(answers ?out (incr_replies ! 0) \<longleftrightarrow> exact_reply (incr_replies ! 0)) \<and>
      (one_line (resp_String (incr_replies ! 0)) \<and> \<not> looks_special (resp_String (incr_replies ! 0)) \<longrightarrow>
         answers ?out (RESPValue (CHR ''+'') (resp_String (incr_replies ! 0)) [] False))"
    by (rule system_calls_to_replay [OF kernel all collector map_order_sorted run
          traced_lifetimes [folded traced_process] sent _ received _ cmds reps bytes_reader_empty_error bytes_reader_empty_error
          _ _ build cmd(1) _ cmd(2,3)])
      (use http exH in \<open>simp_all add: traced_bytes incr_exchange_def\<close>,
       simp_all add: incr_twice_def incr_replies_def)
  then have "answers ?out (incr_replies ! 0)" by (simp add: incr_replies_def exact_reply_def)
  from answers_reader [OF this] show ?thesis using run build by (intro exI [of _ st]) (auto simp: incr_replies_def)
qed

end
