(* ===== verification/Wiring.thy ===== *)
theory Wiring
  imports Attach Kernel Streamer
begin

text \<open>
  How the two sides of the kernel boundary fit together: the kernel programs of \<open>src/bpf\<close> by the
  name and the section under which the object file has them, against what \<open>New\<close> and \<open>EnableTLS\<close>
  attach; and the byte order of the records against the one \<open>decodeEvent\<close> reads.
\<close>

section \<open>Programs and sections\<close>

primrec kcall_program :: "kcall \<Rightarrow> bpf_obj" where
  "kcall_program (EnterConnect fd addr) = SyscallProgram ''trace_enter_connect''"
| "kcall_program (EnterWrite fd buf n) = SyscallProgram ''trace_enter_write''"
| "kcall_program (EnterRead fd buf) = SyscallProgram ''trace_enter_read''"
| "kcall_program (ExitRead ret) = SyscallProgram ''trace_exit_read''"
| "kcall_program (EnterClose fd) = SyscallProgram ''trace_enter_close''"
| "kcall_program (SslWrite ssl buf n) = TlsProgram ''trace_ssl_write''"
| "kcall_program (SslReadEnter ssl buf) = TlsProgram ''trace_ssl_read_enter''"
| "kcall_program (SslReadExit ret) = TlsProgram ''trace_ssl_read_exit''"

primrec kcall_section :: "kcall \<Rightarrow> bytes" where
  "kcall_section (EnterConnect fd addr) = ''tracepoint/syscalls/sys_enter_connect''"
| "kcall_section (EnterWrite fd buf n) = ''tracepoint/syscalls/sys_enter_write''"
| "kcall_section (EnterRead fd buf) = ''tracepoint/syscalls/sys_enter_read''"
| "kcall_section (ExitRead ret) = ''tracepoint/syscalls/sys_exit_read''"
| "kcall_section (EnterClose fd) = ''tracepoint/syscalls/sys_enter_close''"
| "kcall_section (SslWrite ssl buf n) = ''uprobe/SSL_write''"
| "kcall_section (SslReadEnter ssl buf) = ''uprobe/SSL_read''"
| "kcall_section (SslReadExit ret) = ''uretprobe/SSL_read''"

text \<open>
  Where a link runs its program, in the notation of the sections: \<open>link.Tracepoint("syscalls", name)\<close>,
  \<open>Uprobe\<close> and \<open>Uretprobe\<close>.
\<close>

definition link_point :: "handle \<Rightarrow> (bytes \<times> bpf_obj) option" where
  "link_point h =
     (case h of
        Tracepoint name (Some prog) \<Rightarrow> Some (''tracepoint/syscalls/'' @ name, prog)
      | Uprobe symbol ret (Some prog) \<Rightarrow> Some ((if ret then ''uretprobe/'' else ''uprobe/'') @ symbol, prog)
      | _ \<Rightarrow> None)"

section \<open>Byte order\<close>

text \<open>The record as the program object for big-endian targets (\<open>syscall_bpfeb.o\<close>) lays it out.\<close>

definition be_bytes :: "nat \<Rightarrow> nat \<Rightarrow> bytes" where
  "be_bytes n x = rev (le_bytes n x)"

definition struct_event_be :: "event \<Rightarrow> bytes \<Rightarrow> bytes \<Rightarrow> bytes" where
  "struct_event_be e gap1 gap2 =
     be_bytes 4 (unat (PID e)) @ be_bytes 4 (unat (TID e)) @ be_bytes 8 (unat (Timestamp e)) @
     be_bytes 4 (unat (FD e)) @ be_bytes 4 (unat (Operation e)) @ be_bytes 4 (unat (RetVal e)) @
     gap1 @ be_bytes 8 (unat (SSLPtr e)) @ be_bytes 4 (unat (RemoteAddr e)) @
     be_bytes 2 (unat (RemotePort e)) @ gap2 @ be_bytes 4 (unat (TotalLen e)) @
     be_bytes 4 (unat (DataLen e)) @ Data e"

lemma length_be_bytes [simp]: "length (be_bytes n x) = n"
  by (simp add: be_bytes_def)

lemma le_val_be_small: "x < 256 \<Longrightarrow> le_val (be_bytes 4 x) = x * 16777216"
proof -
  assume "x < 256"
  moreover have "(4 :: nat) = Suc (Suc (Suc (Suc 0)))" by simp
  ultimately show ?thesis unfolding be_bytes_def by (simp only:) simp
qed

lemma decode_be:
  assumes "event_wf e" and "length gap1 = 4" and "length gap2 = 2" and "unat (Operation e) < 256"
  shows "\<exists>e'. decodeEvent (struct_event_be e gap1 gap2) = Inr e' \<and> Operation e' = Operation e * 16777216"
proof -
  let ?raw = "struct_event_be e gap1 gap2"
  have "length ?raw = event_size" using assms by (simp add: struct_event_be_def event_size_def event_wf_def)
  then have "?raw \<noteq> []" and "\<not> length ?raw < event_size" by (auto simp: event_size_def)
  moreover have "le_field 20 4 ?raw = unat (Operation e) * 16777216"
    using le_val_be_small [OF assms(4)] by (simp add: struct_event_be_def le_field_def)
  moreover have "of_nat (unat (Operation e) * 16777216) = Operation e * 16777216" by simp
  ultimately show ?thesis by (simp add: decodeEvent_def)
qed

lemma swapped_op_ignored:
  assumes "Operation e \<in> {OpConnect, OpRead, OpWrite, OpClose, OpSSLWrite, OpSSLRead}"
    and "Operation e' = Operation e * 16777216"
  shows "stream_key_of e' = None"
  using assms by (auto simp: stream_key_of_def)

lemma streamer_ignores:
  assumes "map_order ord" and "list_all (\<lambda>e. stream_key_of e = None) evs"
  shows "streamer_Run H U ord evs = Ret (evs, [])"
proof -
  have "run_stage (streamer_step H U) bufs evs = Ret (bufs, [])" for bufs
    using assms(2) by (induction evs) (simp_all add: streamer_step_def)
  moreover have "set (ord Map.empty) = dom (Map.empty :: stream_bufs)"
    using assms(1) unfolding map_order_def by (metis dom_empty finite.emptyI)
  ultimately show ?thesis by (simp add: streamer_Run_def)
qed

section \<open>Properties\<close>

text \<open>
  C22: Every kernel program runs where its source says: when \<open>New\<close> and \<open>EnableTLS\<close> succeed, there are
  exactly eight links, and for each of the eight programs one of them is at the tracepoint or
  probe that the program's section names.
\<close>

theorem programs_attached:
  assumes "collector_New ok closeErr clock pid {} = (held, Inr c)" and "EnableTLS ok' fs held c = Ret (held', c', None)"
  shows "length (collLinks c') = 8 \<and> (\<forall>call. Some (kcall_section call, kcall_program call) \<in> link_point ` set (collLinks c'))"
proof -
  have c: "held = owned c" "collector_ok c" "tlsRd c = None" "\<not> tlsEnabled c"
    "collLinks c = map (\<lambda>(name, prog). Tracepoint name prog) (tracepoints assigned_syscall)"
    using New_books [OF assms(1)] by auto
  have "collLinks c' = collLinks c @ map (\<lambda>(symbol, prog, ret). Uprobe symbol ret prog) (uprobes assigned_tls)"
    using EnableTLS_books [OF assms(2) c(1-4)] by simp
  then have links: "collLinks c' = [Tracepoint ''sys_enter_connect'' (Some (SyscallProgram ''trace_enter_connect'')),
      Tracepoint ''sys_enter_write'' (Some (SyscallProgram ''trace_enter_write'')),
      Tracepoint ''sys_enter_read'' (Some (SyscallProgram ''trace_enter_read'')),
      Tracepoint ''sys_exit_read'' (Some (SyscallProgram ''trace_exit_read'')),
      Tracepoint ''sys_enter_close'' (Some (SyscallProgram ''trace_enter_close'')),
      Uprobe ''SSL_write'' False (Some (TlsProgram ''trace_ssl_write'')),
      Uprobe ''SSL_read'' False (Some (TlsProgram ''trace_ssl_read_enter'')),
      Uprobe ''SSL_read'' True (Some (TlsProgram ''trace_ssl_read_exit''))]"
    using c(5) by (simp add: tracepoints_def uprobes_def assigned_syscall_def assigned_tls_def Let_def)
  have "Some (kcall_section call, kcall_program call) \<in> link_point ` set (collLinks c')" for call
    unfolding links by (cases call) (simp_all add: link_point_def)
  with links show ?thesis by simp
qed

text \<open>
  C26: On a big-endian target nothing is ever recorded: \<open>decodeEvent\<close> reads the records of the
  big-endian program object as little-endian ones, without an error, but no operation of a decoded
  event is one the streamer knows, so that every trace of the kernel programs gives no exchange.
\<close>

theorem big_endian_records_nothing:
  assumes "kernel_run target calls kernel_init = (s, es)" and "list_all (\<lambda>(c, call). kctx_ok c) calls"
    and "length gap1 = 4" and "length gap2 = 2" and "map_order ord"
  shows "\<exists>evs. readLoop (map (\<lambda>e. RingRecord (struct_event_be e gap1 gap2)) es @ [RingClosed]) = map Inl evs \<and>
    length evs = length es \<and> streamer_Run H U ord evs = Ret (evs, [])"
proof -
  have "list_all (submitted_ok target) es" by (rule kernel_run_submitted [OF assms(1,2)])
  then have "\<exists>evs. readLoop (map (\<lambda>e. RingRecord (struct_event_be e gap1 gap2)) es @ [RingClosed]) = map Inl evs \<and>
    length evs = length es \<and> list_all (\<lambda>e. stream_key_of e = None) evs"
  proof (induction es)
    case (Cons e es)
    then have op: "Operation e \<in> {OpConnect, OpRead, OpWrite, OpClose, OpSSLWrite, OpSSLRead}" and wf: "event_wf e"
      by (simp_all add: submitted_ok_def)
    then have "unat (Operation e) < 256" by auto
    then obtain e' where "decodeEvent (struct_event_be e gap1 gap2) = Inr e'" "Operation e' = Operation e * 16777216"
      using decode_be [OF wf assms(3,4)] by blast
    moreover from swapped_op_ignored [OF op this(2)] have "stream_key_of e' = None" .
    moreover obtain evs where "readLoop (map (\<lambda>e. RingRecord (struct_event_be e gap1 gap2)) es @ [RingClosed]) = map Inl evs"
      "length evs = length es" "list_all (\<lambda>e. stream_key_of e = None) evs"
      using Cons by auto
    ultimately show ?case by (intro exI [of _ "e' # evs"]) simp
  qed simp
  with streamer_ignores [OF assms(5)] show ?thesis by blast
qed

theorem programs_attached_witness:
  "\<exists>held c held' c'. collector_New (\<lambda>_. True) (\<lambda>_. None :: unit option) (Some (0, 0), 0) 7 {} = (held, Inr c) \<and>
     EnableTLS (\<lambda>_. True) (\<lambda>_. Some \<lparr>content = ''/libssl.so'', read_fails = False\<rparr>) held c =
       Ret (held', c', None) \<and> length (collLinks c') = 8"
proof -
  obtain held c where new: "collector_New (\<lambda>_. True) (\<lambda>_. None :: unit option) (Some (0, 0), 0) 7 {} = (held, Inr c)"
    by (simp add: collector_New_def tracepoints_def Let_def)
  then have pid: "collPID c = 7" using New_books [OF new] by simp
  let ?fs = "(\<lambda>_. Some \<lparr>content = ''/libssl.so'', read_fails = False\<rparr>)"
  have "findMappedLibrary ?fs 7 ''libssl.so'' = Ret (Inr ''/libssl.so'')"
  proof -
    have "Fields ''/libssl.so'' = [''/libssl.so'']" by (rule Fields_graphic) (simp_all add: graphic_def)
    moreover have "scan_lines ''/libssl.so'' = ([''/libssl.so''], False)"
      by (simp add: scan_lines.simps [of "''/libssl.so''"] scan_lines.simps [of "[]"] maxScanTokenSize_def)
    ultimately show ?thesis by (simp add: findMappedLibrary_def HasPrefix_def)
  qed
  then obtain held' c' where tls: "EnableTLS (\<lambda>_. True) ?fs held c = Ret (held', c', None)"
    by (simp add: EnableTLS_def pid uprobes_def Let_def)
  from programs_attached [OF new tls] new tls show ?thesis by blast
qed

theorem big_endian_records_nothing_witness:
  "\<exists>s es evs. kernel_run 7 [(sample_kctx 30064771081, EnterWrite 5 64 3)] kernel_init = (s, es) \<and> length evs = length es \<and>
     streamer_Run no_http ascii_tables sorted_order evs = Ret (evs, [])"
proof -
  let ?calls = "[(sample_kctx 30064771081, EnterWrite 5 64 3)]"
  obtain s es where run: "kernel_run 7 ?calls kernel_init = (s, es)" by (cases "kernel_run 7 ?calls kernel_init")
  have "list_all (\<lambda>(c, call). kctx_ok c) ?calls" by (simp add: sample_kctx_ok)
  from big_endian_records_nothing [OF run this _ _ map_order_sorted, of "''gap.''" "''..''" no_http ascii_tables] run
  show ?thesis by auto
qed

end
