(* ===== verification/TuiStart.thy ===== *)
theory TuiStart
  imports TuiView
begin

text \<open>
  \<open>internal/tui\<close>: the constructors of the tabs with their tables, the commands that wait on the
  channels, and \<open>Run\<close>. Making and styling a table are parameters.
\<close>

section \<open>Constructors\<close>

text \<open>
  What is called on the table widget: \<open>table.New\<close> with columns, focus and height, the default styles
  and the styles of header and selected row in them, and \<open>SetStyles\<close>.
\<close>

record ('tb, 'st) table_lib =
  tableNew :: "column list \<Rightarrow> bool \<Rightarrow> int \<Rightarrow> 'tb"
  DefaultStyles :: 'st
  HeaderStyle :: "bool \<Rightarrow> bytes \<Rightarrow> 'st \<Rightarrow> 'st"
  SelectedStyle :: "bytes \<Rightarrow> bytes \<Rightarrow> 'st \<Rightarrow> 'st"
  SetStyles :: "'tb \<Rightarrow> 'st \<Rightarrow> 'tb"

definition defaultTableStyles :: "('tb, 'st) table_lib \<Rightarrow> 'st" where
  "defaultTableStyles L = SelectedStyle L ''229'' ''57'' (HeaderStyle L True colorAccent (DefaultStyles L))"

definition newEventsTab :: "('tb, 'st) table_lib \<Rightarrow> 'tb eventsTab" where
  "newEventsTab L =
     (let t = SetStyles L (tableNew L eventColumns True 20) (defaultTableStyles L) in
      \<lparr>eTable = t, eRows = [], eClosed = False\<rparr>)"

definition newConnsTab :: "('tb, 'st) table_lib \<Rightarrow> 'tb connsTab" where
  "newConnsTab L =
     (let t = SetStyles L (tableNew L connColumns True 20) (defaultTableStyles L) in
      \<lparr>cTable = t, cIndex = Map.empty, cRows = [], cClosedTab = False\<rparr>)"

definition newHTTPTab :: "('tb, 'st) table_lib \<Rightarrow> 'tb httpTab" where
  "newHTTPTab L =
     (let t = SetStyles L (tableNew L httpColumns True 20) (defaultTableStyles L) in
      \<lparr>hTable = t, hRows = [], hClosed = False\<rparr>)"

definition newModel :: "('tb, 'st) table_lib \<Rightarrow> 'tb tui_model" where
  "newModel L = \<lparr>active = tabEvents, eventsT = newEventsTab L, connsT = newConnsTab L, httpT = newHTTPTab L,
     tuiWidth = 80, tuiHeight = 24\<rparr>"

lemma newModel_eq: "newModel L = tui_newModel (eTable (newEventsTab L)) (cTable (newConnsTab L)) (hTable (newHTTPTab L))"
  by (simp add: newModel_def tui_newModel_def newEventsTab_def newConnsTab_def newHTTPTab_def Let_def)

section \<open>Waiting and running\<close>

text \<open>
  The message of each wait command, from what its channel still delivers; an event comes with its
  time (\<open>timeOf\<close>) and the file system at the moment its row is made.
\<close>

definition waitForEvent :: "(event \<times> int \<times> filesystem) list \<Rightarrow> 'm tui_msg" where
  "waitForEvent es = (case es of [] \<Rightarrow> EventsClosed | (ev, t, fs) # _ \<Rightarrow> EventMsg ev t fs)"

definition waitForConn :: "Connection list \<Rightarrow> 'm tui_msg" where
  "waitForConn cs = (case cs of [] \<Rightarrow> ConnsClosed | c # _ \<Rightarrow> ConnMsg c)"

definition waitForExchange :: "Exchange list \<Rightarrow> 'm tui_msg" where
  "waitForExchange hs = (case hs of [] \<Rightarrow> HttpClosed | ex # _ \<Rightarrow> HttpMsg ex)"

text \<open>A delivery is the \<open>Update\<close> with the message of an outstanding wait command.\<close>

lemma deliveries:
  "waitE s = Suc n \<Longrightarrow> tui_Update P tz W (ui s) (waitForEvent (evIn s)) = Ret (m, cmd) \<Longrightarrow>
     tui_deliver P tz W s (issue cmd (s\<lparr>ui := m, waitE := n, evIn := tl (evIn s)\<rparr>))"
  "waitC s = Suc n \<Longrightarrow> tui_Update P tz W (ui s) (waitForConn (connIn s)) = Ret (m, cmd) \<Longrightarrow>
     tui_deliver P tz W s (issue cmd (s\<lparr>ui := m, waitC := n, connIn := tl (connIn s)\<rparr>))"
  "waitH s = Suc n \<Longrightarrow> tui_Update P tz W (ui s) (waitForExchange (exIn s)) = Ret (m, cmd) \<Longrightarrow>
     tui_deliver P tz W s (issue cmd (s\<lparr>ui := m, waitH := n, exIn := tl (exIn s)\<rparr>))"
proof -
  assume 1: "waitE s = Suc n" and 2: "tui_Update P tz W (ui s) (waitForEvent (evIn s)) = Ret (m, cmd)"
  show "tui_deliver P tz W s (issue cmd (s\<lparr>ui := m, waitE := n, evIn := tl (evIn s)\<rparr>))"
  proof (cases "evIn s")
    case Nil
    then have "s\<lparr>ui := m, waitE := n, evIn := tl (evIn s)\<rparr> = s\<lparr>ui := m, waitE := n\<rparr>" by simp
    then show ?thesis using tui_deliver.events_end [OF 1 Nil] 2 Nil by (simp only: waitForEvent_def list.case)
  next
    case (Cons x es)
    obtain ev t fs where x: "x = (ev, t, fs)" by (cases x)
    show ?thesis using tui_deliver.event [OF 1 Cons [unfolded x]] 2 by (simp add: waitForEvent_def Cons x)
  qed
next
  assume 1: "waitC s = Suc n" and 2: "tui_Update P tz W (ui s) (waitForConn (connIn s)) = Ret (m, cmd)"
  show "tui_deliver P tz W s (issue cmd (s\<lparr>ui := m, waitC := n, connIn := tl (connIn s)\<rparr>))"
  proof (cases "connIn s")
    case Nil
    then have "s\<lparr>ui := m, waitC := n, connIn := tl (connIn s)\<rparr> = s\<lparr>ui := m, waitC := n\<rparr>" by simp
    then show ?thesis using tui_deliver.conns_end [OF 1 Nil] 2 Nil by (simp only: waitForConn_def list.case)
  next
    case (Cons c cs)
    show ?thesis using tui_deliver.conn [OF 1 Cons] 2 by (simp add: waitForConn_def Cons)
  qed
next
  assume 1: "waitH s = Suc n" and 2: "tui_Update P tz W (ui s) (waitForExchange (exIn s)) = Ret (m, cmd)"
  show "tui_deliver P tz W s (issue cmd (s\<lparr>ui := m, waitH := n, exIn := tl (exIn s)\<rparr>))"
  proof (cases "exIn s")
    case Nil
    then have "s\<lparr>ui := m, waitH := n, exIn := tl (exIn s)\<rparr> = s\<lparr>ui := m, waitH := n\<rparr>" by simp
    then show ?thesis using tui_deliver.exchanges_end [OF 1 Nil] 2 Nil by (simp only: waitForExchange_def list.case)
  next
    case (Cons ex hs)
    show ?thesis using tui_deliver.exchange [OF 1 Cons] 2 by (simp add: waitForExchange_def Cons)
  qed
qed

text \<open>
  \<open>Run\<close>: the program runs from the new model until a message makes \<open>Update\<close> return \<open>tea.Quit\<close>, or until
  bubbletea ends it itself, without \<open>Update\<close>: its handler of signals is not disabled, so an interrupt or a
  termination signal does that in any state. \<open>m\<close> is the model at the end, which \<open>Run\<close> drops.
\<close>

definition tui_Run ::
  "('tb, 'st) table_lib \<Rightarrow> (rune \<Rightarrow> bool) \<Rightarrow> (int \<Rightarrow> int) \<Rightarrow> ('tb, 'm) tables \<Rightarrow> (event \<times> int \<times> filesystem) list \<Rightarrow>
     Connection list \<Rightarrow> Exchange list \<Rightarrow> 'tb tui_model \<Rightarrow> bool" where
  "tui_Run L P tz W rawEvents conns exchanges m \<longleftrightarrow>
     (\<exists>s. sys_reach P tz W (sys_init (newModel L) rawEvents conns exchanges) s \<and>
        (m = ui s \<or> (\<exists>msg. tui_Update P tz W (ui s) msg = Ret (m, TuiQuit))))"

section \<open>Rows and columns\<close>

text \<open>Every row has one cell per column of its table.\<close>

definition rows_fit :: "'tb tui_model \<Rightarrow> bool" where
  "rows_fit m \<longleftrightarrow> (\<forall>r \<in> set (eRows (eventsT m)). length r = length eventColumns) \<and>
     (\<forall>r \<in> set (cRows (connsT m)). length r = length connColumns) \<and>
     (\<forall>r \<in> set (hRows (httpT m)). length r = length httpColumns)"

lemma row_lengths:
  "eventRow P tz fs ev t = Ret r \<Longrightarrow> length r = length eventColumns"
  "length (connRow c) = length connColumns" "length (httpRow ex) = length httpColumns"
  by (auto simp: eventRow_def connRow_def httpRow_def eventColumns_def connColumns_def httpColumns_def Let_def
      split: exec.splits)

lemma append_row_set: "set (append_row rows r) \<subseteq> insert r (set rows)"
  by (auto simp: append_row_def Let_def dest: in_set_dropD)

lemma tab_rows_fit:
  "events_update P tz W e msg = Ret (e', c0) \<Longrightarrow> \<forall>r \<in> set (eRows e). length r = length eventColumns \<Longrightarrow>
     \<forall>r \<in> set (eRows e'). length r = length eventColumns"
  "conns_update W c msg = Ret (c', c1) \<Longrightarrow> \<forall>r \<in> set (cRows c). length r = length connColumns \<Longrightarrow>
     \<forall>r \<in> set (cRows c'). length r = length connColumns"
  "http_update W h msg = (h', c2) \<Longrightarrow> \<forall>r \<in> set (hRows h). length r = length httpColumns \<Longrightarrow>
     \<forall>r \<in> set (hRows h'). length r = length httpColumns"
proof -
  assume "events_update P tz W e msg = Ret (e', c0)" "\<forall>r \<in> set (eRows e). length r = length eventColumns"
  then show "\<forall>r \<in> set (eRows e'). length r = length eventColumns"
    by (auto simp: events_update_def Let_def row_lengths dest!: subsetD [OF append_row_set] split: tui_msg.splits)
next
  assume "conns_update W c msg = Ret (c', c1)" "\<forall>r \<in> set (cRows c). length r = length connColumns"
  then show "\<forall>r \<in> set (cRows c'). length r = length connColumns"
    by (auto simp: conns_update_def Let_def row_lengths dest!: subsetD [OF set_update_subset_insert]
        split: tui_msg.splits option.splits if_splits)
next
  assume "http_update W h msg = (h', c2)" "\<forall>r \<in> set (hRows h). length r = length httpColumns"
  then show "\<forall>r \<in> set (hRows h'). length r = length httpColumns"
    by (auto simp: http_update_def Let_def row_lengths dest!: subsetD [OF append_row_set]
        split: tui_msg.splits if_splits)
qed

lemma Update_rows_fit:
  assumes "tui_Update P tz W m msg = Ret (m', cmd)" and "rows_fit m"
  shows "rows_fit m'"
proof -
  have tabs: "rows_fit m2" if "update_tabs P tz W m1 msg = Ret (m2, cmd')" "rows_fit m1" for m1 m2 cmd'
    using that tab_rows_fit(1) [of P tz W "eventsT m1" msg] tab_rows_fit(2) [of W "connsT m1" msg]
      tab_rows_fit(3) [of W "httpT m1" msg]
    unfolding update_tabs_def rows_fit_def by (auto split: exec.splits prod.splits)
  have size: "rows_fit (set_size W m w h)" for w h using assms(2) by (simp add: rows_fit_def set_size_def)
  have next_fits: "rows_fit (m\<lparr>active := t\<rparr>)" for t using assms(2) by (simp add: rows_fit_def)
  show ?thesis
  proof (cases msg)
    case (KeyPress key k)
    with assms(1) have "m' = m \<or> m' = m\<lparr>active := next_tab (active m)\<rparr> \<or> update_tabs P tz W m msg = Ret (m', cmd)"
      by (auto simp: tui_Update_def split: if_splits)
    then show ?thesis using assms(2) next_fits tabs by metis
  next
    case (WindowSize w h)
    with assms(1) have "update_tabs P tz W (set_size W m w h) msg = Ret (m', cmd)" by (simp add: tui_Update_def)
    from tabs [OF this size] show ?thesis .
  qed (use assms(1) tabs [OF _ assms(2)] in \<open>simp_all add: tui_Update_def\<close>)
qed

text \<open>The index of the connections tab and its rows belong together, one to one.\<close>

definition index_ok :: "'tb connsTab \<Rightarrow> bool" where
  "index_ok c \<longleftrightarrow> bij_betw (\<lambda>s. the (cIndex c s)) (dom (cIndex c)) {..<length (cRows c)}"

lemma index_ok_lookup: "index_ok c \<Longrightarrow> cIndex c s = Some i \<Longrightarrow> i < length (cRows c)"
  unfolding index_ok_def by (drule bij_betwE) force

lemma index_ok_new:
  assumes "index_ok c" and new: "cIndex c s = None"
  shows "index_ok (c\<lparr>cIndex := (cIndex c)(s \<mapsto> length (cRows c)), cRows := cRows c @ [r], cTable := t\<rparr>)"
proof -
  let ?n = "length (cRows c)" and ?f = "\<lambda>x. the (((cIndex c)(s \<mapsto> length (cRows c))) x)"
  have "bij_betw ?f (dom (cIndex c)) {..<?n}"
    using assms by (subst bij_betw_cong [of _ _ "\<lambda>x. the (cIndex c x)"]) (auto simp: index_ok_def)
  then have "bij_betw ?f (dom (cIndex c) \<union> {s}) ({..<?n} \<union> {?n})" by (rule bij_betw_combine) (simp_all add: bij_betw_def)
  then show ?thesis by (simp add: index_ok_def lessThan_Suc)
qed

definition view_ok :: "'tb tui_model \<Rightarrow> bool" where
  "view_ok m \<longleftrightarrow> rows_fit m \<and> length (eRows (eventsT m)) \<le> maxRows \<and> length (hRows (httpT m)) \<le> maxRows \<and> index_ok (connsT m)"

lemma length_append_row: "length rows \<le> maxRows \<Longrightarrow> length (append_row rows r) \<le> maxRows"
  by (simp add: append_row_def Let_def maxRows_def)

lemma tabs_view_ok:
  assumes "view_ok m" and "msg_ok msg"
  shows "\<exists>m' cmd. update_tabs P tz W m msg = Ret (m', cmd) \<and> cmd \<noteq> TuiQuit \<and>
    length (eRows (eventsT m')) \<le> maxRows \<and> length (hRows (httpT m')) \<le> maxRows \<and> index_ok (connsT m')"
proof (cases msg)
  case (EventMsg ev t fs)
  with assms(2) obtain r where "eventRow P tz fs ev t = Ret r" using eventRow_returns [of ev P tz fs t] by (auto simp: msg_ok_def)
  with EventMsg assms(1) show ?thesis by (simp add: tab_update_defs Let_def view_ok_def length_append_row index_ok_def)
next
  case (ConnMsg c)
  have idx: "index_ok (connsT m)" using assms(1) by (simp add: view_ok_def)
  show ?thesis
  proof (cases "cIndex (connsT m) (cSeq c)")
    case None
    from index_ok_new [OF idx this] ConnMsg None assms(1) show ?thesis
      by (simp add: tab_update_defs Let_def view_ok_def)
  next
    case (Some i)
    from index_ok_lookup [OF idx this] ConnMsg Some assms(1) idx show ?thesis
      by (simp add: tab_update_defs Let_def view_ok_def index_ok_def)
  qed
next
  case (HttpMsg ex)
  with assms(1) show ?thesis by (simp add: tab_update_defs Let_def view_ok_def length_append_row index_ok_def)
qed (use assms(1) in \<open>simp_all add: tab_update_defs Let_def view_ok_def index_ok_def\<close>)

lemma view_ok_moved: "view_ok m \<Longrightarrow> view_ok (m\<lparr>active := t\<rparr>)" "view_ok m \<Longrightarrow> view_ok (set_size W m w h)"
  by (simp_all add: view_ok_def rows_fit_def set_size_def index_ok_def)

lemma Update_view_ok:
  assumes "view_ok m" and "msg_ok msg"
  shows "\<exists>m' cmd. tui_Update P tz W m msg = Ret (m', cmd) \<and> view_ok m' \<and>
    (cmd = TuiQuit \<longrightarrow> m' = m \<and> (\<exists>key k. msg = KeyPress key k \<and> key \<in> {''ctrl+c'', ''q''}))"
proof -
  have fit: "rows_fit m'" if "tui_Update P tz W m msg = Ret (m', cmd)" for m' cmd
    using Update_rows_fit [OF that] assms(1) by (simp add: view_ok_def)
  show ?thesis
  proof (cases msg)
    case (KeyPress key k)
    obtain m' cmd where "update_tabs P tz W m msg = Ret (m', cmd)" "cmd \<noteq> TuiQuit" "length (eRows (eventsT m')) \<le> maxRows"
        "length (hRows (httpT m')) \<le> maxRows" "index_ok (connsT m')" using tabs_view_ok [OF assms] by blast
    with KeyPress fit view_ok_moved(1) [OF assms(1)] assms(1) show ?thesis
      by (auto simp: tui_Update_def view_ok_def)
  next
    case (WindowSize w h)
    obtain m' cmd where "update_tabs P tz W (set_size W m w h) msg = Ret (m', cmd)" "cmd \<noteq> TuiQuit"
        "length (eRows (eventsT m')) \<le> maxRows" "length (hRows (httpT m')) \<le> maxRows" "index_ok (connsT m')"
      using tabs_view_ok [OF view_ok_moved(2) [OF assms(1)] assms(2)] by blast
    with WindowSize fit show ?thesis by (simp add: tui_Update_def view_ok_def)
  qed (use tabs_view_ok [OF assms, of P tz W] fit in \<open>auto simp: tui_Update_def view_ok_def\<close>)
qed

lemma issue_ui [simp]: "ui (issue cmd s) = ui s"
  by (cases cmd) simp_all

lemma sys_step_view_ok:
  assumes "tui_sys_step P tz W s s'" and "view_ok (ui s)" and "list_all (\<lambda>(ev, t, fs). data_ok ev) (evIn s)"
  shows "view_ok (ui s') \<and> list_all (\<lambda>(ev, t, fs). data_ok ev) (evIn s')"
proof -
  have go: "view_ok m" if "tui_Update P tz W (ui s) msg = Ret (m, cmd)" "msg_ok msg" for m msg cmd
    using Update_view_ok [OF assms(2) that(2), of P tz W] that(1) by auto
  from assms(1) show ?thesis
  proof (cases rule: tui_sys_step.cases)
    case delivery
    then show ?thesis
      by (cases rule: tui_deliver.cases) (use assms(3) in \<open>auto simp: issue_simps msg_ok_def dest!: go\<close>)
  next
    case (user msg m cmd)
    then have "msg_ok msg" by (cases msg) (simp_all add: msg_ok_def)
    with user go assms(3) show ?thesis by (auto simp: issue_simps)
  qed
qed

lemma sys_view_ok:
  assumes "sys_reach P tz W (sys_init (newModel L) rawEvents conns exchanges) s"
    and "list_all (\<lambda>(ev, t, fs). data_ok ev) rawEvents"
  shows "view_ok (ui s)"
proof -
  let ?s0 = "sys_init (newModel L) rawEvents conns exchanges"
  have init: "view_ok (ui ?s0) \<and> list_all (\<lambda>(ev, t, fs). data_ok ev) (evIn ?s0)"
    using assms(2) by (simp add: sys_init_def tui_Init_def newModel_def view_ok_def rows_fit_def index_ok_def
        newEventsTab_def newConnsTab_def newHTTPTab_def Let_def bij_betw_def)
  from assms(1) [unfolded sys_reach_def] have "view_ok (ui s) \<and> list_all (\<lambda>(ev, t, fs). data_ok ev) (evIn s)"
  proof (induction rule: rtranclp_induct)
    case (step s1 s2)
    then show ?case using sys_step_view_ok [of P tz W s1 s2] by blast
  qed (rule init)
  then show ?thesis ..
qed

section \<open>Properties\<close>

text \<open>
  C27: The live view never panics, and every state of it is well formed, whatever the user, the
  channels and the table widget do, on events with a captured length within the array. In every state that
  is reached, and in the model \<open>Run\<close> ends with: the events and HTTP tabs hold at most 500 rows, each row of
  each tab has one cell per column of its table, and the index of the connections tab is a bijection
  between the sequence numbers it knows and the rows. So \<open>Update\<close> returns for every further message; it
  asks to quit only for its two keys, not when the channels are closed, and then changes nothing.
\<close>

theorem view_states_safe:
  assumes reach: "sys_reach P tz W (sys_init (newModel L) rawEvents conns exchanges) s"
    and data: "list_all (\<lambda>(ev, t, fs). data_ok ev) rawEvents"
  shows "rows_fit (ui s) \<and> length (eRows (eventsT (ui s))) \<le> maxRows \<and> length (hRows (httpT (ui s))) \<le> maxRows \<and>
    index_ok (connsT (ui s)) \<and>
    (\<forall>msg. msg_ok msg \<longrightarrow> (\<exists>m cmd. tui_Update P tz W (ui s) msg = Ret (m, cmd) \<and>
       (cmd = TuiQuit \<longrightarrow> m = ui s \<and> (\<exists>key k. msg = KeyPress key k \<and> key \<in> {''ctrl+c'', ''q''})))) \<and>
    (\<forall>m. tui_Run L P tz W rawEvents conns exchanges m \<longrightarrow> rows_fit m \<and> index_ok (connsT m))"
proof -
  have ok: "view_ok (ui s')" if "sys_reach P tz W (sys_init (newModel L) rawEvents conns exchanges) s'" for s'
    using sys_view_ok [OF that data] .
  have "view_ok m" if ended: "tui_Run L P tz W rawEvents conns exchanges m" for m
  proof -
    obtain s' where "sys_reach P tz W (sys_init (newModel L) rawEvents conns exchanges) s'"
      and m: "m = ui s' \<or> (\<exists>msg. tui_Update P tz W (ui s') msg = Ret (m, TuiQuit))"
      using ended unfolding tui_Run_def by blast
    then have s': "view_ok (ui s')" by (intro ok)
    have "m = ui s'" if "tui_Update P tz W (ui s') msg = Ret (m, TuiQuit)" for msg
      using that by (auto simp: tui_Update_def update_tabs_def split: tui_msg.splits if_splits exec.splits prod.splits)
    with m s' show ?thesis by blast
  qed
  moreover note ok [OF reach]
  moreover have "\<exists>m cmd. tui_Update P tz W (ui s) msg = Ret (m, cmd) \<and>
      (cmd = TuiQuit \<longrightarrow> m = ui s \<and> (\<exists>key k. msg = KeyPress key k \<and> key \<in> {''ctrl+c'', ''q''}))" if "msg_ok msg" for msg
    using Update_view_ok [OF ok [OF reach] that, of P tz W] by blast
  ultimately show ?thesis unfolding view_ok_def by blast
qed

text \<open>A table that shows its rows, without styles.\<close>

definition plain_lib :: "(row list, unit) table_lib" where
  "plain_lib = \<lparr>tableNew = (\<lambda>_ _ _. []), DefaultStyles = (), HeaderStyle = (\<lambda>_ _ s. s), SelectedStyle = (\<lambda>_ _ s. s),
     SetStyles = (\<lambda>t _. t)\<rparr>"

definition sample_conn :: Connection where
  "sample_conn = \<lparr>cSeq = 1, cPID = 7, cFD = 3, cComm = ''app'', cRemoteAddr = 0, cRemotePort = 0, BytesOut = 0, BytesIn = 0,
     cOpened = 0, cClosed = False, cClosedAt = None\<rparr>"

theorem view_states_safe_witness:
  "\<exists>s m cmd. sys_reach (\<lambda>_. True) id row_tables (sys_init (newModel plain_lib) [] [sample_conn] []) s \<and>
     cRows (connsT (ui s)) = [connRow sample_conn] \<and> index_ok (connsT (ui s)) \<and>
     tui_Update (\<lambda>_. True) id row_tables (ui s) (ConnMsg sample_conn) = Ret (m, cmd)"
proof -
  let ?s0 = "sys_init (newModel plain_lib) [] [sample_conn] []"
  obtain m cmd where m: "tui_Update (\<lambda>_. True) id row_tables (ui ?s0) (waitForConn (connIn ?s0)) = Ret (m, cmd)"
    and row: "cRows (connsT m) = [connRow sample_conn]"
    by (simp add: sys_init_def tui_Init_def waitForConn_def tui_Update_def tab_update_defs newModel_def newConnsTab_def Let_def)
  have "waitC ?s0 = Suc 0" by (simp add: sys_init_def tui_Init_def)
  from tui_sys_step.delivery [OF deliveries(2) [OF this m]]
  have reach: "sys_reach (\<lambda>_. True) id row_tables ?s0 (issue cmd (?s0\<lparr>ui := m, waitC := 0, connIn := tl (connIn ?s0)\<rparr>))"
    unfolding sys_reach_def by blast
  have "list_all (\<lambda>(ev, t, fs). data_ok ev) ([] :: (event \<times> int \<times> filesystem) list)" by simp
  note safe = view_states_safe [OF reach this]
  have ui: "ui (issue cmd (?s0\<lparr>ui := m, waitC := 0, connIn := tl (connIn ?s0)\<rparr>)) = m" by simp
  have "index_ok (connsT m)" using safe by (simp only: ui)
  moreover have "msg_ok (ConnMsg sample_conn :: unit tui_msg)" by (simp add: msg_ok_def)
  then obtain m' cmd' where "tui_Update (\<lambda>_. True) id row_tables m (ConnMsg sample_conn) = Ret (m', cmd')"
    using safe unfolding ui by blast
  ultimately show ?thesis using reach row ui by metis
qed

end
