(* ===== verification/Interrupts.thy ===== *)
theory Interrupts
  imports Cli
begin

text \<open>
  \<open>cmd/wiremark/main.go\<close>: the goroutines of \<open>record\<close> and \<open>run\<close> that wait for an interrupt, as steps
  interleaved with the body of the command. \<open>signal.Notify\<close> never blocks: with the one slot of
  \<open>sigCh\<close> taken an interrupt is dropped. \<open>closeOnce.Do\<close> runs its function for the first caller, and
  every later caller waits until that run is over.
\<close>

section \<open>Recording\<close>

datatype recorder_goroutine = Body | Handler

text \<open>
  \<open>Waiting\<close>: the body in its loop over \<open>exchanges\<close>, the handler at \<open><-sigCh\<close>. Behind it both call
  \<open>closeCollector\<close> (the body when it returns, by \<open>defer\<close>). \<open>InClose\<close> runs \<open>c.Close()\<close>.
\<close>

datatype close_pos = Waiting | CallsOnce | InClose | Left

datatype once_state = OnceFresh | OnceRunning | OnceOver

record record_run =
  closePos :: "recorder_goroutine \<Rightarrow> close_pos"
  sigPending :: bool
  closeOnce :: once_state
  closeCalls :: nat

definition record_run_init :: record_run where
  "record_run_init = \<lparr>closePos = (\<lambda>_. Waiting), sigPending = False, closeOnce = OnceFresh, closeCalls = 0\<rparr>"

text \<open>
  \<open>failed\<close>: the ring buffer fails by itself; \<open>drains\<close>: once the events end, the channel of exchanges is
  closed. The events end when \<open>c.Close()\<close> has begun, which closes the reader first.
\<close>

inductive record_run_step :: "bool \<Rightarrow> bool \<Rightarrow> record_run \<Rightarrow> record_run \<Rightarrow> bool" for failed drains where
  interrupt: "\<not> sigPending s \<Longrightarrow> record_run_step failed drains s (s\<lparr>sigPending := True\<rparr>)"
| signal_received: "closePos s Handler = Waiting \<Longrightarrow> sigPending s \<Longrightarrow>
    record_run_step failed drains s (s\<lparr>sigPending := False, closePos := (closePos s)(Handler := CallsOnce)\<rparr>)"
| exchanges_end: "closePos s Body = Waiting \<Longrightarrow> drains \<Longrightarrow> failed \<or> closeOnce s \<noteq> OnceFresh \<Longrightarrow>
    record_run_step failed drains s (s\<lparr>closePos := (closePos s)(Body := CallsOnce)\<rparr>)"
| once_first: "closePos s g = CallsOnce \<Longrightarrow> closeOnce s = OnceFresh \<Longrightarrow>
    record_run_step failed drains s (s\<lparr>closePos := (closePos s)(g := InClose), closeOnce := OnceRunning, closeCalls := Suc (closeCalls s)\<rparr>)"
| close_returns: "closePos s g = InClose \<Longrightarrow>
    record_run_step failed drains s (s\<lparr>closePos := (closePos s)(g := Left), closeOnce := OnceOver\<rparr>)"
| once_later: "closePos s g = CallsOnce \<Longrightarrow> closeOnce s = OnceOver \<Longrightarrow>
    record_run_step failed drains s (s\<lparr>closePos := (closePos s)(g := Left)\<rparr>)"

inductive_cases record_run_stepE: "record_run_step failed drains s s'"

definition record_run_reach :: "bool \<Rightarrow> bool \<Rightarrow> record_run \<Rightarrow> bool" where
  "record_run_reach failed drains s \<longleftrightarrow> (record_run_step failed drains)\<^sup>*\<^sup>* record_run_init s"

text \<open>Only a further interrupt could move the program.\<close>

definition record_run_halted :: "bool \<Rightarrow> bool \<Rightarrow> record_run \<Rightarrow> bool" where
  "record_run_halted failed drains s \<longleftrightarrow> (\<forall>s'. record_run_step failed drains s s' \<longrightarrow> s' = s\<lparr>sigPending := True\<rparr>)"

text \<open>Who has passed the once, how often \<open>Close\<close> was called, and why anybody moved at all.\<close>

definition once_inv :: "bool \<Rightarrow> bool \<Rightarrow> record_run \<Rightarrow> bool" where
  "once_inv failed drains s \<longleftrightarrow>
     (case closeOnce s of
        OnceFresh \<Rightarrow> closeCalls s = 0 \<and> (\<forall>g. closePos s g \<in> {Waiting, CallsOnce})
      | OnceRunning \<Rightarrow> closeCalls s = 1 \<and> (\<exists>g. closePos s g = InClose \<and> (\<forall>g'. g' \<noteq> g \<longrightarrow> closePos s g' \<in> {Waiting, CallsOnce}))
      | OnceOver \<Rightarrow> closeCalls s = 1 \<and> (\<forall>g. closePos s g \<noteq> InClose) \<and> (\<exists>g. closePos s g = Left)) \<and>
     (closePos s Handler = Waiting \<longrightarrow> closePos s Body \<noteq> Waiting \<longrightarrow> failed) \<and>
     (closePos s Body \<noteq> Waiting \<longrightarrow> drains)"

lemma other_goroutine: "(\<forall>g. Q g) \<longleftrightarrow> Q Body \<and> Q Handler" "(\<exists>g. Q g) \<longleftrightarrow> Q Body \<or> Q Handler"
  by (metis recorder_goroutine.exhaust)+

lemma once_inv_step: "record_run_step failed drains s s' \<Longrightarrow> once_inv failed drains s \<Longrightarrow> once_inv failed drains s'"
proof (erule record_run_stepE, goal_cases)
  case (3)
  then show ?case
    by (cases "closePos s Handler") (auto simp: once_inv_def other_goroutine split: once_state.splits)
next
  case (4 g)
  then show ?case by (cases g) (auto simp: once_inv_def other_goroutine)
next
  case (5 g)
  then show ?case by (cases g) (auto simp: once_inv_def other_goroutine split: once_state.splits)
next
  case (6 g)
  then show ?case by (cases g) (auto simp: once_inv_def other_goroutine)
qed (auto simp: once_inv_def other_goroutine split: once_state.splits)

lemma record_run_reach_inv: "record_run_reach failed drains s \<Longrightarrow> once_inv failed drains s"
  unfolding record_run_reach_def
proof (induction rule: rtranclp_induct)
  case base
  show ?case by (simp add: once_inv_def record_run_init_def)
qed (rule once_inv_step)

lemma halted_positions:
  assumes "record_run_halted failed drains s"
  shows "closePos s Handler = Waiting \<Longrightarrow> \<not> sigPending s"
    and "closePos s Body = Waiting \<Longrightarrow> drains \<Longrightarrow> \<not> failed \<and> closeOnce s = OnceFresh"
    and "closePos s g = CallsOnce \<Longrightarrow> closeOnce s = OnceRunning"
    and "closePos s g \<noteq> InClose"
proof -
  have moved: "s' = s\<lparr>sigPending := True\<rparr>" if "record_run_step failed drains s s'" for s'
    using assms that by (simp add: record_run_halted_def)
  have pos: "closePos s' = closePos s" if "record_run_step failed drains s s'" for s'
    using moved [OF that] by simp
  show "\<not> sigPending s" if "closePos s Handler = Waiting"
    using pos [OF record_run_step.signal_received [of s failed drains]] that by (auto simp: fun_eq_iff split: if_splits)
  show "\<not> failed \<and> closeOnce s = OnceFresh" if "closePos s Body = Waiting" "drains"
    using pos [OF record_run_step.exchanges_end [of s drains failed]] that
    by (metis (no_types, lifting) close_pos.distinct(1) fun_upd_same record_run.select_convs(1) record_run.surjective
        record_run.update_convs(1))
  show "closePos s g \<noteq> InClose"
    using pos [OF record_run_step.close_returns [of s g failed drains]] by (auto simp: fun_eq_iff split: if_splits)
  show "closeOnce s = OnceRunning" if "closePos s g = CallsOnce"
    using pos [OF record_run_step.once_first [of s g failed drains]] pos [OF record_run_step.once_later [of s g failed drains]] that
    by (cases "closeOnce s") (auto simp: fun_eq_iff split: if_splits)
qed

text \<open>Each position is left at most once, and an interrupt needs a free slot.\<close>

primrec pos_weight :: "close_pos \<Rightarrow> nat" where
  "pos_weight Waiting = 3"
| "pos_weight CallsOnce = 2"
| "pos_weight InClose = 1"
| "pos_weight Left = 0"

definition record_run_weight :: "record_run \<Rightarrow> nat" where
  "record_run_weight s = pos_weight (closePos s Body) + pos_weight (closePos s Handler) +
     (if closePos s Handler = Waiting then 1 else 0) + (if sigPending s then 0 else 1)"

lemma record_run_step_weight: "record_run_step failed drains s s' \<Longrightarrow> record_run_weight s' < record_run_weight s"
proof (erule record_run_stepE, goal_cases)
  case (4 g)
  then show ?case by (cases g) (auto simp: record_run_weight_def)
next
  case (5 g)
  then show ?case by (cases g) (auto simp: record_run_weight_def)
next
  case (6 g)
  then show ?case by (cases g) (auto simp: record_run_weight_def)
qed (auto simp: record_run_weight_def)

lemma record_run_steps: "(record_run_step failed drains ^^ k) s s' \<Longrightarrow> k + record_run_weight s' \<le> record_run_weight s"
proof (induction k arbitrary: s')
  case (Suc k)
  then obtain t where "(record_run_step failed drains ^^ k) s t" and "record_run_step failed drains t s'" by auto
  with Suc.IH [of t] record_run_step_weight [of failed drains t s'] show ?case by simp
qed simp

text \<open>Whether the streamer can get to the end of a trace: the body of \<open>record\<close> leaves its loop.\<close>

definition stream_drains :: "http_lib \<Rightarrow> unicode_tables \<Rightarrow> (stream_bufs \<Rightarrow> stream_key list) \<Rightarrow> event list \<Rightarrow> bool" where
  "stream_drains H U ord evs \<longleftrightarrow>
     (\<exists>c. chan_reach (record_stage H U ord) Map.empty evs c \<and> record_collected c \<noteq> None)"

lemma stream_drains:
  "length evs \<le> 64 \<Longrightarrow> streamer_Run H U ord evs = Ret (raw, exs) \<Longrightarrow> stream_drains H U ord evs"
  "64 < length evs \<Longrightarrow> \<not> stream_drains H U ord evs"
proof -
  assume short: "length evs \<le> 64" and run: "streamer_Run H U ord evs = Ret (raw, exs)"
  obtain c where c: "chan_reach (record_stage H U ord) Map.empty evs c" "chan_stuck (record_stage H U ord) c"
    using chan_ends [of "record_stage H U ord" Map.empty evs] by blast
  have "stage_outcome (record_stage H U ord) Map.empty evs = Ret exs" by (simp add: streamer_outcome run)
  from chan_complete [OF c this] short have "record_collected c = Some exs"
    by (simp add: record_collected_def streamer_stage_def)
  with c(1) show "stream_drains H U ord evs" by (auto simp: stream_drains_def)
next
  assume "64 < length evs"
  then show "\<not> stream_drains H U ord evs"
    using chan_blocked [of "record_stage H U ord" Map.empty evs]
    by (auto simp: stream_drains_def record_collected_def streamer_stage_def)
qed

lemma halted_after_interrupt:
  assumes "once_inv failed drains s" and "record_run_halted failed drains s" and "closePos s Handler \<noteq> Waiting"
  shows "closePos s Handler = Left" and "closePos s Body = Left \<longleftrightarrow> drains"
proof -
  note stop = halted_positions [OF assms(2)]
  have "closeOnce s \<noteq> OnceRunning"
    using assms(1) stop(4) by (auto simp: once_inv_def)
  with stop(3) have no_call: "closePos s g \<noteq> CallsOnce" for g by blast
  with stop(4) [of Handler] assms(3) show left: "closePos s Handler = Left" by (cases "closePos s Handler") auto
  then have "closeOnce s = OnceOver"
    using assms(1) \<open>closeOnce s \<noteq> OnceRunning\<close> by (cases "closeOnce s") (auto simp: once_inv_def other_goroutine)
  with stop(2) have "closePos s Body = Waiting \<Longrightarrow> \<not> drains" by auto
  then show "closePos s Body = Left \<longleftrightarrow> drains"
    using assms(1) no_call [of Body] stop(4) [of Body] by (cases "closePos s Body") (auto simp: once_inv_def)
qed

section \<open>Running\<close>

text \<open>\<open>run\<close>: the handler hands the first interrupt to the child; the body waits for the child.\<close>

record run_wait =
  runSigPending :: bool
  forwardWaits :: bool
  forwarded :: nat
  childEnded :: bool
  waitReturned :: bool

definition run_wait_init :: run_wait where
  "run_wait_init = \<lparr>runSigPending = False, forwardWaits = True, forwarded = 0, childEnded = False, waitReturned = False\<rparr>"

inductive run_wait_step :: "run_wait \<Rightarrow> run_wait \<Rightarrow> bool" where
  run_interrupt: "\<not> runSigPending s \<Longrightarrow> run_wait_step s (s\<lparr>runSigPending := True\<rparr>)"
| forward_signal: "forwardWaits s \<Longrightarrow> runSigPending s \<Longrightarrow>
    run_wait_step s (s\<lparr>runSigPending := False, forwardWaits := False, forwarded := Suc (forwarded s)\<rparr>)"
| child_ends: "\<not> childEnded s \<Longrightarrow> run_wait_step s (s\<lparr>childEnded := True\<rparr>)"
| wait_returns: "childEnded s \<Longrightarrow> \<not> waitReturned s \<Longrightarrow> run_wait_step s (s\<lparr>waitReturned := True\<rparr>)"

text \<open>However many interrupts come, the child gets at most one; \<open>run\<close> never returns before the child.\<close>

lemma run_forwards_once:
  assumes "run_wait_step\<^sup>*\<^sup>* run_wait_init s"
  shows "forwarded s \<le> 1 \<and> (waitReturned s \<longrightarrow> childEnded s)"
proof -
  from assms have "forwarded s = (if forwardWaits s then 0 else 1) \<and> (waitReturned s \<longrightarrow> childEnded s)"
  proof (induction rule: rtranclp_induct)
    case (step s1 s2)
    from step(2,3) show ?case by (cases rule: run_wait_step.cases) auto
  qed (simp add: run_wait_init_def)
  then show ?thesis by simp
qed

section \<open>Properties\<close>

text \<open>
  C14: An interrupt ends a recording once, and only once. Whatever the interleaving of the handler, the
  body and arriving interrupts, at most eight steps are taken; the collector is closed at most once, and
  exactly once and completely when \<open>record\<close> has returned; after an interrupt has been taken
  everything comes to rest with the handler gone, and \<open>record\<close> has returned iff the streamer can get to
  the end of the trace. With more than 64 events it cannot, and as no one takes a second interrupt
  \<open>record\<close> then ignores them all.
\<close>

theorem record_interrupted:
  assumes "(record_run_step failed (stream_drains H U ord evs) ^^ k) record_run_init s"
  shows "k \<le> 8 \<and> closeCalls s \<le> 1 \<and> (closePos s Body = Left \<longrightarrow> closeOnce s = OnceOver \<and> closeCalls s = 1) \<and>
    (record_run_halted failed (stream_drains H U ord evs) s \<and> closePos s Handler \<noteq> Waiting \<longrightarrow>
       closePos s Handler = Left \<and> (closePos s Body = Left \<longleftrightarrow> stream_drains H U ord evs)) \<and>
    (64 < length evs \<longrightarrow> closePos s Body = Waiting)"
proof -
  have i: "once_inv failed (stream_drains H U ord evs) s"
    using assms by (intro record_run_reach_inv) (auto simp: record_run_reach_def rtranclp_power)
  have "k \<le> 8" using record_run_steps [OF assms] by (simp add: record_run_weight_def record_run_init_def)
  moreover have "closeCalls s \<le> 1" using i by (auto simp: once_inv_def split: once_state.splits)
  moreover have "closePos s Body = Left \<Longrightarrow> closeOnce s = OnceOver \<and> closeCalls s = 1"
    using i by (auto simp: once_inv_def other_goroutine split: once_state.splits)
  moreover have "64 < length evs \<Longrightarrow> closePos s Body = Waiting"
    using i stream_drains(2) unfolding once_inv_def by blast
  ultimately show ?thesis using halted_after_interrupt [OF i] by blast
qed

theorem record_interrupted_witness:
  "\<exists>s :: record_run. (record_run_step False (stream_drains no_http ascii_tables sorted_order [sample_write, sample_read]) ^^ 6) record_run_init s \<and>
     closePos s Body = Left \<and> closeOnce s = OnceOver \<and> closeCalls s = 1"
proof -
  let ?step = "record_run_step False (stream_drains no_http ascii_tables sorted_order [sample_write, sample_read])"
  have drains: "stream_drains no_http ascii_tables sorted_order [sample_write, sample_read]"
    by (rule stream_drains(1) [OF _ sample_flush]) simp
  note next_step = relpowp_Suc_I [of _ ?step record_run_init]
  have "(?step ^^ 0) record_run_init record_run_init" by simp
  from next_step [OF next_step [OF next_step [OF next_step [OF next_step [OF next_step [OF this
      record_run_step.interrupt] record_run_step.signal_received] record_run_step.once_first [of _ Handler]]
      record_run_step.close_returns [of _ Handler]] record_run_step.exchanges_end] record_run_step.once_later [of _ Body]] drains
  obtain s where s: "(?step ^^ 6) record_run_init s" and left: "closePos s Body = Left"
    by (auto simp: record_run_init_def numeral_eq_Suc)
  from record_interrupted [OF s] left s show ?thesis by blast
qed

end
