(* ===== verification/DemoApp.thy ===== *)
theory DemoApp
  imports Cli
begin

text \<open>
  \<open>examples/go-http-app/main.go\<close>: the example application of the repository, an HTTP server with one
  route that writes to Redis, and what becomes of it under \<open>run\<close>. The Redis client (go-redis) is a
  parameter.
\<close>

section \<open>The application\<close>

text \<open>\<open>os.Getenv\<close> in a process started with these environment entries: the last entry of a name counts.\<close>

definition Getenv :: "bytes list \<Rightarrow> bytes \<Rightarrow> bytes" where
  "Getenv environ name =
     (case find (\<lambda>entry. HasPrefix entry (name @ ''='')) (rev environ) of
        None \<Rightarrow> []
      | Some entry \<Rightarrow> TrimPrefix entry (name @ ''=''))"

definition redisAddr :: "bytes list \<Rightarrow> bytes" where
  "redisAddr environ =
     (let addr = Getenv environ ''REDIS_ADDR'' in if addr = [] then ''127.0.0.1:6379'' else addr)"

record http_answer =
  answerStatus :: int
  answerBody :: bytes

definition hello_handler :: http_answer where
  "hello_handler = \<lparr>answerStatus = 200, answerBody = ''hello'' @ [LF]\<rparr>"

definition big_handler :: http_answer where
  "big_handler = \<lparr>answerStatus = 200, answerBody = replicate 10000 (CHR ''x'')\<rparr>"

definition medium_handler :: http_answer where
  "medium_handler =
     \<lparr>answerStatus = 200,
      answerBody = ''{\"id\":42,\"name\":\"Alice\",\"bio\":\"'' @ replicate 1500 (CHR ''y'') @ ''\"}''\<rparr>"

text \<open>\<open>rdbSet key value\<close> is the error of \<open>rdb.Set\<close>, as text.\<close>

definition users_handler :: "(bytes \<Rightarrow> bytes \<Rightarrow> bytes option) \<Rightarrow> http_answer" where
  "users_handler rdbSet =
     (case rdbSet ''user:42'' ''Alice'' of
        Some err \<Rightarrow> \<lparr>answerStatus = 500, answerBody = err @ [LF]\<rparr>
      | None \<Rightarrow> \<lparr>answerStatus = 201, answerBody = ''{\"id\":42,\"name\":\"Alice\"}''\<rparr>)"

text \<open>The routes, for a path without redirection: the three longer patterns match only themselves.\<close>

definition demo_app :: "(bytes \<Rightarrow> bytes \<Rightarrow> bytes option) \<Rightarrow> bytes \<Rightarrow> http_answer" where
  "demo_app rdbSet path =
     (if path = ''/big'' then big_handler
      else if path = ''/medium'' then medium_handler
      else if path = ''/users'' then users_handler rdbSet
      else hello_handler)"

section \<open>The Redis client\<close>

text \<open>
  What is assumed of the client, on a connection to a server that answers a command by \<open>server\<close>. The
  comments of \<open>replay/proxy.go\<close> and of the example tell how it begins: it sends \<open>HELLO\<close> and \<open>CLIENT\<close>
  first, and takes a server that answers them with a proper \<open>-ERR\<close> for one without these commands, and
  goes on. Then \<open>Set\<close> without expiration sends \<open>set key value\<close>; it has no error if the answer is a
  status, the text of the answer as its error if that is an error, and \<open>redis.Nil\<close> if it is a null.
  Nothing is assumed for servers that treat the handshake otherwise, nor for other answers to \<open>set\<close>.
\<close>

definition set_command :: "bytes \<Rightarrow> bytes \<Rightarrow> bytes list" where
  "set_command k v = [''set'', k, v]"

definition refuses_handshake :: "(bytes list \<Rightarrow> bytes) \<Rightarrow> bool" where
  "refuses_handshake server \<longleftrightarrow>
     (\<forall>name \<in> {''hello'', ''client''}. \<forall>args. \<exists>e. answers (server (name # args)) (RESPValue (CHR ''-'') (''ERR '' @ e) [] False))"

definition redis_client_ok :: "((bytes list \<Rightarrow> bytes) \<Rightarrow> bytes \<Rightarrow> bytes \<Rightarrow> bytes option) \<Rightarrow> bool" where
  "redis_client_ok client \<longleftrightarrow> (\<forall>server k v s. refuses_handshake server \<longrightarrow>
     (answers (server (set_command k v)) (RESPValue (CHR ''+'') s [] False) \<longrightarrow> client server k v = None) \<and>
     (answers (server (set_command k v)) (RESPValue (CHR ''-'') s [] False) \<longrightarrow> client server k v = Some s) \<and>
     (answers (server (set_command k v)) (RESPValue (CHR ''$'') [] [] True) \<longrightarrow> client server k v = Some ''redis: nil''))"

section \<open>Under the proxy\<close>

abbreviation set_user :: bytes where "set_user \<equiv> ''set user:42 alice''"

lemma set_user_text: "command_text U (set_command ''user:42'' ''Alice'') = set_user"
proof -
  have "ascii (Join (set_command ''user:42'' ''Alice'') '' '')" by code_simp
  moreover have "map ascii_lower (Join (set_command ''user:42'' ''Alice'') '' '') = set_user" by code_simp
  ultimately show ?thesis by (simp add: command_text_def strings_ToLower_def)
qed

lemma set_no_admin: "\<not> IsAdminCommand U (hd (set_command k v))"
proof -
  have "strings_ToUpper U ''set'' = ''SET''" by (simp add: strings_ToUpper_def) code_simp
  then show ?thesis by (simp add: IsAdminCommand_def set_command_def adminCommands_def)
qed

text \<open>The handshake is refused the way the client tolerates, whatever was recorded.\<close>

lemma proxy_refuses_handshake: "refuses_handshake (proxy_reply U deps)"
proof -
  have refused: "\<exists>e. answers (proxy_reply U deps (name # args)) (RESPValue (CHR ''-'') (''ERR '' @ e) [] False)"
    if name: "name = ''hello'' \<or> name = ''client''" for name args
  proof -
    have "strings_ToUpper U ''hello'' = ''HELLO''" "strings_ToUpper U ''client'' = ''CLIENT''"
      by (simp add: strings_ToUpper_def, code_simp)+
    with name have "IsAdminCommand U name" by (auto simp: IsAdminCommand_def adminCommands_def)
    then have "proxy_reply U deps (name # args) = EncodeError (''ERR '' @ ''unknown command '' @ [quote] @ name @ [quote])"
      by (simp add: proxy_reply_def)
    moreover have "one_line (''ERR '' @ ''unknown command '' @ [quote] @ name @ [quote])" using name by (auto simp: one_line_def)
    ultimately show ?thesis by (metis answers_error)
  qed
  then show ?thesis unfolding refuses_handshake_def by simp
qed

lemma proxy_reply_set:
  "proxy_reply U deps (set_command ''user:42'' ''Alice'') =
     (case find (\<lambda>dep. strings_ToLower U (depRequest dep) = set_user) deps of
        Some dep \<Rightarrow> EncodeReply (depResponse dep)
      | None \<Rightarrow> EncodeError (''ERR no recorded reply for '' @ [quote] @ set_user @ [quote]))"
proof -
  have "set_command ''user:42'' ''Alice'' \<noteq> []" by (simp add: set_command_def)
  then show ?thesis using set_no_admin by (simp add: proxy_reply_def set_user_text Let_def)
qed

lemma Getenv_last: "Getenv (environ @ [name @ ''='' @ v]) name = v"
  using HasPrefix_append [of "name @ ''=''" v] TrimPrefix_append [of "name @ ''=''" v] by (simp add: Getenv_def)

section \<open>Properties\<close>

text \<open>
  C8: The example of the documentation, replayed: \<open>run\<close> starts the application with an environment that
  leads its Redis client to the proxy, which was bound before with the dependencies of the test case. The
  proxy refuses the client's handshake in the way that lets it go on, and the answer to \<open>/users\<close>
  depends on the first dependency recorded for \<open>set user:42 alice\<close>, up to letter case: with a single-line
  reply that is not rendered as a null, an error or an integer, such as \<open>OK\<close>, it is 201 and the
  user; with a recorded error of one line it is 500 and that error; with a recorded null it is 500
  and the client's error for it; with no such dependency it is 500 and the proxy's error. (What a
  recorded integer leads to is up to the client.) No other path depends on the recording.
\<close>

theorem demo_app_replays:
  assumes "run_cmd unmarshalYAML (Some addr) True waitOk environ fs testPath cmd args = (actions, r)"
    and "testPath \<noteq> []" and "ReadYAML unmarshalYAML testPath fs = Some tc" and "addr \<noteq> []"
    and client: "redis_client_ok client" and deps: "deps = redisDeps (tcDependencies tc)"
    and "app = demo_app (client (proxy_reply U deps))"
    and recorded: "recorded = map_option depResponse (find (\<lambda>dep. strings_ToLower U (depRequest dep) = set_user) deps)"
  shows "(\<exists>env before after. actions = before @ StartProcess (cmd # args) env # after \<and> OpenProxy deps \<in> set before \<and>
      redisAddr env = addr) \<and>
    refuses_handshake (proxy_reply U deps) \<and>
    (\<forall>s. recorded = Some s \<and> one_line s \<and> \<not> looks_special s \<longrightarrow>
       app ''/users'' = \<lparr>answerStatus = 201, answerBody = ''{\"id\":42,\"name\":\"Alice\"}''\<rparr>) \<and>
    (\<forall>err. recorded = Some (''(error) '' @ err) \<and> one_line err \<longrightarrow>
       app ''/users'' = \<lparr>answerStatus = 500, answerBody = err @ [LF]\<rparr>) \<and>
    (recorded = Some ''(nil)'' \<longrightarrow> app ''/users'' = \<lparr>answerStatus = 500, answerBody = ''redis: nil'' @ [LF]\<rparr>) \<and>
    (recorded = None \<longrightarrow>
       app ''/users'' = \<lparr>answerStatus = 500,
         answerBody = (''ERR no recorded reply for '' @ [quote] @ set_user @ [quote]) @ [LF]\<rparr>) \<and>
    (path \<noteq> ''/users'' \<longrightarrow> app path = demo_app (\<lambda>k v. None) path)"
proof (intro conjI allI impI)
  have actions: "actions = [OpenProxy deps, ServeProxy] @ StartProcess (cmd # args) (environ @ [''REDIS_ADDR='' @ addr]) #
      [WaitProcess, CloseProxy]"
    using assms(1,2,3) by (simp add: run_cmd_def deps Let_def split: if_splits)
  moreover have "redisAddr (environ @ [''REDIS_ADDR='' @ addr]) = addr"
    using Getenv_last [of environ "''REDIS_ADDR''" addr] assms(4) by (simp add: redisAddr_def)
  ultimately show "\<exists>env before after. actions = before @ StartProcess (cmd # args) env # after \<and>
      OpenProxy deps \<in> set before \<and> redisAddr env = addr"
    by (intro exI [of _ "environ @ [''REDIS_ADDR='' @ addr]"] exI [of _ "[OpenProxy deps, ServeProxy]"]
        exI [of _ "[WaitProcess, CloseProxy]"]) simp
next
  show "refuses_handshake (proxy_reply U deps)" by (rule proxy_refuses_handshake)
next
  let ?reply = "proxy_reply U deps (set_command ''user:42'' ''Alice'')"
  have law: "answers ?reply (RESPValue (CHR ''+'') s [] False) \<Longrightarrow> client (proxy_reply U deps) ''user:42'' ''Alice'' = None"
    "answers ?reply (RESPValue (CHR ''-'') s [] False) \<Longrightarrow> client (proxy_reply U deps) ''user:42'' ''Alice'' = Some s"
    "answers ?reply (RESPValue (CHR ''$'') [] [] True) \<Longrightarrow> client (proxy_reply U deps) ''user:42'' ''Alice'' = Some ''redis: nil''"
    for s using client proxy_refuses_handshake [of U deps] unfolding redis_client_ok_def by blast+
  have users: "app ''/users'' = users_handler (client (proxy_reply U deps))" by (simp add: assms(7) demo_app_def)
  have reply: "?reply = EncodeReply s" if "recorded = Some s" for s
    using that proxy_reply_set [of U deps] by (auto simp: recorded)
  {
    fix s assume s: "recorded = Some s \<and> one_line s \<and> \<not> looks_special s"
    then have "answers ?reply (RESPValue (CHR ''+'') s [] False)"
      using answers_one_line [of "CHR ''+''" s] by (simp add: reply EncodeReply_plain EncodeSimpleString_def)
    with law(1) show "app ''/users'' = \<lparr>answerStatus = 201, answerBody = ''{\"id\":42,\"name\":\"Alice\"}''\<rparr>"
      by (simp add: users users_handler_def)
  next
    fix err assume err: "recorded = Some (''(error) '' @ err) \<and> one_line err"
    then have "?reply = EncodeError err" using reply EncodeReply_error by metis
    with answers_error [of err] err law(2) show "app ''/users'' = \<lparr>answerStatus = 500, answerBody = err @ [LF]\<rparr>"
      by (simp add: users users_handler_def)
  next
    assume "recorded = Some ''(nil)''"
    then have "?reply = EncodeNullBulk" using reply by (simp add: EncodeReply_def)
    with answers_null law(3) show "app ''/users'' = \<lparr>answerStatus = 500, answerBody = ''redis: nil'' @ [LF]\<rparr>"
      by (simp add: users users_handler_def)
  next
    assume "recorded = None"
    then have "?reply = EncodeError (''ERR no recorded reply for '' @ [quote] @ set_user @ [quote])"
      using proxy_reply_set [of U deps] by (simp add: recorded)
    moreover have "one_line (''ERR no recorded reply for '' @ [quote] @ set_user @ [quote])" by code_simp
    ultimately have "client (proxy_reply U deps) ''user:42'' ''Alice'' =
        Some (''ERR no recorded reply for '' @ [quote] @ set_user @ [quote])"
      using answers_error law(2) by metis
    then show "app ''/users'' = \<lparr>answerStatus = 500,
         answerBody = (''ERR no recorded reply for '' @ [quote] @ set_user @ [quote]) @ [LF]\<rparr>"
      by (simp add: users users_handler_def)
  next
    assume "path \<noteq> ''/users''"
    then show "app path = demo_app (\<lambda>k v. None) path" by (simp add: assms(7) demo_app_def)
  }
qed

text \<open>A client that begins with \<open>HELLO\<close> and gives up on a server that answers it with no RESP value.\<close>

definition read_reply :: "bytes \<Rightarrow> RESPValue option" where
  "read_reply out = (case parseRESPValue (bytes_reader out) of Ret (Inr (v, r)) \<Rightarrow> Some v | _ \<Rightarrow> None)"

definition plain_client :: "(bytes list \<Rightarrow> bytes) \<Rightarrow> bytes \<Rightarrow> bytes \<Rightarrow> bytes option" where
  "plain_client server k v =
     (if read_reply (server [''hello'', ''2'']) = None then Some ''no Redis server''
      else case read_reply (server (set_command k v)) of
        Some (RESPValue kd s arr null) \<Rightarrow>
          if kd = CHR ''-'' then Some s else if null then Some ''redis: nil'' else None
      | None \<Rightarrow> Some ''no reply'')"

lemma read_reply_answers: "answers out v \<Longrightarrow> read_reply out = Some v"
  by (simp add: read_reply_def answers_reader)

lemma plain_client_ok: "redis_client_ok plain_client"
proof -
  have hello: "\<exists>v. read_reply (server [''hello'', ''2'']) = Some v" if refuses: "refuses_handshake server" for server
  proof -
    obtain e where "answers (server [''hello'', ''2'']) (RESPValue (CHR ''-'') (''ERR '' @ e) [] False)"
      using refuses unfolding refuses_handshake_def by blast
    from read_reply_answers [OF this] show ?thesis by simp
  qed
  show ?thesis
    unfolding redis_client_ok_def plain_client_def by (auto dest!: hello simp: read_reply_answers)
qed

definition users_case :: "bytes TestCase" where
  "users_case = (newTestCase ''users'')\<lparr>tcDependencies :=
     [\<lparr>depType = ''redis'', depRequest = ''SET user:42 Alice'', depResponse = ''OK''\<rparr>]\<rparr>"

theorem demo_app_replays_witness:
  "demo_app (plain_client (proxy_reply ascii_tables (redisDeps (tcDependencies users_case)))) ''/users'' =
     \<lparr>answerStatus = 201, answerBody = ''{\"id\":42,\"name\":\"Alice\"}''\<rparr>"
proof -
  let ?fs = "\<lambda>_. Some \<lparr>content = ''case'', read_fails = False\<rparr>" and ?un = "\<lambda>_. Some users_case"
  let ?deps = "redisDeps (tcDependencies users_case)"
  have yaml: "ReadYAML ?un ''t.yaml'' ?fs = Some users_case" by (simp add: ReadYAML_def ReadFile_def)
  obtain actions r where run: "run_cmd ?un (Some ''127.0.0.1:6380'') True True [] ?fs ''t.yaml'' ''app'' [] = (actions, r)"
    by (cases "run_cmd ?un (Some ''127.0.0.1:6380'') True True [] ?fs ''t.yaml'' ''app'' []")
  have "find (\<lambda>dep. strings_ToLower ascii_tables (depRequest dep) = set_user) ?deps =
      Some \<lparr>depType = ''redis'', depRequest = ''SET user:42 Alice'', depResponse = ''OK''\<rparr>"
    by (simp add: users_case_def redisDeps_def) code_simp
  then have "map_option depResponse (find (\<lambda>dep. strings_ToLower ascii_tables (depRequest dep) = set_user) ?deps) = Some ''OK''"
    by simp
  moreover have "one_line ''OK''" "\<not> looks_special ''OK''" by code_simp+
  moreover note demo_app_replays [OF run _ yaml _ plain_client_ok refl refl refl, of ascii_tables, THEN conjunct2, THEN conjunct2,
      THEN conjunct1, rule_format, of "''OK''"]
  ultimately show ?thesis by simp
qed

end
