(* ===== verification/Loader.thy ===== *)
theory Loader
  imports Attach Kernel
begin

text \<open>
  \<open>internal/bpfgen\<close>, \<open>internal/collector\<close>: how the kernel objects are loaded: the spec read from the embedded
  object, its variable \<open>target_pid\<close>, and the structs that get the loaded programs and maps. The
  operations of cilium/ebpf are a parameter (\<open>ebpf_lib\<close>); theory \<open>Attach\<close> takes only their success.
\<close>

section \<open>Specs\<close>

text \<open>A \<open>CollectionSpec\<close>: the programs and maps it has, and the values of its global variables.\<close>

record collection_spec =
  specObjects :: "bpf_obj list"
  specVariables :: "bytes \<rightharpoonup> uint32"

text \<open>
  \<open>LoadAndAssign spec tags\<close> gives the loaded object for each field of a struct, in the order of its
  tags. An error of any operation has the type \<open>'e\<close>.
\<close>

record 'e ebpf_lib =
  LoadCollectionSpecFromReader :: "bytes \<Rightarrow> 'e + collection_spec"
  VariableSet :: "collection_spec \<Rightarrow> bytes \<Rightarrow> uint32 \<Rightarrow> 'e + collection_spec"
  LoadAndAssign :: "collection_spec \<Rightarrow> bpf_obj list \<Rightarrow> 'e + bpf_obj option list"

text \<open>An error with the text the bindings put before it.\<close>

type_synonym 'e wrapped = "bytes \<times> 'e"

definition wrap_error :: "bytes \<Rightarrow> 'e + 'a \<Rightarrow> 'e wrapped + 'a" where
  "wrap_error msg r = (case r of Inl e \<Rightarrow> Inl (msg, e) | Inr x \<Rightarrow> Inr x)"

section \<open>The bindings\<close>

text \<open>\<open>obj\<close> is the embedded object (\<open>_SyscallBytes\<close>, \<open>_TlsBytes\<close>), one for each byte order.\<close>

definition bpfgen_LoadSyscall :: "'e ebpf_lib \<Rightarrow> bytes \<Rightarrow> 'e wrapped + collection_spec" where
  "bpfgen_LoadSyscall L obj = wrap_error ''can't load Syscall: '' (LoadCollectionSpecFromReader L obj)"

definition bpfgen_LoadTls :: "'e ebpf_lib \<Rightarrow> bytes \<Rightarrow> 'e wrapped + collection_spec" where
  "bpfgen_LoadTls L obj = wrap_error ''can't load Tls: '' (LoadCollectionSpecFromReader L obj)"

text \<open>The tags of the fields of the structs, and the structs with these fields assigned.\<close>

definition syscall_tags :: "bpf_obj list" where
  "syscall_tags =
     [SyscallProgram ''trace_enter_close'', SyscallProgram ''trace_enter_connect'', SyscallProgram ''trace_enter_read'',
      SyscallProgram ''trace_enter_write'', SyscallProgram ''trace_exit_read'', SyscallMap ''events'', SyscallMap ''read_stash'']"

definition tls_tags :: "bpf_obj list" where
  "tls_tags =
     [TlsProgram ''trace_ssl_read_enter'', TlsProgram ''trace_ssl_read_exit'', TlsProgram ''trace_ssl_write'',
      TlsMap ''events'', TlsMap ''ssl_read_stash'']"

definition syscall_objects_of :: "bpf_obj option list \<Rightarrow> SyscallObjects" where
  "syscall_objects_of fs =
     \<lparr>syscallPrograms = \<lparr>TraceEnterClose = fs ! 0, TraceEnterConnect = fs ! 1, TraceEnterRead = fs ! 2,
        TraceEnterWrite = fs ! 3, TraceExitRead = fs ! 4\<rparr>,
      syscallMaps = \<lparr>syscallEvents = fs ! 5, ReadStash = fs ! 6\<rparr>\<rparr>"

definition tls_objects_of :: "bpf_obj option list \<Rightarrow> TlsObjects" where
  "tls_objects_of fs =
     \<lparr>tlsPrograms = \<lparr>TraceSslReadEnter = fs ! 0, TraceSslReadExit = fs ! 1, TraceSslWrite = fs ! 2\<rparr>,
      tlsMaps = \<lparr>tlsEvents = fs ! 3, SslReadStash = fs ! 4\<rparr>\<rparr>"

text \<open>\<open>LoadSyscallObjects\<close> and \<open>LoadTlsObjects\<close>, on a whole struct.\<close>

definition bpfgen_LoadSyscallObjects :: "'e ebpf_lib \<Rightarrow> bytes \<Rightarrow> ('e wrapped + 'e) + SyscallObjects" where
  "bpfgen_LoadSyscallObjects L obj =
     (case bpfgen_LoadSyscall L obj of
        Inl e \<Rightarrow> Inl (Inl e)
      | Inr spec \<Rightarrow>
          (case LoadAndAssign L spec syscall_tags of Inl e \<Rightarrow> Inl (Inr e) | Inr fs \<Rightarrow> Inr (syscall_objects_of fs)))"

definition bpfgen_LoadTlsObjects :: "'e ebpf_lib \<Rightarrow> bytes \<Rightarrow> ('e wrapped + 'e) + TlsObjects" where
  "bpfgen_LoadTlsObjects L obj =
     (case bpfgen_LoadTls L obj of
        Inl e \<Rightarrow> Inl (Inl e)
      | Inr spec \<Rightarrow> (case LoadAndAssign L spec tls_tags of Inl e \<Rightarrow> Inl (Inr e) | Inr fs \<Rightarrow> Inr (tls_objects_of fs)))"

section \<open>Loading in New and EnableTLS\<close>

text \<open>
  The part of \<open>New\<close> and of \<open>EnableTLS\<close> that loads: the spec, its variable \<open>target_pid\<close>, the objects.
  The second component is the spec the programs were loaded from.
\<close>

definition New_load :: "'e ebpf_lib \<Rightarrow> bytes \<Rightarrow> uint32 \<Rightarrow> attach_error + SyscallObjects \<times> collection_spec" where
  "New_load L obj pid =
     (case bpfgen_LoadSyscall L obj of
        Inl e \<Rightarrow> Inl SpecError
      | Inr spec \<Rightarrow>
          (case VariableSet L spec ''target_pid'' pid of
             Inl e \<Rightarrow> Inl TargetPidError
           | Inr spec' \<Rightarrow>
               (case LoadAndAssign L spec' syscall_tags of
                  Inl e \<Rightarrow> Inl LoadError
                | Inr fs \<Rightarrow> Inr (syscall_objects_of fs, spec'))))"

definition EnableTLS_load :: "'e ebpf_lib \<Rightarrow> bytes \<Rightarrow> uint32 \<Rightarrow> attach_error + TlsObjects \<times> collection_spec" where
  "EnableTLS_load L obj pid =
     (case bpfgen_LoadTls L obj of
        Inl e \<Rightarrow> Inl TlsSpecError
      | Inr spec \<Rightarrow>
          (case VariableSet L spec ''target_pid'' pid of
             Inl e \<Rightarrow> Inl TlsTargetPidError
           | Inr spec' \<Rightarrow>
               (case LoadAndAssign L spec' tls_tags of
                  Inl e \<Rightarrow> Inl TlsLoadError
                | Inr fs \<Rightarrow> Inr (tls_objects_of fs, spec'))))"

text \<open>The outcomes of the calls in theory \<open>Attach\<close> that these operations give.\<close>

definition load_outcomes :: "'e ebpf_lib \<Rightarrow> bytes \<Rightarrow> uint32 \<Rightarrow> (bpf_call \<Rightarrow> bool) \<Rightarrow> bool" where
  "load_outcomes L obj pid ok \<longleftrightarrow>
     (ok LoadSyscall \<longleftrightarrow> New_load L obj pid \<noteq> Inl SpecError) \<and>
     (ok LoadSyscall \<longrightarrow> (ok (SetTargetPid pid) \<longleftrightarrow> New_load L obj pid \<noteq> Inl TargetPidError)) \<and>
     (ok LoadSyscall \<and> ok (SetTargetPid pid) \<longrightarrow> (ok LoadSyscallObjects \<longleftrightarrow> New_load L obj pid \<noteq> Inl LoadError))"

text \<open>
  The documented behaviour: setting a variable changes its value and nothing else; loading assigns to every
  field the object its tag names, or fails.
\<close>

definition ebpf_lib_ok :: "'e ebpf_lib \<Rightarrow> bool" where
  "ebpf_lib_ok L \<longleftrightarrow>
     (\<forall>spec n v spec'. VariableSet L spec n v = Inr spec' \<longrightarrow>
        specVariables spec' = (specVariables spec)(n \<mapsto> v) \<and> specObjects spec' = specObjects spec) \<and>
     (\<forall>spec tags fs. LoadAndAssign L spec tags = Inr fs \<longrightarrow> fs = map Some tags \<and> set tags \<subseteq> set (specObjects spec))"

text \<open>The \<open>target_pid\<close> that programs loaded from a spec run with; 0 is what the sources initialize it with.\<close>

definition target_of :: "collection_spec \<Rightarrow> uint32" where
  "target_of spec = (case specVariables spec ''target_pid'' of None \<Rightarrow> 0 | Some v \<Rightarrow> v)"

lemma New_load_Inr:
  assumes "ebpf_lib_ok L" and "New_load L obj pid = Inr (objs, spec)"
  shows "objs = assigned_syscall \<and> target_of spec = pid \<and> set syscall_tags \<subseteq> set (specObjects spec)"
proof -
  obtain spec0 fs where set: "VariableSet L spec0 ''target_pid'' pid = Inr spec" and load: "LoadAndAssign L spec syscall_tags = Inr fs"
    and objs: "objs = syscall_objects_of fs"
    using assms(2) by (auto simp: New_load_def split: sum.splits)
  have "fs = map Some syscall_tags" "set syscall_tags \<subseteq> set (specObjects spec)" "specVariables spec ''target_pid'' = Some pid"
    using assms(1) set load unfolding ebpf_lib_ok_def by fastforce+
  then show ?thesis by (simp add: objs syscall_objects_of_def syscall_tags_def assigned_syscall_def target_of_def)
qed

lemma EnableTLS_load_Inr:
  assumes "ebpf_lib_ok L" and "EnableTLS_load L obj pid = Inr (objs, spec)"
  shows "objs = assigned_tls \<and> target_of spec = pid \<and> set tls_tags \<subseteq> set (specObjects spec)"
proof -
  obtain spec0 fs where set: "VariableSet L spec0 ''target_pid'' pid = Inr spec" and load: "LoadAndAssign L spec tls_tags = Inr fs"
    and objs: "objs = tls_objects_of fs"
    using assms(2) by (auto simp: EnableTLS_load_def split: sum.splits)
  have "fs = map Some tls_tags" "set tls_tags \<subseteq> set (specObjects spec)" "specVariables spec ''target_pid'' = Some pid"
    using assms(1) set load unfolding ebpf_lib_ok_def by fastforce+
  then show ?thesis by (simp add: objs tls_objects_of_def tls_tags_def assigned_tls_def target_of_def)
qed

text \<open>The tags name exactly the programs and maps the bindings list.\<close>

lemma tags_names: "set syscall_tags = set syscall_names" "set tls_tags = set tls_names" "distinct syscall_tags" "distinct tls_tags"
  by (auto simp: syscall_tags_def syscall_names_def tls_tags_def tls_names_def)

section \<open>Properties\<close>

text \<open>
  C24: A collector traces its own process and no other. With the outcomes of the loading operations, \<open>New\<close>
  returns their error if there is one (after the checks before them); when it succeeds, the loaded
  objects are the ones it attaches, the programs run with the process number of the collector as
  \<open>target_pid\<close>, and so do those that \<open>EnableTLS\<close> loads. So in every execution of calls on the machine, of
  this and other processes, each event they submit is one of the traced process, and no call of
  another process submits any.
\<close>

theorem collector_traces_its_process:
  assumes lib: "ebpf_lib_ok L" and ok: "load_outcomes L obj pid ok"
    and new: "collector_New ok closeErr clock pid {} = (held, r)"
  shows "(\<forall>e. New_load L obj pid = Inl e \<and> pid \<noteq> 0 \<and> ok RemoveMemlock \<longrightarrow> r = Inl e \<and> held = {}) \<and>
    (\<forall>c. r = Inr c \<longrightarrow> (\<exists>spec. New_load L obj pid = Inr (collObjs c, spec) \<and> target_of spec = collPID c \<and>
       (\<forall>tlsObj objs tlsSpec. EnableTLS_load L tlsObj (collPID c) = Inr (objs, tlsSpec) \<longrightarrow>
          objs = assigned_tls \<and> target_of tlsSpec = collPID c) \<and>
       (\<forall>calls s es. kernel_run (target_of spec) calls kernel_init = (s, es) \<and> list_all (\<lambda>(k, call). kctx_ok k) calls \<longrightarrow>
          list_all (\<lambda>e. PID e = collPID c) es \<and>
          (\<forall>k call. ucast (drop_bit 32 (pidTgid k)) \<noteq> collPID c \<longrightarrow> snd (kernel_step (target_of spec) k call s) = None))))"
proof (intro conjI allI impI)
  fix e assume e: "New_load L obj pid = Inl e \<and> pid \<noteq> 0 \<and> ok RemoveMemlock"
  then have "e \<in> {SpecError, TargetPidError, LoadError}" by (auto simp: New_load_def split: sum.splits)
  with e ok new show "r = Inl e" "held = {}"
    unfolding load_outcomes_def by (auto simp: collector_New_def split: if_splits)
next
  fix c assume r: "r = Inr c"
  with New_books [OF new] have c: "collector_ok c" "collPID c = pid" by auto
  have "ok LoadSyscall \<and> ok (SetTargetPid pid) \<and> ok LoadSyscallObjects"
    using new r by (auto simp: collector_New_def split: if_splits)
  with ok have "New_load L obj pid \<notin> {Inl SpecError, Inl TargetPidError, Inl LoadError}" by (auto simp: load_outcomes_def)
  then obtain objs spec where load: "New_load L obj pid = Inr (objs, spec)"
    by (auto simp: New_load_def split: sum.splits)
  note loaded = New_load_Inr [OF lib load]
  have "list_all (\<lambda>e. PID e = collPID c) es" if "kernel_run (target_of spec) calls kernel_init = (s, es)"
      "list_all (\<lambda>(k, call). kctx_ok k) calls" for calls s es
    using kernel_run_submitted [OF that] loaded c by (auto simp: list_all_iff submitted_ok_def)
  moreover have "snd (kernel_step (target_of spec) k call s) = None" if "ucast (drop_bit 32 (pidTgid k)) \<noteq> collPID c" for k call s
    using that loaded c by (cases call) (auto simp: kernel_defs pid_matches_def Let_def split: option.splits)
  ultimately show "\<exists>spec. New_load L obj pid = Inr (collObjs c, spec) \<and> target_of spec = collPID c \<and>
       (\<forall>tlsObj objs tlsSpec. EnableTLS_load L tlsObj (collPID c) = Inr (objs, tlsSpec) \<longrightarrow>
          objs = assigned_tls \<and> target_of tlsSpec = collPID c) \<and>
       (\<forall>calls s es. kernel_run (target_of spec) calls kernel_init = (s, es) \<and> list_all (\<lambda>(k, call). kctx_ok k) calls \<longrightarrow>
          list_all (\<lambda>e. PID e = collPID c) es \<and>
          (\<forall>k call. ucast (drop_bit 32 (pidTgid k)) \<noteq> collPID c \<longrightarrow> snd (kernel_step (target_of spec) k call s) = None))"
    using load loaded c EnableTLS_load_Inr [OF lib] by (intro exI [of _ spec]) (auto simp: collector_ok_def)
qed

text \<open>A library that loads whatever the spec has.\<close>

definition plain_ebpf :: "unit ebpf_lib" where
  "plain_ebpf =
     \<lparr>LoadCollectionSpecFromReader = (\<lambda>obj. Inr \<lparr>specObjects = syscall_tags @ tls_tags, specVariables = [''target_pid'' \<mapsto> 0]\<rparr>),
      VariableSet = (\<lambda>spec n v. Inr (spec\<lparr>specVariables := (specVariables spec)(n \<mapsto> v)\<rparr>)),
      LoadAndAssign = (\<lambda>spec tags. if set tags \<subseteq> set (specObjects spec) then Inr (map Some tags) else Inl ())\<rparr>"

lemma plain_ebpf_ok: "ebpf_lib_ok plain_ebpf"
  by (auto simp: ebpf_lib_ok_def plain_ebpf_def split: if_splits)

theorem collector_traces_its_process_witness:
  "\<exists>held c spec. collector_New (\<lambda>_. True) (\<lambda>_. None :: unit option) (Some (0, 0), 0) 7 {} = (held, Inr c) \<and>
     New_load plain_ebpf [] 7 = Inr (collObjs c, spec) \<and> target_of spec = 7"
proof -
  obtain held c where new: "collector_New (\<lambda>_. True) (\<lambda>_. None :: unit option) (Some (0, 0), 0) 7 {} = (held, Inr c)"
    by (simp add: collector_New_def tracepoints_def Let_def)
  have "\<exists>objs spec. New_load plain_ebpf [] 7 = Inr (objs, spec)"
    by (simp add: New_load_def plain_ebpf_def bpfgen_LoadSyscall_def wrap_error_def)
  then have "load_outcomes plain_ebpf [] 7 (\<lambda>_. True)" by (auto simp: load_outcomes_def)
  from collector_traces_its_process [OF plain_ebpf_ok this new] New_books [OF new] new show ?thesis by auto
qed

end
