(* ===== verification/Composed.thy ===== *)
theory Composed
  imports Channels Readers
begin

text \<open>
  The goroutines of a whole command: the readers of \<open>collector.Run\<close>, behind them the stages, each
  receiving from the channel the one before it sends on. \<open>link_step\<close> puts a stage behind a producer
  of events; what is so composed is a producer again (locale \<open>producer\<close>), so that the pipeline of
  \<open>trace\<close> is two links. All channels keep their capacities: a full one stops everything before it.
\<close>

section \<open>A stage behind a producer\<close>

text \<open>
  A producer: its steps, the events received from it so far, and whether its channel is closed and
  empty. A step that receives an event from the producer is taken together with the stage's
  \<open>range\<close> loop; the loop ends when the channel is closed and empty. All other steps of the two
  sides interleave. The \<open>inq\<close> of a linked stage is empty: its input is the producer.
\<close>

inductive link_step ::
  "('p \<Rightarrow> 'p \<Rightarrow> bool) \<Rightarrow> ('p \<Rightarrow> 'e list) \<Rightarrow> ('p \<Rightarrow> bool) \<Rightarrow> ('s, 'e, 'o) chan_stage \<Rightarrow>
     'p \<times> ('s, 'e, 'o) chan_state \<Rightarrow> 'p \<times> ('s, 'e, 'o) chan_state \<Rightarrow> bool"
  for pstep pgot pover P where
  produce: "pstep p p' \<Longrightarrow> pgot p' = pgot p \<Longrightarrow> link_step pstep pgot pover P (p, c) (p', c)"
| hand_over: "phase c = Waiting \<Longrightarrow> pstep p p' \<Longrightarrow> pgot p' = pgot p @ [e] \<Longrightarrow>
    link_step pstep pgot pover P (p, c) (p', c\<lparr>phase := SendRaw e\<rparr>)"
| input_ends: "phase c = Waiting \<Longrightarrow> pover p \<Longrightarrow> chan_step P c c' \<Longrightarrow> phase c' \<noteq> Waiting \<Longrightarrow>
    link_step pstep pgot pover P (p, c) (p, c')"
| stage_moves: "chan_step P c c' \<Longrightarrow> phase c \<noteq> Waiting \<or> phase c' = Waiting \<Longrightarrow>
    link_step pstep pgot pover P (p, c) (p, c')"

inductive_cases link_stepE: "link_step pstep pgot pover P (p, c) q"

text \<open>A linked stage as a producer: what its raw channel delivers, and whether that is closed and empty.\<close>

definition raw_got :: "'p \<times> ('s, 'e, 'o) chan_state \<Rightarrow> 'e list" where
  "raw_got q = rawGot (snd q)"

definition raw_over :: "'p \<times> ('s, 'e, 'o) chan_state \<Rightarrow> bool" where
  "raw_over q \<longleftrightarrow> phase (snd q) = ChannelsClosed \<and> rawq (snd q) = []"

text \<open>
  What of a linked stage is true of the stage alone on the events it has got and any that may follow
  (none, once the producer is over).
\<close>

definition link_inv ::
  "('p \<Rightarrow> 'e list) \<Rightarrow> ('p \<Rightarrow> bool) \<Rightarrow> ('p \<Rightarrow> bool) \<Rightarrow> ('s, 'e, 'o) chan_stage \<Rightarrow> 's \<Rightarrow>
     'p \<times> ('s, 'e, 'o) chan_state \<Rightarrow> bool" where
  "link_inv pgot pover pinv P s0 q \<longleftrightarrow>
     (case q of (p, c) \<Rightarrow> pinv p \<and> inq c = [] \<and>
        (\<forall>fs. (pover p \<longrightarrow> fs = []) \<longrightarrow> chan_reach P s0 (pgot p @ fs) (c\<lparr>inq := fs\<rparr>)))"

text \<open>A step that does not touch the input is a step with any input.\<close>

lemma chan_step_input:
  assumes "chan_step P c c'" and "phase c \<noteq> Waiting \<or> phase c' = Waiting"
  shows "chan_step P (c\<lparr>inq := fs\<rparr>) (c'\<lparr>inq := fs\<rparr>)" and "inq c' = inq c"
    and "rawGot c' = rawGot c \<or> (\<exists>e. rawGot c' = rawGot c @ [e])"
proof -
  show "inq c' = inq c" and "rawGot c' = rawGot c \<or> (\<exists>e. rawGot c' = rawGot c @ [e])"
    using assms by (cases rule: chan_step.cases; simp)+
  from assms show "chan_step P (c\<lparr>inq := fs\<rparr>) (c'\<lparr>inq := fs\<rparr>)"
  proof (cases rule: chan_step.cases)
    case (send_raw e s os)
    then show ?thesis using chan_step.send_raw [of "c\<lparr>inq := fs\<rparr>" e P s os] by (cases c) simp
  next
    case (send_raw_panic e p)
    then show ?thesis using chan_step.send_raw_panic [of "c\<lparr>inq := fs\<rparr>" e P p] by (cases c) simp
  next
    case (send_out r os final)
    then show ?thesis using chan_step.send_out [of "c\<lparr>inq := fs\<rparr>" r os final P] by (cases c) simp
  next
    case (sent_all final)
    then show ?thesis using chan_step.sent_all [of "c\<lparr>inq := fs\<rparr>" final P] by (cases c) simp
  next
    case (recv_raw e es)
    then show ?thesis using chan_step.recv_raw [of P "c\<lparr>inq := fs\<rparr>" e es] by (cases c) simp
  next
    case (recv_out r os)
    then show ?thesis using chan_step.recv_out [of P "c\<lparr>inq := fs\<rparr>" r os] by (cases c) simp
  qed (use assms(2) in auto)
qed

lemma no_input [simp]: "inq c = [] \<Longrightarrow> c\<lparr>inq := []\<rparr> = c"
  by (cases c) simp

lemma chan_step_end:
  assumes "chan_step P c c'" and "inq c = []" and "phase c = Waiting"
  shows "inq c' = [] \<and> rawGot c' = rawGot c \<or> (\<exists>e. inq c' = [] \<and> rawGot c' = rawGot c @ [e])"
  using assms by (cases rule: chan_step.cases) simp_all

lemma chan_step_closed:
  assumes "chan_step P c c'" and "phase c = ChannelsClosed"
  shows "phase c' = ChannelsClosed \<and> (rawq c = [] \<longrightarrow> rawq c' = [] \<and> rawGot c' = rawGot c)"
  using assms by (cases rule: chan_step.cases) simp_all

section \<open>The contract of a producer\<close>

locale producer =
  fixes pstep :: "'p \<Rightarrow> 'p \<Rightarrow> bool" and pgot :: "'p \<Rightarrow> 'e list" and pover :: "'p \<Rightarrow> bool" and pinv :: "'p \<Rightarrow> bool"
  assumes keeps: "pinv p \<Longrightarrow> pstep p p' \<Longrightarrow> pinv p'"
    and grows: "pinv p \<Longrightarrow> pstep p p' \<Longrightarrow> pgot p' = pgot p \<or> (\<exists>e. pgot p' = pgot p @ [e])"
    and over: "pinv p \<Longrightarrow> pover p \<Longrightarrow> pstep p p' \<Longrightarrow> pover p' \<and> pgot p' = pgot p"
begin

lemma link_inv_init: "pinv p \<Longrightarrow> pgot p = [] \<Longrightarrow> link_inv pgot pover pinv P s0 (p, chan_init s0 [])"
  by (simp add: link_inv_def chan_reach_def chan_init_def)

lemma link_inv_step:
  assumes "link_step pstep pgot pover P q q'" and "link_inv pgot pover pinv P s0 q"
  shows "link_inv pgot pover pinv P s0 q'"
proof -
  obtain p c where q: "q = (p, c)" by (cases q)
  from assms(2) have inv: "pinv p" "inq c = []"
    and alone: "(pover p \<longrightarrow> fs = []) \<Longrightarrow> chan_reach P s0 (pgot p @ fs) (c\<lparr>inq := fs\<rparr>)" for fs
    by (simp_all add: q link_inv_def)
  from assms(1) [unfolded q] show ?thesis
  proof (cases rule: link_step.cases)
    case (produce p')
    then show ?thesis using inv alone keeps over by (auto simp: link_inv_def)
  next
    case (hand_over p' e)
    have "\<not> pover p" using hand_over over [OF inv(1)] by fastforce
    then have "chan_reach P s0 (pgot p @ e # fs) (c\<lparr>inq := e # fs\<rparr>)" for fs by (intro alone) simp
    moreover have "chan_step P (c\<lparr>inq := e # fs\<rparr>) (c\<lparr>phase := SendRaw e, inq := fs\<rparr>)" for fs
      using chan_step.receive [of "c\<lparr>inq := e # fs\<rparr>" e fs P] hand_over(2) by (cases c) simp
    ultimately have "chan_reach P s0 (pgot p @ e # fs) (c\<lparr>phase := SendRaw e, inq := fs\<rparr>)" for fs
      unfolding chan_reach_def by (meson rtranclp.rtrancl_into_rtrancl)
    then show ?thesis using hand_over inv keeps by (simp add: link_inv_def)
  next
    case (input_ends c')
    have "chan_reach P s0 (pgot p) c" using alone [of "[]"] inv(2) by simp
    then have "chan_reach P s0 (pgot p) c'"
      using input_ends unfolding chan_reach_def by (meson rtranclp.rtrancl_into_rtrancl)
    moreover have "inq c' = []" using chan_step_end [of P c c'] input_ends inv(2) by blast
    ultimately show ?thesis using input_ends inv by (simp add: link_inv_def)
  next
    case (stage_moves c')
    have "chan_reach P s0 (pgot p @ fs) (c'\<lparr>inq := fs\<rparr>)" if "pover p \<longrightarrow> fs = []" for fs
      using alone [OF that] chan_step_input(1) [OF stage_moves(2,3)]
      unfolding chan_reach_def by (meson rtranclp.rtrancl_into_rtrancl)
    then show ?thesis using stage_moves inv chan_step_input(2) [OF stage_moves(2,3)] by (simp add: link_inv_def)
  qed
qed

text \<open>What the linked stage has done is what the stage alone can do.\<close>

lemma link_alone:
  assumes "link_inv pgot pover pinv P s0 (p, c)"
  shows "chan_reach P s0 (pgot p) c" and "phase c = ChannelsClosed \<Longrightarrow> pover p"
proof -
  have alone: "(pover p \<longrightarrow> fs = []) \<Longrightarrow> chan_reach P s0 (pgot p @ fs) (c\<lparr>inq := fs\<rparr>)" and "inq c = []" for fs
    using assms by (simp_all add: link_inv_def)
  then show "chan_reach P s0 (pgot p) c" using alone [of "[]"] by simp
  show "pover p" if "phase c = ChannelsClosed"
  proof (rule ccontr)
    assume "\<not> pover p"
    then have "chan_reach P s0 (pgot p @ [undefined]) (c\<lparr>inq := [undefined]\<rparr>)" by (intro alone) simp
    from chan_reach_inv [OF this] that show False by (simp add: chan_inv_def chan_running_def)
  qed
qed

text \<open>A panic of the linked stage is one of the events in full, with those that wait in its input.\<close>

lemma link_panic:
  assumes "link_inv pgot pover pinv P s0 (p, c)" and "phase c = Crashed x" and "pover p \<longrightarrow> fs = []"
  shows "stage_outcome P s0 (pgot p @ fs) = Panic x"
proof -
  have "chan_reach P s0 (pgot p @ fs) (c\<lparr>inq := fs\<rparr>)" using assms(1,3) by (simp add: link_inv_def)
  from chan_reach_inv [OF this] assms(2) show ?thesis by (simp add: chan_inv_def)
qed

lemma link_producer: "producer (link_step pstep pgot pover P) raw_got raw_over (link_inv pgot pover pinv P s0)"
proof
  fix q q' assume inv: "link_inv pgot pover pinv P s0 q" and step: "link_step pstep pgot pover P q q'"
  show "link_inv pgot pover pinv P s0 q'" by (rule link_inv_step [OF step inv])
  have "inq (snd q) = []" using inv by (simp add: link_inv_def split: prod.splits)
  with step show "raw_got q' = raw_got q \<or> (\<exists>e. raw_got q' = raw_got q @ [e])"
    by (cases rule: link_step.cases) (auto simp: raw_got_def dest: chan_step_end chan_step_input(3))
  show "raw_over q' \<and> raw_got q' = raw_got q" if "raw_over q"
    using step that
    by (cases rule: link_step.cases) (auto simp: raw_over_def raw_got_def dest: chan_step_closed)
qed

text \<open>Where a linked stage comes to rest.\<close>

lemma link_rest:
  assumes inv: "link_inv pgot pover pinv P s0 (p, c)" and halted: "\<And>q. \<not> link_step pstep pgot pover P (p, c) q"
    and caps: "0 < outCap P" "outRead P" and alive: "\<And>x. phase c \<noteq> Crashed x"
  shows "outq c = [] \<and> (rawRead P \<longrightarrow> rawq c = []) \<and> (\<forall>p'. pstep p p' \<longrightarrow> pgot p' \<noteq> pgot p) \<and>
    (phase c = ChannelsClosed \<and> pover p \<or> phase c = Waiting \<and> \<not> pover p \<and> (\<forall>p'. \<not> pstep p p') \<or>
     (\<exists>e. phase c = SendRaw e \<and> rawCap P \<le> length (rawq c)))"
proof -
  have rest: "\<not> chan_step P c c'" if "phase c \<noteq> Waiting \<or> phase c' = Waiting" for c'
    using halted [of "(p, c')"] link_step.stage_moves [of P c c' pstep pgot pover p] that by blast
  have "rawRead P \<Longrightarrow> rawq c \<noteq> [] \<Longrightarrow> \<exists>c'. chan_step P c c' \<and> phase c' = phase c"
    using chan_step.recv_raw [of P c] alive by (cases "rawq c") fastforce+
  moreover have "outq c \<noteq> [] \<Longrightarrow> \<exists>c'. chan_step P c c' \<and> phase c' = phase c"
    using chan_step.recv_out [OF caps(2), of c] alive by (cases "outq c") fastforce+
  ultimately have drained: "outq c = [] \<and> (rawRead P \<longrightarrow> rawq c = [])" using rest by metis
  have own: "\<not> pstep p p'" if "pgot p' = pgot p" for p'
    using halted link_step.produce [of pstep p p' pgot pover P c] that by blast
  have "phase c = ChannelsClosed \<and> pover p \<or> phase c = Waiting \<and> \<not> pover p \<and> (\<forall>p'. \<not> pstep p p') \<or>
     (\<exists>e. phase c = SendRaw e \<and> rawCap P \<le> length (rawq c))"
  proof (cases "phase c = Waiting")
    case True
    have "inq c = []" using inv by (simp add: link_inv_def)
    then have "\<exists>c'. chan_step P c c' \<and> phase c' \<noteq> Waiting"
      using True chan_step.finish [of c P] chan_step.finish_panic [of c P] by (cases "stageEnd P (stageState c)") fastforce+
    then have "\<not> pover p" using halted link_step.input_ends [OF True, of pover p P _ pstep pgot] by blast
    moreover have "\<not> pstep p p'" for p'
      using halted own link_step.hand_over [OF True, of pstep p p' pgot _ pover P] grows [of p p'] inv
      by (auto simp: link_inv_def)
    ultimately show ?thesis using True by blast
  next
    case False
    then have "chan_stuck P c" using rest by (simp add: chan_stuck_def)
    from chan_stuck_phase [OF this caps] show ?thesis using alive link_alone(2) [OF inv] by blast
  qed
  then show ?thesis using drained own by blast
qed

end

text \<open>Linked goroutines stop if both sides do.\<close>

lemma link_terminates:
  assumes "wf {(p', p). pstep p p'}"
  shows "wf {(q', q). link_step pstep pgot pover P q q'}"
proof (rule wf_subset [OF wf_lex_prod [OF assms chan_step_terminates [of P]]])
  show "{(q', q). link_step pstep pgot pover P q q'} \<subseteq> {(p', p). pstep p p'} <*lex*> {(c', c). chan_step P c c'}"
    by (auto elim!: link_step.cases)
qed

section \<open>The pipelines of the commands\<close>

definition run_over :: "run_state \<Rightarrow> bool" where
  "run_over s \<longleftrightarrow> runClosed s \<and> eventsq s = []"

lemma run_step_terminates: "wf {(s', s). run_step s s'}"
  by (rule wf_subset [OF wf_measure [of run_weight]]) (auto dest: run_step_weight)

interpretation collector_source: producer run_step eventsGot run_over "run_reach tlsEnabled rd tlsRd" for tlsEnabled rd tlsRd
proof
  fix s s' assume reach: "run_reach tlsEnabled rd tlsRd s" and step: "run_step s s'"
  show "run_reach tlsEnabled rd tlsRd s'"
    using reach step unfolding run_reach_def by (rule rtranclp.rtrancl_into_rtrancl)
  show "eventsGot s' = eventsGot s \<or> (\<exists>e. eventsGot s' = eventsGot s @ [e])"
    using step by (cases rule: run_step.cases) simp_all
  show "run_over s' \<and> eventsGot s' = eventsGot s" if "run_over s"
    using step that run_reach_inv [OF reach]
    by (cases rule: run_step.cases)
      (auto simp: run_over_def run_inv_def dest: reader_step_caps)
qed

text \<open>
  \<open>trace\<close> with the live view, which receives from the other channels: the correlator behind the
  collector, the streamer behind the raw channel of the correlator. A panic of a goroutine stops all.
\<close>

type_synonym trace_state =
  "(run_state \<times> (correlator_state, event, Connection) chan_state) \<times> (stream_bufs, event, Exchange) chan_state"

definition trace_step ::
  "http_lib \<Rightarrow> unicode_tables \<Rightarrow> (stream_bufs \<Rightarrow> stream_key list) \<Rightarrow> (event \<Rightarrow> int) \<Rightarrow> (event \<Rightarrow> filesystem) \<Rightarrow>
     trace_state \<Rightarrow> trace_state \<Rightarrow> bool" where
  "trace_step H U ord timeOf fsAt t t' \<longleftrightarrow>
     (\<forall>p. phase (snd (fst t)) \<noteq> Crashed p) \<and> (\<forall>p. phase (snd t) \<noteq> Crashed p) \<and>
     link_step (link_step run_step eventsGot run_over (correlator_stage timeOf fsAt)) raw_got raw_over
       (streamer_stage H U ord True) t t'"

definition trace_init :: "bool \<Rightarrow> ring_read list \<Rightarrow> ring_read list \<Rightarrow> trace_state" where
  "trace_init tlsEnabled rd tlsRd =
     ((run_init tlsEnabled rd tlsRd, chan_init correlator_init []), chan_init Map.empty [])"

text \<open>\<open>record\<close>: the streamer behind the collector, its raw channel not received from.\<close>

type_synonym recording_state = "run_state \<times> (stream_bufs, event, Exchange) chan_state"

definition recording_step ::
  "http_lib \<Rightarrow> unicode_tables \<Rightarrow> (stream_bufs \<Rightarrow> stream_key list) \<Rightarrow> recording_state \<Rightarrow> recording_state \<Rightarrow> bool" where
  "recording_step H U ord t t' \<longleftrightarrow>
     (\<forall>p. phase (snd t) \<noteq> Crashed p) \<and> link_step run_step eventsGot run_over (record_stage H U ord) t t'"

definition recording_init :: "ring_read list \<Rightarrow> recording_state" where
  "recording_init rd = (run_init False rd [], chan_init Map.empty [])"

lemma stage_params [simp]:
  "rawCap (streamer_stage H U ord b) = 64" "outCap (streamer_stage H U ord b) = 16"
  "rawRead (streamer_stage H U ord b) = b" "outRead (streamer_stage H U ord b)"
  "rawCap (correlator_stage timeOf fsAt) = 64" "outCap (correlator_stage timeOf fsAt) = 64"
  "rawRead (correlator_stage timeOf fsAt)" "outRead (correlator_stage timeOf fsAt)"
  by (simp_all add: streamer_stage_def correlator_stage_def)

text \<open>A stage at rest with all its events taken: what it has delivered, at its end and before.\<close>

lemma stage_delivered:
  assumes "chan_reach P s0 evs c" and "rawq c = []" and "outq c = []"
  shows "phase c = Waiting \<Longrightarrow> inq c = [] \<Longrightarrow> rawGot c = evs \<and> run_stage (stageStep P) s0 evs = Ret (stageState c, outGot c)"
    and "phase c = ChannelsClosed \<Longrightarrow> rawGot c = evs \<and> stage_outcome P s0 evs = Ret (outGot c)"
proof -
  have inv: "chan_inv P s0 evs c" by (rule chan_reach_inv [OF assms(1)])
  show "phase c = Waiting \<Longrightarrow> inq c = [] \<Longrightarrow> rawGot c = evs \<and> run_stage (stageStep P) s0 evs = Ret (stageState c, outGot c)"
    using inv assms(2,3) by (simp add: chan_inv_def chan_running_def)
  show "phase c = ChannelsClosed \<Longrightarrow> rawGot c = evs \<and> stage_outcome P s0 evs = Ret (outGot c)"
    using inv assms(2,3) by (auto simp: chan_inv_def chan_running_def stage_outcome_def)
qed

lemma stage_outcome_prefix_panic:
  "run_stage (stageStep P) s0 es = Panic x \<Longrightarrow> stage_outcome P s0 (es @ fs) = Panic x"
  by (simp add: stage_outcome_def run_stage_append)

lemma correlator_alive: "chan_reach (correlator_stage timeOf fsAt) s0 evs c \<Longrightarrow> phase c \<noteq> Crashed x"
proof
  assume reach: "chan_reach (correlator_stage timeOf fsAt) s0 evs c" and "phase c = Crashed x"
  with chan_reach_inv [OF reach] have "stage_outcome (correlator_stage timeOf fsAt) s0 evs = Panic x" by (simp add: chan_inv_def)
  moreover obtain s cs where "run_stage (correlator_loop timeOf fsAt) s0 evs = Ret (s, cs)" using correlator_run_returns by blast
  ultimately show False by (simp add: stage_outcome_def correlator_stage_def)
qed

interpretation correlated: producer "link_step run_step eventsGot run_over (correlator_stage timeOf fsAt)" raw_got raw_over
    "link_inv eventsGot run_over (run_reach tlsEnabled rd tlsRd) (correlator_stage timeOf fsAt) correlator_init"
  for timeOf fsAt tlsEnabled rd tlsRd
  by (rule collector_source.link_producer)

abbreviation trace_inv where
  "trace_inv H U ord timeOf fsAt tlsEnabled rd tlsRd \<equiv> link_inv raw_got raw_over
     (link_inv eventsGot run_over (run_reach tlsEnabled rd tlsRd) (correlator_stage timeOf fsAt) correlator_init)
     (streamer_stage H U ord True) Map.empty"

abbreviation recording_inv where
  "recording_inv H U ord rd \<equiv> link_inv eventsGot run_over (run_reach False rd []) (record_stage H U ord) Map.empty"

lemma run_init_source: "run_reach tlsEnabled rd tlsRd (run_init tlsEnabled rd tlsRd)" "eventsGot (run_init tlsEnabled rd tlsRd) = []"
  by (simp_all add: run_reach_def run_init_def)

lemma trace_reach_inv:
  "(trace_step H U ord timeOf fsAt)\<^sup>*\<^sup>* (trace_init tlsEnabled rd tlsRd) t \<Longrightarrow> trace_inv H U ord timeOf fsAt tlsEnabled rd tlsRd t"
proof (induction rule: rtranclp_induct)
  case base
  show ?case unfolding trace_init_def
    by (intro correlated.link_inv_init collector_source.link_inv_init run_init_source)
      (simp add: raw_got_def chan_init_def)
next
  case (step t t')
  from step(2) have "link_step (link_step run_step eventsGot run_over (correlator_stage timeOf fsAt)) raw_got raw_over
      (streamer_stage H U ord True) t t'" by (simp add: trace_step_def)
  from correlated.link_inv_step [OF this step(3)] show ?case .
qed

lemma recording_reach_inv:
  "(recording_step H U ord)\<^sup>*\<^sup>* (recording_init rd) t \<Longrightarrow> recording_inv H U ord rd t"
proof (induction rule: rtranclp_induct)
  case base
  show ?case unfolding recording_init_def by (intro collector_source.link_inv_init run_init_source)
next
  case (step t t')
  from step(2) have "link_step run_step eventsGot run_over (record_stage H U ord) t t'" by (simp add: recording_step_def)
  from collector_source.link_inv_step [OF this step(3)] show ?case .
qed

text \<open>The correlator never panics, and a panic of the streamer is one on the events the collector has delivered.\<close>

lemma trace_alive:
  assumes inv: "trace_inv H U ord timeOf fsAt tlsEnabled rd tlsRd ((src, corr), strm)"
  shows "phase corr \<noteq> Crashed x" and "phase strm = Crashed x \<Longrightarrow> streamer_Run H U ord (eventsGot src) = Panic x"
proof -
  have c: "link_inv eventsGot run_over (run_reach tlsEnabled rd tlsRd) (correlator_stage timeOf fsAt) correlator_init (src, corr)"
    using inv by (simp add: link_inv_def)
  note reach = collector_source.link_alone(1) [OF c]
  show alive: "phase corr \<noteq> Crashed x" for x by (rule correlator_alive [OF reach])
  show "streamer_Run H U ord (eventsGot src) = Panic x" if "phase strm = Crashed x"
  proof -
    have "raw_over (src, corr) \<longrightarrow> rawq corr @ pend_raw (phase corr) = []" by (simp add: raw_over_def)
    then have "stage_outcome (streamer_stage H U ord True) Map.empty (rawGot corr @ rawq corr @ pend_raw (phase corr)) = Panic x"
      using correlated.link_panic [OF inv that] by (simp add: raw_got_def)
    moreover have "rawGot corr @ rawq corr @ pend_raw (phase corr) = eventsGot src"
      using chan_reach_inv [OF reach] c chan_inv_running [OF alive] by (simp add: chan_running_def link_inv_def)
    ultimately show ?thesis by (cases "streamer_Run H U ord (eventsGot src)") (auto simp: streamer_outcome)
  qed
qed

lemma source_stuck:
  assumes "\<And>s'. run_step src s' \<Longrightarrow> eventsGot s' \<noteq> eventsGot src" and "run_over src"
  shows "run_stuck src"
  using assms unfolding run_stuck_def run_over_def by (fastforce elim: run_step.cases)

lemma trace_rest:
  assumes inv: "trace_inv H U ord timeOf fsAt tlsEnabled rd tlsRd ((src, corr), strm)"
    and alive_s: "\<And>x. phase strm \<noteq> Crashed x"
    and halted: "\<And>t'. \<not> trace_step H U ord timeOf fsAt ((src, corr), strm) t'"
  shows "run_stuck src \<and> rawq corr = [] \<and> outq corr = [] \<and> rawq strm = [] \<and> outq strm = [] \<and>
    (phase corr = ChannelsClosed \<and> phase strm = ChannelsClosed \<and> run_over src \<or>
     phase corr = Waiting \<and> phase strm = Waiting \<and> \<not> run_over src)"
proof -
  let ?L = "link_step run_step eventsGot run_over (correlator_stage timeOf fsAt)"
  note alive = trace_alive(1) [OF inv] alive_s
  have c: "link_inv eventsGot run_over (run_reach tlsEnabled rd tlsRd) (correlator_stage timeOf fsAt) correlator_init (src, corr)"
    using inv by (simp add: link_inv_def)
  have "\<not> link_step ?L raw_got raw_over (streamer_stage H U ord True) ((src, corr), strm) q" for q
    using halted [of q] alive by (simp add: trace_step_def)
  then have S: "outq strm = []" "rawq strm = []" "\<And>p'. ?L (src, corr) p' \<Longrightarrow> raw_got p' \<noteq> raw_got (src, corr)"
    and end_s: "phase strm = ChannelsClosed \<and> raw_over (src, corr) \<or>
      phase strm = Waiting \<and> \<not> raw_over (src, corr) \<and> (\<forall>p'. \<not> ?L (src, corr) p')"
    using correlated.link_rest [OF inv _ _ _ alive(2)] by auto
  from end_s show ?thesis
  proof (elim disjE conjE)
    assume closed: "phase strm = ChannelsClosed" "raw_over (src, corr)"
    then have corr: "phase corr = ChannelsClosed" "rawq corr = []" by (simp_all add: raw_over_def)
    then have over: "run_over src" using collector_source.link_alone(2) [OF c] by blast
    have "outq corr = []"
    proof (rule ccontr)
      assume "outq corr \<noteq> []"
      then obtain r os where "outq corr = r # os" by (cases "outq corr") auto
      then have "?L (src, corr) (src, corr\<lparr>outq := os, outGot := outGot corr @ [r]\<rparr>)"
        using corr(1) by (intro link_step.stage_moves chan_step.recv_out) simp_all
      from S(3) [OF this] show False by (simp add: raw_got_def)
    qed
    moreover have "run_stuck src"
    proof (rule source_stuck [OF _ over])
      fix s' assume "run_step src s'"
      then show "eventsGot s' \<noteq> eventsGot src"
        using link_step.produce [of run_step src s' eventsGot run_over "correlator_stage timeOf fsAt" corr] S(3)
        by (fastforce simp: raw_got_def)
    qed
    ultimately show ?thesis using corr closed(1) over S(1,2) by blast
  next
    assume wait: "phase strm = Waiting" "\<not> raw_over (src, corr)" "\<forall>p'. \<not> ?L (src, corr) p'"
    then show ?thesis
      using collector_source.link_rest [OF c _ _ _ alive(1)] S(1,2) by (auto simp: raw_over_def run_stuck_def)
  qed
qed

text \<open>Every execution of either pipeline stops.\<close>

lemma pipelines_terminate:
  "wf {(t', t). trace_step H U ord timeOf fsAt t t'}" "wf {(t', t). recording_step H U ord t t'}"
proof -
  note links = link_terminates [OF link_terminates [OF run_step_terminates]] link_terminates [OF run_step_terminates]
  show "wf {(t', t). trace_step H U ord timeOf fsAt t t'}"
    by (rule wf_subset [OF links(1)]) (auto simp: trace_step_def)
  show "wf {(t', t). recording_step H U ord t t'}"
    by (rule wf_subset [OF links(2)]) (auto simp: recording_step_def)
qed

lemma halts:
  assumes "wf {(t', t). step t t'}"
  shows "\<exists>t'. step\<^sup>*\<^sup>* t t' \<and> (\<forall>t''. \<not> step t' t'')"
  using assms
proof (induction t rule: wf_induct_rule)
  case (less t)
  then show ?case by (cases "\<exists>t1. step t t1") (blast intro: converse_rtranclp_into_rtranclp)+
qed

section \<open>Properties\<close>

lemma trace_delivered:
  assumes "(trace_step H U ord timeOf fsAt)\<^sup>*\<^sup>* (trace_init tlsEnabled rd tlsRd) ((src, corr), strm)"
    and "\<And>t'. \<not> trace_step H U ord timeOf fsAt ((src, corr), strm) t'" and "\<And>x. phase strm \<noteq> Crashed x"
  shows "(\<exists>z \<in> collector_Run tlsEnabled rd tlsRd. rawGot strm = lefts z \<and> errsGot src = rights z) \<and>
     (if ends rd \<and> (tlsEnabled \<longrightarrow> ends tlsRd)
      then phase corr = ChannelsClosed \<and> phase strm = ChannelsClosed \<and>
        correlator_Run timeOf fsAt (rawGot strm) = Ret (rawGot strm, outGot corr) \<and>
        streamer_Run H U ord (rawGot strm) = Ret (rawGot strm, outGot strm)
      else phase corr = Waiting \<and> phase strm = Waiting \<and>
        run_stage (correlator_loop timeOf fsAt) correlator_init (rawGot strm) = Ret (stageState corr, outGot corr) \<and>
        run_stage (streamer_step H U) Map.empty (rawGot strm) = Ret (stageState strm, outGot strm))"
proof -
  note inv = trace_reach_inv [OF assms(1)]
  have c: "link_inv eventsGot run_over (run_reach tlsEnabled rd tlsRd) (correlator_stage timeOf fsAt) correlator_init (src, corr)"
    and inq: "inq corr = []" "inq strm = []" and src: "run_reach tlsEnabled rd tlsRd src"
    using inv by (simp_all add: link_inv_def)
  have rest: "run_stuck src" "rawq corr = []" "outq corr = []" "rawq strm = []" "outq strm = []"
    and phases: "phase corr = ChannelsClosed \<and> phase strm = ChannelsClosed \<and> run_over src \<or>
      phase corr = Waiting \<and> phase strm = Waiting \<and> \<not> run_over src"
    using trace_rest [OF inv assms(3,2)] by blast+
  have "run_over src = (ends rd \<and> (tlsEnabled \<longrightarrow> ends tlsRd))"
    using run_stuck_delivers [OF src rest(1)] run_stuck_phase [OF rest(1)] by (simp add: run_over_def)
  moreover note corr = stage_delivered [OF collector_source.link_alone(1) [OF c] rest(2,3)]
  moreover note strm = stage_delivered [OF correlated.link_alone(1) [OF inv] rest(4,5), unfolded raw_got_def snd_conv]
  moreover have "rawGot strm = eventsGot src" using phases corr strm inq by metis
  moreover have "run_over src \<Longrightarrow> correlator_Run timeOf fsAt (eventsGot src) = Ret (eventsGot src, outGot corr)"
    using phases corr(2) correlator_run_returns [of timeOf fsAt correlator_init "eventsGot src"]
    by (auto simp: correlator_outcome correlator_Run_def)
  moreover have "run_over src \<Longrightarrow> streamer_Run H U ord (eventsGot src) = Ret (eventsGot src, outGot strm)"
    using phases corr(2) strm(2) by (cases "streamer_Run H U ord (eventsGot src)") (auto simp: streamer_outcome streamer_Run_Ret)
  ultimately show ?thesis
    using phases run_stuck_delivers [OF src rest(1)] inq
    by (auto simp: correlator_stage_def streamer_stage_def)
qed

text \<open>
  C4: The pipeline of \<open>trace\<close> as a whole, from the ring buffers to the three channels of the live view,
  with its five bounded buffers, loses nothing, never deadlocks and stops. Whatever the
  interleaving of the two readers, the correlator, the streamer and their receivers, every execution is
  finite; when nothing can move, then either the streamer's decoding has panicked on the events so far, or
  the view has got an interleaving of the events of both ring buffers, every one of them, and every
  decoding error has been reported. If both ring buffers have ended, all channels are closed then and the
  view has got exactly the snapshots and exchanges that the correlator and the streamer compute from
  these events; if a reader still waits for records, it has got all snapshots and exchanges that the
  events so far give.
\<close>

theorem trace_pipeline:
  assumes "(trace_step H U ord timeOf fsAt)\<^sup>*\<^sup>* (trace_init tlsEnabled rd tlsRd) ((src, corr), strm)"
    and "\<And>t'. \<not> trace_step H U ord timeOf fsAt ((src, corr), strm) t'"
  shows "wf {(t', t). trace_step H U ord timeOf fsAt t t'} \<and>
    ((\<exists>x. phase strm = Crashed x \<and> streamer_Run H U ord (eventsGot src) = Panic x) \<or>
     (\<exists>z \<in> collector_Run tlsEnabled rd tlsRd. rawGot strm = lefts z \<and> errsGot src = rights z) \<and>
     (if ends rd \<and> (tlsEnabled \<longrightarrow> ends tlsRd)
      then phase corr = ChannelsClosed \<and> phase strm = ChannelsClosed \<and>
        correlator_Run timeOf fsAt (rawGot strm) = Ret (rawGot strm, outGot corr) \<and>
        streamer_Run H U ord (rawGot strm) = Ret (rawGot strm, outGot strm)
      else phase corr = Waiting \<and> phase strm = Waiting \<and>
        run_stage (correlator_loop timeOf fsAt) correlator_init (rawGot strm) = Ret (stageState corr, outGot corr) \<and>
        run_stage (streamer_step H U) Map.empty (rawGot strm) = Ret (stageState strm, outGot strm)))"
proof (cases "\<exists>x. phase strm = Crashed x")
  case True
  then show ?thesis using trace_alive(2) [OF trace_reach_inv [OF assms(1)]] pipelines_terminate(1) by blast
next
  case False
  with trace_delivered [OF assms] pipelines_terminate(1) show ?thesis by blast
qed

lemma recording_rest:
  assumes inv: "recording_inv H U ord rd (src, strm)" and alive: "\<And>p. phase strm \<noteq> Crashed p"
    and halted: "\<And>t'. \<not> recording_step H U ord (src, strm) t'"
  shows "outq strm = []" and "run_step src s' \<Longrightarrow> eventsGot s' \<noteq> eventsGot src"
    and "run_stuck src \<and> (phase strm = ChannelsClosed \<and> run_over src \<or> phase strm = Waiting \<and> \<not> run_over src) \<or>
      (\<exists>e. phase strm = SendRaw e \<and> 64 \<le> length (rawq strm))"
proof -
  have "\<not> link_step run_step eventsGot run_over (record_stage H U ord) (src, strm) q" for q
    using halted [of q] alive by (simp add: recording_step_def)
  then have "outq strm = []" and own: "\<And>s'. run_step src s' \<Longrightarrow> eventsGot s' \<noteq> eventsGot src"
    and phases: "phase strm = ChannelsClosed \<and> run_over src \<or> phase strm = Waiting \<and> \<not> run_over src \<and> run_stuck src \<or>
      (\<exists>e. phase strm = SendRaw e \<and> 64 \<le> length (rawq strm))"
    using collector_source.link_rest [OF inv _ _ _ alive] by (auto simp: run_stuck_def)
  then show "outq strm = []" and "run_step src s' \<Longrightarrow> eventsGot s' \<noteq> eventsGot src" by blast+
  show "run_stuck src \<and> (phase strm = ChannelsClosed \<and> run_over src \<or> phase strm = Waiting \<and> \<not> run_over src) \<or>
      (\<exists>e. phase strm = SendRaw e \<and> 64 \<le> length (rawq strm))"
    using phases source_stuck [OF own] by blast
qed

text \<open>
  C5: How far the hanging of \<open>record\<close> reaches back. Take any execution of the readers and the streamer
  as \<open>record\<close> connects them, at rest and without a panic. With at most 64 events in the ring buffer,
  and that ended, everything has been collected. With more the streamer stands at its send of the 65th
  event and nothing is ever collected; with more than 129 the channel behind the collector is full as
  well, so that the reader stands at its send of the 130th event: it never gets to see that the ring buffer
  is closed, its channels stay open, and what comes later stays in the ring buffer.
\<close>

theorem recording_backpressure:
  assumes "(recording_step H U ord)\<^sup>*\<^sup>* (recording_init rd) (src, strm)"
    and "\<And>t'. \<not> recording_step H U ord (src, strm) t'" and "\<And>p. phase strm \<noteq> Crashed p"
    and evs: "evs = lefts (readLoop rd)"
  shows "wf {(t', t). recording_step H U ord t t'} \<and>
    (length evs \<le> 64 \<and> ends rd \<longrightarrow>
       record_collected strm = Some (outGot strm) \<and> streamer_Run H U ord evs = Ret (evs, outGot strm)) \<and>
    (64 < length evs \<longrightarrow> phase strm = SendRaw (evs ! 64) \<and> record_collected strm = None) \<and>
    (129 < length evs \<longrightarrow> snd (rdReader src) = SendEvent (evs ! 129) \<and> \<not> runClosed src)"
proof -
  note inv = recording_reach_inv [OF assms(1)]
  have reach: "run_reach False rd [] src" and inq: "inq strm = []" using inv by (simp_all add: link_inv_def)
  note rest = recording_rest [OF inv assms(3,2)]
  note alone = collector_source.link_alone(1) [OF inv]
  have strm: "eventsGot src = rawq strm @ pend_raw (phase strm)" "length (rawq strm) \<le> 64"
    using chan_reach_inv [OF alone] chan_inv_running [OF assms(3)] inq
    by (auto simp: chan_running_def chan_bounds_def)
  from run_reach_inv [OF reach] obtain sent z where loop: "readLoop rd = sent @ to_send (rdReader src)"
      "z \<in> shuffles sent []" "eventsGot src @ eventsq src = lefts z"
    and closed: "runClosed src \<longrightarrow> snd (rdReader src) = ReaderReturned" and cap: "length (eventsq src) \<le> 64"
    by (auto simp: run_inv_def eventsCap_def)
  then have split: "evs = eventsGot src @ eventsq src @ lefts (to_send (rdReader src))"
    using evs by (simp flip: append_assoc)
  from rest(3) show ?thesis
  proof (rule disjE)
    assume "run_stuck src \<and> (phase strm = ChannelsClosed \<and> run_over src \<or> phase strm = Waiting \<and> \<not> run_over src)"
    then have stuck: "run_stuck src"
      and phases: "phase strm = ChannelsClosed \<and> run_over src \<or> phase strm = Waiting \<and> \<not> run_over src" by simp_all
    from run_stuck_delivers [OF reach stuck] have all: "eventsGot src = evs" "runClosed src = ends rd"
      by (auto simp: collector_Run_def evs)
    then have over: "run_over src = ends rd" using run_stuck_phase [OF stuck] by (simp add: run_over_def)
    have "length evs \<le> 64" using strm phases all(1) by auto
    moreover have "stage_outcome (record_stage H U ord) Map.empty evs = Ret (outGot strm)" if "phase strm = ChannelsClosed"
      using chan_reach_inv [OF alone] that rest(1) by (auto simp: chan_inv_def chan_running_def stage_outcome_def all(1))
    then have "ends rd \<Longrightarrow> streamer_Run H U ord evs = Ret (evs, outGot strm)"
      using phases over by (auto simp: streamer_outcome streamer_Run_def split: exec.splits)
    ultimately show ?thesis
      using phases over rest(1) pipelines_terminate(2) by (auto simp: record_collected_def)
  next
    assume "\<exists>e. phase strm = SendRaw e \<and> 64 \<le> length (rawq strm)"
    then obtain e where blocked: "phase strm = SendRaw e" "64 \<le> length (rawq strm)" by blast
    then have full: "length (rawq strm) = 64" using strm(2) by simp
    then have at: "evs ! 64 = e" "64 < length evs" "length (eventsGot src) = 65"
      using split strm(1) blocked(1) by (simp_all add: nth_append)
    have "snd (rdReader src) = SendEvent (evs ! 129)" if "129 < length evs"
    proof -
      have errs: "errsq src = []" using rest(2) [OF recv_err [of src]] by (cases "errsq src") auto
      have more: "lefts (to_send (rdReader src)) \<noteq> []" using that split at(3) cap by auto
      have "\<not> reader_step (eventsq src) [] (rdReader src) evq erq r" for evq erq r
        using rest(2) rd_step [of src evq erq r] errs by fastforce
      from reader_blocked [OF this] obtain ev where ev: "snd (rdReader src) = SendEvent ev" "64 \<le> length (eventsq src)"
        using more by (cases "rdReader src") (auto simp: eventsCap_def)
      then have "to_send (rdReader src) = Inl ev # readLoop (fst (rdReader src))" by (cases "rdReader src") simp
      then show ?thesis using split at(3) ev cap by (simp add: nth_append)
    qed
    then show ?thesis using blocked(1) at closed pipelines_terminate(2) by (auto simp: record_collected_def)
  qed
qed

section \<open>Examples\<close>

abbreviation ring_record :: "event \<Rightarrow> ring_read" where
  "ring_record e \<equiv> RingRecord (struct_event e ''wxyz'' ''pq'')"

lemma decode_sample_op: "decodeEvent (struct_event (sample_op opn n) ''wxyz'' ''pq'') = Inr (sample_op opn n)"
proof -
  have "event_wf (sample_op opn n)" by (simp add: event_wf_def sample_op_def sample_event_def dataCap_def)
  from decode_struct_event [OF this, of "''wxyz''" "''pq''" "[]"] show ?thesis by simp
qed

text \<open>Connects and closes of descriptors without data give the streamer nothing to decode.\<close>

lemma streamer_idle:
  assumes "\<forall>e \<in> set evs. Operation e = OpConnect \<or> Operation e = OpClose"
  shows "streamer_Run no_http ascii_tables sorted_order evs = Ret (evs, [])"
proof -
  have "streamer_step no_http ascii_tables Map.empty e = Ret (Map.empty, [])" if "e \<in> set evs" for e
    using assms that by (auto simp: streamer_step_local stream_local_close stream_key_of_def split: option.splits)
  then have "run_stage (streamer_step no_http ascii_tables) Map.empty evs = Ret (Map.empty, [])"
    by (induction evs) simp_all
  then show ?thesis by (simp add: streamer_Run_def sorted_order_def)
qed

lemma delivered_from_ring: "run_reach False rd [] src \<Longrightarrow> set (eventsGot src) \<subseteq> set (lefts (readLoop rd))"
proof -
  assume "run_reach False rd [] src"
  from run_reach_inv [OF this] obtain sent where "readLoop rd = sent @ to_send (rdReader src)"
    and "eventsGot src @ eventsq src = lefts sent" by (auto simp: run_inv_def)
  then show ?thesis by (metis Un_iff lefts_append set_append subsetI)
qed

theorem trace_pipeline_witness:
  "\<exists>src corr strm. (trace_step no_http ascii_tables sorted_order (\<lambda>_. 0) (\<lambda>_ _. None))\<^sup>*\<^sup>*
       (trace_init False [ring_record (sample_op OpConnect 0), ring_record (sample_op OpClose 0), RingClosed] [])
       ((src, corr), strm) \<and>
     phase corr = ChannelsClosed \<and> rawGot strm = [sample_op OpConnect 0, sample_op OpClose 0] \<and>
     correlator_Run (\<lambda>_. 0) (\<lambda>_ _. None) (rawGot strm) = Ret (rawGot strm, outGot corr)"
proof -
  define rd where "rd = [ring_record (sample_op OpConnect 0), ring_record (sample_op OpClose 0), RingClosed]"
  let ?step = "trace_step no_http ascii_tables sorted_order (\<lambda>_. 0) (\<lambda>_ _. None)"
  obtain src corr strm where reach: "?step\<^sup>*\<^sup>* (trace_init False rd []) ((src, corr), strm)"
    and halted: "\<And>t'. \<not> ?step ((src, corr), strm) t'"
    using halts [OF pipelines_terminate(1), where t = "trace_init False rd []"] by (metis surj_pair)
  have loop: "readLoop rd = map Inl [sample_op OpConnect 0, sample_op OpClose 0]" and "ends rd"
    by (simp_all add: rd_def decode_sample_op ends_def)
  have "run_reach False rd [] src" using trace_reach_inv [OF reach] by (simp add: link_inv_def)
  from delivered_from_ring [OF this] have "streamer_Run no_http ascii_tables sorted_order (eventsGot src) = Ret (eventsGot src, [])"
    using loop by (intro streamer_idle) (auto simp: sample_op_def)
  then have "streamer_Run no_http ascii_tables sorted_order (eventsGot src) \<noteq> Panic x" for x by simp
  with trace_pipeline [OF reach halted] have "(\<exists>z \<in> collector_Run False rd []. rawGot strm = lefts z) \<and>
      phase corr = ChannelsClosed \<and> correlator_Run (\<lambda>_. 0) (\<lambda>_ _. None) (rawGot strm) = Ret (rawGot strm, outGot corr)"
    by (simp only: \<open>ends rd\<close> simp_thms if_True) blast
  moreover have "collector_Run False rd [] = {readLoop rd}" by (simp add: collector_Run_def)
  moreover have "lefts (readLoop rd) = [sample_op OpConnect 0, sample_op OpClose 0]" unfolding loop by (rule lefts_map_Inl)
  ultimately show ?thesis using reach unfolding rd_def by (metis singletonD)
qed

theorem recording_backpressure_witness:
  "\<exists>src strm. (recording_step no_http ascii_tables sorted_order)\<^sup>*\<^sup>*
       (recording_init (replicate 130 (ring_record (sample_op OpClose 0)) @ [RingClosed])) (src, strm) \<and>
     phase strm = SendRaw (sample_op OpClose 0) \<and> snd (rdReader src) = SendEvent (sample_op OpClose 0)"
proof -
  define rd where "rd = replicate 130 (ring_record (sample_op OpClose 0)) @ [RingClosed]"
  let ?step = "recording_step no_http ascii_tables sorted_order"
  obtain src strm where reach: "?step\<^sup>*\<^sup>* (recording_init rd) (src, strm)" and halted: "\<And>t'. \<not> ?step (src, strm) t'"
    using halts [OF pipelines_terminate(2), where t = "recording_init rd"] by (metis surj_pair)
  have "readLoop (replicate n (ring_record (sample_op OpClose 0)) @ [RingClosed]) = map Inl (replicate n (sample_op OpClose 0))" for n
    by (induction n) (simp_all add: decode_sample_op)
  then have loop: "lefts (readLoop rd) = replicate 130 (sample_op OpClose 0)" unfolding rd_def by (simp only: lefts_map_Inl)
  note inv = recording_reach_inv [OF reach]
  then have "run_reach False rd [] src" by (simp add: link_inv_def)
  from delivered_from_ring [OF this] have "streamer_Run no_http ascii_tables sorted_order (eventsGot src) = Ret (eventsGot src, [])"
    unfolding loop by (intro streamer_idle) (auto simp: sample_op_def)
  then have "phase strm \<noteq> Crashed x" for x
    using collector_source.link_panic [OF inv, of x "[]"] by (auto simp: streamer_outcome)
  note blocked = recording_backpressure [OF reach halted this refl, unfolded loop length_replicate]
  have "replicate 130 x ! 64 = x" "replicate 130 x ! 129 = x" for x :: event by (rule nth_replicate; simp)+
  from blocked [unfolded this]
  have "phase strm = SendRaw (sample_op OpClose 0) \<and> snd (rdReader src) = SendEvent (sample_op OpClose 0)" by simp
  with reach show ?thesis unfolding rd_def by blast
qed

end
