(* ===== verification/Screen.thy ===== *)
theory Screen
  imports Composed Pipeline TuiStart
begin

text \<open>
  From the system calls of a process to the screen: the kernel programs, the ring buffer, the composed
  pipeline of \<open>trace\<close> and the live view, put together.
\<close>

section \<open>Properties\<close>

text \<open>
  C3: What \<open>trace\<close> shows is what the process did. Take any execution of calls on the machine, the ring
  buffer with the events the kernel programs submitted in it, any execution of the pipeline that has come to
  rest without a panic, and any of the live view on what the pipeline delivers, in which no delivery is
  left. Then all three tabs have seen the end of their channels; the events table shows the last 500
  events in the order in which they were submitted, each with its own time; the connections table shows exactly
  one row per connect of the process, in order, with its descriptor and endpoint; the HTTP table shows the
  last 500 HTTP exchanges that the streamer assembles from these events.
\<close>

theorem system_calls_on_screen:
  fixes W :: "('tb, 'm) tables"
  assumes kernel: "kernel_run target calls kernel_init = (s, es)" and "list_all (\<lambda>(c, call). kctx_ok c) calls"
    and ring: "ring_holds es rs"
    and pipeline: "(trace_step H U ord timeOf fsAt)\<^sup>*\<^sup>* (trace_init False rs []) ((src, corr), strm)"
      "\<And>t'. \<not> trace_step H U ord timeOf fsAt ((src, corr), strm) t'" and "\<And>x. phase strm \<noteq> Crashed x"
    and view: "keeps_rows W rowsOf" "rowsOf t1 = []" "rowsOf t2 = []" "rowsOf t3 = []"
      "sys_reach P tz W (sys_init (tui_newModel t1 t2 t3) (map (\<lambda>e. (e, timeOf e, fsRow e)) (rawGot strm))
         (outGot corr) (outGot strm)) v" "\<And>v'. \<not> tui_deliver P tz W v v'"
    and few: "length (connects es) < 2 ^ 64"
  shows "eClosed (eventsT (ui v)) \<and> cClosedTab (connsT (ui v)) \<and> hClosed (httpT (ui v)) \<and>
    map Ret (rowsOf (eTable (eventsT (ui v)))) = last_rows (map (\<lambda>e. eventRow P tz (fsRow e) e (timeOf e)) es) \<and>
    (\<exists>ds. rowsOf (cTable (connsT (ui v))) = map connRow ds \<and>
       map (\<lambda>d. (cPID d, cFD d, cRemoteAddr d, cRemotePort d)) ds =
         map (\<lambda>e. (target, FD e, RemoteAddr e, RemotePort e)) (connects es)) \<and>
    (\<exists>exs. streamer_Run H U ord es = Ret (es, exs) \<and>
       rowsOf (hTable (httpT (ui v))) = last_rows (map httpRow (filter (\<lambda>ex. exProtocol ex = ProtocolHTTP) exs)))"
proof -
  have ok: "list_all (submitted_ok target) es" by (rule kernel_run_submitted [OF kernel assms(2)])
  then have "list_all event_wf es" by (auto simp: list_all_iff submitted_ok_def)
  note loop = readLoop_ring [OF ring this]
  have raw: "rawGot strm = es" and conns: "correlator_Run timeOf fsAt es = Ret (es, outGot corr)"
    and exs: "streamer_Run H U ord es = Ret (es, outGot strm)"
    using trace_delivered [OF pipeline assms(6)] loop by (auto simp: collector_Run_def)
  let ?es = "map (\<lambda>e. (e, timeOf e, fsRow e)) es"
  have data: "list_all (\<lambda>(e, t, fs). data_ok e) ?es"
    using ok by (auto simp: list_all_iff submitted_ok_def data_ok_def dataCap_def)
  note reach = view(5) [unfolded raw]
  from view_drained [OF view(1-4) data reach view(6)]
  have tabs: "eClosed (eventsT (ui v)) \<and> cClosedTab (connsT (ui v)) \<and> hClosed (httpT (ui v))"
    "map Ret (rowsOf (eTable (eventsT (ui v)))) = last_rows (map (\<lambda>e. eventRow P tz (fsRow e) e (timeOf e)) es)"
    "rowsOf (hTable (httpT (ui v))) = last_rows (map httpRow (filter (\<lambda>ex. exProtocol ex = ProtocolHTTP) (outGot strm)))"
    by (simp_all add: comp_def)
  from connection_rows [OF view(1-4) data conns few reach view(6)] obtain ds
    where ds: "rowsOf (cTable (connsT (ui v))) = map connRow ds"
      "map (\<lambda>d. (cPID d, cComm d, cFD d, cRemoteAddr d, cRemotePort d)) ds =
         map (\<lambda>ev. (PID ev, Comm (fsAt ev) (PID ev), FD ev, RemoteAddr ev, RemotePort ev)) (connects es)" by blast
  have "map (\<lambda>d. (cPID d, cFD d, cRemoteAddr d, cRemotePort d)) ds =
      map (\<lambda>(a, b, c, d, e). (a, c, d, e)) (map (\<lambda>d. (cPID d, cComm d, cFD d, cRemoteAddr d, cRemotePort d)) ds)" by simp
  also have "\<dots> = map (\<lambda>e. (PID e, FD e, RemoteAddr e, RemotePort e)) (connects es)" unfolding ds(2) by simp
  also have "\<dots> = map (\<lambda>e. (target, FD e, RemoteAddr e, RemotePort e)) (connects es)"
    using ok by (auto simp: connects_def list_all_iff submitted_ok_def)
  finally show ?thesis using tabs ds(1) exs by blast
qed

theorem system_calls_on_screen_witness:
  "\<exists>es (v :: row list tui_sys) c. snd (kernel_run 7 [(sample_kctx 30064771081, EnterConnect 3 64), (sample_kctx 30064771081, EnterClose 3)]
       kernel_init) = es \<and> cTable (connsT (ui v)) = [connRow c] \<and> cFD c = 3 \<and> length (eTable (eventsT (ui v))) = 2"
proof -
  let ?calls = "[(sample_kctx 30064771081, EnterConnect 3 64), (sample_kctx 30064771081, EnterClose 3)]"
  obtain s es where run: "kernel_run 7 ?calls kernel_init = (s, es)" by (cases "kernel_run 7 ?calls kernel_init")
  then obtain e1 e2 where es: "es = [e1, e2]" and ops: "Operation e1 = OpConnect" "Operation e2 = OpClose" "FD e1 = 3"
    by (auto simp: kernel_defs pid_matches_def sample_kctx_def fill_common_def remote_of_def Let_def)
  have kok: "list_all (\<lambda>(c, call). kctx_ok c) ?calls" by (simp add: sample_kctx_ok)
  define rs where "rs = map (\<lambda>e. RingRecord (struct_event e ''gap.'' ''..'')) es @ [RingClosed]"
  have ring: "ring_holds es rs" unfolding rs_def by (rule traced_ring)
  have "list_all event_wf es" using kernel_run_submitted [OF run kok] by (auto simp: list_all_iff submitted_ok_def)
  note loop = readLoop_ring [OF ring this]
  let ?step = "trace_step no_http ascii_tables sorted_order (\<lambda>_. 0) (\<lambda>_ _. None)"
  obtain src corr strm where reach: "?step\<^sup>*\<^sup>* (trace_init False rs []) ((src, corr), strm)"
    and halted: "\<And>t'. \<not> ?step ((src, corr), strm) t'"
    using halts [OF pipelines_terminate(1), where t = "trace_init False rs []"] by (metis surj_pair)
  note inv = trace_reach_inv [OF reach]
  then have "run_reach False rs [] src" by (simp add: link_inv_def)
  from delivered_from_ring [OF this] have "streamer_Run no_http ascii_tables sorted_order (eventsGot src) = Ret (eventsGot src, [])"
    using loop ops by (intro streamer_idle) (auto simp: es)
  then have alive: "phase strm \<noteq> Crashed x" for x using trace_alive(2) [OF inv, of x] by auto
  let ?s0 = "sample_sys (map (\<lambda>e. (e, 0 :: int, \<lambda>_ :: bytes. None :: osfile option)) (rawGot strm)) (outGot corr) (outGot strm)"
  obtain v where v: "sys_reach (\<lambda>_. True) (\<lambda>_. 0) row_tables ?s0 v" and stuck: "\<And>v'. \<not> tui_deliver (\<lambda>_. True) (\<lambda>_. 0) row_tables v v'"
    using sys_ends [of "\<lambda>_. True" "\<lambda>_. 0" row_tables ?s0] by blast
  have con: "connects es = [e1]" using ops by (simp add: es connects_def)
  then have few: "length (connects es) < 2 ^ 64" by simp
  note shown = system_calls_on_screen [OF run kok ring reach halted alive keeps_rows_row_tables refl refl refl v stuck few]
  from shown [THEN conjunct2, THEN conjunct2, THEN conjunct2, THEN conjunct2, THEN conjunct1]
  obtain ds where table: "cTable (connsT (ui v)) = map connRow ds" "map (\<lambda>d. (cPID d, cFD d, cRemoteAddr d, cRemotePort d)) ds =
      map (\<lambda>e. (7, FD e, RemoteAddr e, RemotePort e)) (connects es)" by (elim exE conjE) (rule that)
  note rows = shown [THEN conjunct2, THEN conjunct2, THEN conjunct2, THEN conjunct1]
  from table(2) obtain d where "ds = [d]" "cFD d = 3" using ops(3) by (cases ds) (auto simp: con)
  moreover from arg_cong [OF rows, of length] have "length (eTable (eventsT (ui v))) = 2"
    by (simp add: last_rows_def maxRows_def es)
  ultimately show ?thesis using table(1) run by auto
qed

end
