(* ===== verification/Spec2Isabelle.thy ===== *)
theory Spec2Isabelle
  imports Program Pipeline Wiring TuiStart Interrupts DemoApp Loader Screen
begin

text \<open>
  \<^bold>\<open>Wiremark: verification library.\<close>

  \<^bold>\<open>The program.\<close> Wiremark traces the network system calls of one process with eBPF programs, assembles
  connections and HTTP or Redis exchanges from them, shows them live or as text (\<open>trace\<close>), records one
  HTTP request with its Redis dependencies as a YAML test case (\<open>record\<close>), and runs a command with those
  dependencies served from the test case (\<open>run\<close>). The data flow is a chain of goroutines connected by
  buffered channels: kernel programs, ring buffer, \<open>Collector.Run\<close>, \<open>correlator.Run\<close>, \<open>streamer.Run\<close>, then the
  live view, or the printer directly behind the collector, or (in \<open>record\<close>, without the correlator)
  \<open>recorder.Build\<close> and the YAML file; \<open>run\<close> reads that file and starts \<open>replay.Proxy\<close>.

  \<^bold>\<open>Theories and sources\<close> (paths under \<open>src/internal\<close> unless they start with \<open>src\<close>):

  \<^item> \<open>Prelude\<close>, \<open>Utf8\<close>, \<open>GoStrings\<close>, \<open>GoIO\<close>: what the sources use of Go itself. Strings are byte lists, sized
    integers are words, \<open>int\<close> is a mathematical integer with the wrap-around written out (\<open>int64\<close>); a
    call either returns or panics (\<open>exec\<close>), and error values are sums or options. UTF-8 decoding and encoding, the
    functions of \<open>strings\<close> and \<open>strconv\<close>, buffered readers, and the limit of \<open>make\<close>.
  \<^item> \<open>Resp\<close> (\<open>decoder/resp.go\<close>): \<open>parseRESPValue\<close>, \<open>ReadCommand\<close>, the encoders, \<open>ParseRESPStream\<close>, \<open>TryRESP\<close>, by the names
    of the functions. \<open>Wire\<close> holds the RESP2 wire format as a specification with the round trips, \<open>RespSpec\<close> the pairing of commands
    and replies.
  \<^item> \<open>Http\<close> (\<open>decoder/http.go\<close>): \<open>TryHTTP\<close>; the parsers of \<open>net/http\<close> are the parameter \<open>http_lib\<close>.
  \<^item> \<open>Collector\<close> (\<open>collector/collector.go\<close>, \<open>collector/proc.go\<close>, \<open>src/bpf/types.h\<close>): the event record and its layout,
    payloads, event times, \<open>readLoop\<close>, \<open>Comm\<close>, \<open>findMappedLibrary\<close>. \<open>Readers\<close> (same file): the goroutines of \<open>Run\<close>,
    one reader per ring buffer with the two shared channels and the goroutine that closes them (\<open>run_step\<close>).
  \<^item> \<open>Bindings\<close> (\<open>bpfgen/syscall_bpfel.go\<close>, \<open>bpfgen/tls_bpfel.go\<close>): the generated structs of programs and maps and
    how they are closed; the locale \<open>closer\<close>, the contract of a group of objects that stops at the first
    error, is interpreted for both structs. \<open>Attach\<close> (\<open>collector/collector.go\<close>): \<open>New\<close>, \<open>EnableTLS\<close>, \<open>Close\<close>, with the
    kernel objects held as state and the outcome of each library call as a parameter. \<open>Loader\<close> (\<open>bpfgen\<close>,
    \<open>collector/collector.go\<close>): reading the specs, setting \<open>target_pid\<close>, assigning the loaded objects to the structs.
  \<^item> \<open>Kernel\<close> (\<open>src/bpf/syscall.bpf.c\<close>, \<open>src/bpf/tls.bpf.c\<close>, \<open>src/bpf/common.bpf.h\<close>): the eight kernel programs over the two maps
    of stashed arguments, and executions of calls by many threads (\<open>kernel_run\<close>). \<open>Wiring\<close>: which program is attached
    where, and the byte order of the records on both sides.
  \<^item> \<open>Stages\<close>: the event loop \<open>for ev := range events\<close> (\<open>run_stage\<close>) and the locale \<open>keyed_stage\<close>, the contract of a stage that keeps
    one cell of state per connection: its steps touch only the cell of the event's key. From it follows
    that connections are independent; it is interpreted as \<open>correlator\<close> and \<open>streamer\<close>.
  \<^item> \<open>Correlator\<close> (\<open>correlator/correlator.go\<close>), \<open>Streamer\<close> (\<open>streamer/streamer.go\<close>): state, one step per event,
    the flush at the end (the iteration order of a Go map is the parameter \<open>ord\<close>).
  \<^item> \<open>Channels\<close>: the goroutine of a stage with its input and its two bounded output channels as a step
    relation \<open>chan_step\<close>; sends block when a channel is full. \<open>Composed\<close>: the goroutines of a whole command. \<open>link_step\<close>
    puts a stage behind a producer; the locale \<open>producer\<close> is the contract of a producer of events, interpreted for
    the collector and for the correlator behind it, so that \<open>trace\<close> is two links and \<open>record\<close> one.
    \<open>Screen\<close>: from the system calls of a process to the tables of the live view.
  \<^item> \<open>Recorder\<close> (\<open>recorder/recorder.go\<close>): \<open>Build\<close>. \<open>Replay\<close> (\<open>replay/proxy.go\<close>): the reply to a command and the
    loop over a connection. \<open>ProxyLife\<close>: \<open>Serve\<close> and \<open>Close\<close> with the wait group as interleaved steps.
    \<open>EndToEnd\<close>: from captured bytes to what a client of the proxy reads. \<open>Pipeline\<close>: from the system calls of a
    process, by a specification of the bytes it moves on a descriptor (\<open>process_io\<close>), to the recorded exchange
    and to the replay.
  \<^item> \<open>Printer\<close> (\<open>printer/printer.go\<close>): \<open>Format\<close>, \<open>Print\<close>. \<open>Launcher\<close> (\<open>launcher/proc.go\<close>, \<open>launcher/launcher.go\<close>): process list, the menu as a state
    machine (\<open>launcher_Update\<close>), \<open>Run\<close>.
  \<^item> \<open>Tui\<close> (\<open>tui/tui.go\<close>): rows, the three tabs, \<open>Update\<close>, and the program with its three channels and outstanding
    receives (\<open>tui_deliver\<close>, \<open>tui_sys_step\<close>). \<open>TuiView\<close> (\<open>tui/tui.go\<close>): coloring a column, the colors, the
    bars and \<open>View\<close>. \<open>TuiStart\<close> (\<open>tui/tui.go\<close>): the constructors of the tabs, the wait commands, \<open>Run\<close>.
  \<^item> \<open>Cli\<close> (\<open>src/cmd/wiremark/main.go\<close>, \<open>storage/storage.go\<close>): the commands put together from all of these. \<open>Program\<close>
    (\<open>src/cmd/wiremark/main.go\<close>): the command tree with its flags, \<open>main\<close>, and how the command line that \<open>launch\<close>
    executes is read again. \<open>Interrupts\<close> (same file): the signal handlers of \<open>record\<close> and \<open>run\<close> as steps
    interleaved with the command.
  \<^item> \<open>DemoApp\<close> (\<open>src/examples/go-http-app/main.go\<close>): the example application and what becomes of it under \<open>run\<close>.

  \<^bold>\<open>What the lemmas show.\<close> Capture: every submitted event is one the collector can take, and a
  read is paired with its own entry; the goroutines of the collector deliver what the read loops send; every kernel
  program runs where its section says. Decoding: parsing inverts the wire encoding, uses up exactly one value, is
  determined by the bytes it uses, and recovers all complete values of a truncated capture; a data command is paired
  with the reply at its position. Assembly: a closed connection decodes exactly the bytes captured on it, capped per
  direction; a whole trace is the same as every connection on its own; the correlator's sequence numbers and byte
  counts. Concurrency: what both stages deliver does not depend on the interleaving, the whole pipeline of
  \<open>trace\<close> loses nothing and never deadlocks, the live view drains its channels and never panics, and
  \<open>record\<close> hangs on traces of more than 64 events, which stops the collector's reader as well after 129;
  the wait group of the proxy, whose \<open>Close\<close> returns. Output: when a reply of the proxy is exactly one
  value, which control characters a line of the printer can hold, the tables show the last 500 rows and one row per
  connection, each row with one cell per column. Resources: nothing stays attached in the kernel when a command
  returns, except after a failed clock reading or a failed close; the collector is closed once, also when it is
  interrupted; a collector traces its own process only. Composition: what was selected and typed in the menu is
  exactly what runs; the tables of the live view show what the process did; the exchange recorded for a descriptor
  decodes the bytes the process moved on it; what \<open>record\<close> writes, \<open>run\<close> serves, and exactly
  which replies a client reads back as the process got them (errors, integers, nulls and plain statuses; bulk strings
  and arrays come back as statuses); how the documented example is answered under \<open>run\<close>. Several theorems
  state defects of the code exactly (a panic on an impossible length, the hanging \<open>record\<close>, lost types of
  replies, lost colors, big-endian targets).

  \<^bold>\<open>Termination and bounds.\<close> All functions are total; recursions that are not structural have
  measures (the bytes left to read). No fuel is used. Step relations are shown to stop by a measure; for the collector
  it gives three steps per read plus three, for the closing of the proxy five steps more than there are handlers, for
  an interrupted recording eight; the composed pipelines stop by the lexicographic product of the relations of their
  goroutines. Buffers (64 KiB per direction, 64 and 16 channel slots, 500 rows, 4096 bytes of data) are those of the
  sources.

  \<^bold>\<open>Not modelled.\<close> The helpers of the kernel that the kernel programs call (their results are
  parameters), the specs in the bindings, which the program does not use (their big-endian files
  \<open>bpfgen/syscall_bpfeb.go\<close> and \<open>bpfgen/tls_bpfeb.go\<close> are the same code with another
  embedded object); of the libraries: \<open>net/http\<close> parsers, JSON and YAML, the Redis client of the example,
  the operations of cilium/ebpf, the widgets of bubbles, the event loop of bubbletea, the styling of lipgloss, the
  flag parsing of cobra and pflag (all parameters where the sources depend on their results; of the parsing of flags
  the documented behaviour is a hypothesis, \<open>pflag_ok\<close> and \<open>cobra_ok\<close>, and so it is of the
  Redis client with its handshake, \<open>redis_client_ok\<close>; that bubbletea ends a program on a signal is part
  of \<open>tui_Run\<close>). Messages on the standard error, the listener's socket and running out of memory below
  the limit of \<open>make\<close> are left out.
\<close>

end
